(* ===== verification/P2P_Prelude.thy ===== *)
theory P2P_Prelude
  imports Main "HOL-Library.Word"
begin

text \<open>
  The shared foundation of the development: how a C++ computation can end, the collections of
  facts the component proofs draw on, and generic lemmas on lists.

  A C++ function that may fail is modelled as a value of type \<open>'a result\<close>.  \<open>Inr x\<close> is a
  normal return.  \<open>Inl e\<close> is one of the ways the program leaves the function without a value:
  \<^item> \<open>Undefined_Behaviour\<close>: the C++ standard gives the execution no meaning (a read or write
    outside an object, a null pointer used, a negative array bound);
  \<^item> \<open>Diverges\<close>: the function never returns;
  \<^item> \<open>Killed_by_SIGPIPE\<close>: a system call raised this signal, which ends the process;
  \<^item> \<open>Throws e\<close>: an exception leaves the function.
\<close>

section \<open>Outcomes of a computation\<close>

datatype exn =
    FilenameParseException
  | FileReadException
  | PathReadException
  | InvalidPathException
  | HandshakeException
  | Std_invalid_argument
  | Std_out_of_range
  | Std_bad_array_new_length
  | Std_bad_alloc
  | CryptoPP_BadState

datatype crash = Undefined_Behaviour | Diverges | Killed_by_SIGPIPE | Throws exn

type_synonym 'a result = "crash + 'a"

type_synonym byte = "8 word"
type_synonym u16 = "16 word"
type_synonym u32 = "32 word"
type_synonym u64 = "64 word"

text \<open>Sequencing: \<open>bnd m f\<close> runs \<open>m\<close> and, if it returned a value, continues with \<open>f\<close>.\<close>

fun bnd :: "'a result \<Rightarrow> ('a \<Rightarrow> 'b result) \<Rightarrow> 'b result" where
  "bnd (Inl e) f = Inl e"
| "bnd (Inr x) f = f x"

section \<open>Collections of facts\<close>

named_theorems codec_simps \<open>facts that evaluate reads and writes of message buffers\<close>
named_theorems index_simps \<open>facts about the central index operations\<close>
named_theorems sock_simps \<open>facts about socket operations\<close>

section \<open>Sequencing\<close>

lemma bnd_eq_Inr_iff: "bnd m f = Inr y \<longleftrightarrow> (\<exists>x. m = Inr x \<and> f x = Inr y)"
  by (cases m) auto

lemma bnd_eq_Inl_iff: "bnd m f = Inl e \<longleftrightarrow> m = Inl e \<or> (\<exists>x. m = Inr x \<and> f x = Inl e)"
  by (cases m) auto

lemma bnd_assoc: "bnd (bnd m f) g = bnd m (\<lambda>x. bnd (f x) g)"
  by (cases m) auto

lemma bnd_Inr_right [simp]: "bnd m Inr = m"
  by (cases m) auto

lemma bnd_cong [fundef_cong]:
  assumes "m = m'" and "\<And>x. m' = Inr x \<Longrightarrow> f x = f' x"
  shows "bnd m f = bnd m' f'"
  using assms by (cases m') auto

section \<open>Lists\<close>

lemma take_drop_split:
  assumes "n + m \<le> length xs"
  shows "take n xs @ take m (drop n xs) @ drop (n + m) xs = xs"
  using assms by (metis add.commute append_take_drop_id drop_drop)

lemma list_ex_member_iff: "list_ex P xs \<longleftrightarrow> (\<exists>x \<in> set xs. P x)"
  by (induction xs) auto

lemma distinct_filter_notin: "distinct xs \<Longrightarrow> x \<notin> set (filter (\<lambda>y. y \<noteq> x) xs)"
  by simp

lemma sum_list_subset_distinct:
  assumes "distinct xs" "set xs \<subseteq> set ys"
  shows "sum_list (map f xs) \<le> sum_list (map (f :: 'a \<Rightarrow> nat) ys)"
  using assms
proof (induction ys arbitrary: xs)
  case (Cons y ys)
  show ?case
  proof (cases "y \<in> set xs")
    case True
    have "sum_list (map f (remove1 y xs)) \<le> sum_list (map f ys)"
      using Cons.prems by (intro Cons.IH) auto
    then show ?thesis using sum_list_map_remove1 [OF True, of f] by simp
  next
    case False
    then have "sum_list (map f xs) \<le> sum_list (map f ys)" using Cons.prems by (intro Cons.IH) auto
    then show ?thesis by simp
  qed
qed simp

lemma sorted_wrt_filter_keep: "sorted_wrt R xs \<Longrightarrow> sorted_wrt R (filter P xs)"
  by (induction xs) auto

lemma unat_word_of_nat_small:
  assumes "n < 2 ^ LENGTH('a)"
  shows "unat (word_of_nat n :: 'a::len word) = n"
  using assms by (simp add: unat_of_nat take_bit_nat_eq_self)

end
