(* ===== verification/Std_Library.thy ===== *)
theory Std_Library
  imports P2P_Prelude "HOL-Library.Multiset" "HOL-Library.Char_ord" "HOL-Library.List_Lexorder"
begin

text \<open>
  What the program uses of the C++ standard library: \<open>std::list::sort\<close> with a comparator,
  decimal output of integers (\<open>operator<<\<close>), \<open>std::stoi\<close>, \<open>std::setw\<close> with left alignment, and
  the conversion of a character array to \<open>std::string\<close>, which stops at the first NUL.
\<close>

section \<open>Sorting with a comparator\<close>

text \<open>
  \<open>std::list::sort(comp)\<close> is a stable sort by the comparator \<open>comp\<close>, which must be a strict
  weak ordering.  The model is an insertion sort; \<open>cpp_sort_unique\<close> below shows that for a
  total order every sorting algorithm gives the same list.
\<close>

fun cpp_insert :: "('a \<Rightarrow> 'a \<Rightarrow> bool) \<Rightarrow> 'a \<Rightarrow> 'a list \<Rightarrow> 'a list" where
  "cpp_insert lt x [] = [x]"
| "cpp_insert lt x (y # ys) = (if lt y x then y # cpp_insert lt x ys else x # y # ys)"

fun cpp_sort :: "('a \<Rightarrow> 'a \<Rightarrow> bool) \<Rightarrow> 'a list \<Rightarrow> 'a list" where
  "cpp_sort lt [] = []"
| "cpp_sort lt (x # xs) = cpp_insert lt x (cpp_sort lt xs)"

lemma mset_cpp_insert [simp]: "mset (cpp_insert lt x xs) = add_mset x (mset xs)"
  by (induction xs) auto

lemma mset_cpp_sort [simp]: "mset (cpp_sort lt xs) = mset xs"
  by (induction xs) auto

lemma set_cpp_insert [simp]: "set (cpp_insert lt x xs) = insert x (set xs)"
  by (induction xs) auto

lemma set_cpp_sort [simp]: "set (cpp_sort lt xs) = set xs"
  by (induction xs) auto

lemma length_cpp_sort [simp]: "length (cpp_sort lt xs) = length xs"
  by (metis mset_cpp_sort size_mset)

lemma distinct_cpp_sort [simp]: "distinct (cpp_sort lt xs) = distinct xs"
  by (metis mset_cpp_sort mset_eq_imp_distinct_iff)

text \<open>The contract of a comparator, as the standard states it (strict weak ordering).\<close>

locale strict_weak_order =
  fixes lt :: "'a \<Rightarrow> 'a \<Rightarrow> bool"
  assumes irrefl: "\<not> lt x x"
    and trans: "lt x y \<Longrightarrow> lt y z \<Longrightarrow> lt x z"
    and incomp_trans: "\<not> lt x y \<Longrightarrow> \<not> lt y z \<Longrightarrow> \<not> lt x z"
begin

lemma asym: "lt x y \<Longrightarrow> \<not> lt y x"
  using irrefl trans by blast

lemma sorted_cpp_insert:
  "sorted_wrt (\<lambda>x y. \<not> lt y x) xs \<Longrightarrow> sorted_wrt (\<lambda>x y. \<not> lt y x) (cpp_insert lt x xs)"
proof (induction xs)
  case Nil
  then show ?case by simp
next
  case (Cons y ys)
  show ?case
  proof (cases "lt y x")
    case True
    with Cons show ?thesis by (auto dest: asym)
  next
    case False
    have "\<not> lt z x" if "z \<in> set ys" for z
      using incomp_trans [of z y x] False Cons.prems that by simp
    with Cons.prems False show ?thesis by simp
  qed
qed

lemma sorted_cpp_sort: "sorted_wrt (\<lambda>x y. \<not> lt y x) (cpp_sort lt xs)"
  by (induction xs) (auto simp: sorted_cpp_insert)

lemma cpp_insert_stable:
  "sorted_wrt (\<lambda>x y. \<not> lt y x) xs \<Longrightarrow>
     filter (\<lambda>y. \<not> lt y z \<and> \<not> lt z y) (cpp_insert lt x xs) =
     filter (\<lambda>y. \<not> lt y z \<and> \<not> lt z y) (x # xs)"
proof (induction xs)
  case Nil
  then show ?case by simp
next
  case (Cons y ys)
  show ?case
  proof (cases "lt y x")
    case True
    then have "\<not> (\<not> lt y z \<and> \<not> lt z x)" using incomp_trans [of y z x] by blast
    with Cons True show ?thesis by auto
  next
    case False
    then show ?thesis by simp
  qed
qed

text \<open>Equivalent elements keep the order they had before the sort.\<close>

lemma cpp_sort_stable:
  "filter (\<lambda>y. \<not> lt y z \<and> \<not> lt z y) (cpp_sort lt xs) = filter (\<lambda>y. \<not> lt y z \<and> \<not> lt z y) xs"
proof (induction xs)
  case Nil
  then show ?case by simp
next
  case (Cons x xs)
  have "filter (\<lambda>y. \<not> lt y z \<and> \<not> lt z y) (cpp_sort lt (x # xs)) =
        filter (\<lambda>y. \<not> lt y z \<and> \<not> lt z y) (x # cpp_sort lt xs)"
    using cpp_insert_stable [OF sorted_cpp_sort] by simp
  with Cons.IH show ?case by simp
qed

end

text \<open>A comparator that tells any two different elements apart.\<close>

locale strict_total_order = strict_weak_order +
  assumes total: "lt x y \<or> x = y \<or> lt y x"
begin

lemma sorted_distinct_strict:
  "sorted_wrt (\<lambda>x y. \<not> lt y x) xs \<Longrightarrow> distinct xs \<Longrightarrow> sorted_wrt lt xs"
proof (induction xs)
  case Nil
  then show ?case by simp
next
  case (Cons x xs)
  then show ?case using total by (auto; metis)
qed

lemma sorted_strict_distinct: "sorted_wrt lt xs \<Longrightarrow> distinct xs"
  by (induction xs) (auto simp: irrefl)

lemma cpp_sort_strict: "distinct xs \<Longrightarrow> sorted_wrt lt (cpp_sort lt xs)"
  by (simp add: sorted_distinct_strict sorted_cpp_sort)

text \<open>The sorted list is determined by its elements: the algorithm does not matter.\<close>

lemma sorted_unique:
  assumes "sorted_wrt (\<lambda>x y. \<not> lt y x) xs" and "sorted_wrt (\<lambda>x y. \<not> lt y x) ys"
    and "mset xs = mset ys"
  shows "xs = ys"
  using assms
proof (induction xs arbitrary: ys)
  case Nil
  then show ?case by simp
next
  case (Cons x xs)
  then obtain y ys' where ys: "ys = y # ys'" by (cases ys) auto
  have "x \<in> set ys" "y \<in> set (x # xs)"
    using Cons.prems(3) ys by (metis list.set_intros(1) set_mset_mset)+
  then have "\<not> lt x y" "\<not> lt y x" using Cons.prems(1,2) ys irrefl by auto
  then have "x = y" using total by blast
  with Cons ys show ?case by simp
qed

lemma cpp_sort_unique:
  "sorted_wrt (\<lambda>x y. \<not> lt y x) ys \<Longrightarrow> mset ys = mset xs \<Longrightarrow> ys = cpp_sort lt xs"
  by (rule sorted_unique) (auto simp: sorted_cpp_sort)

lemma cpp_sort_id: "sorted_wrt lt xs \<Longrightarrow> cpp_sort lt xs = xs"
proof -
  assume "sorted_wrt lt xs"
  then have "sorted_wrt (\<lambda>x y. \<not> lt y x) xs"
    by (rule sorted_wrt_mono_rel [rotated]) (simp add: asym)
  then show ?thesis by (metis cpp_sort_unique)
qed

end

section \<open>Decimal numbers\<close>

definition digit_char :: "nat \<Rightarrow> char" where
  "digit_char n = char_of (48 + n)"

definition is_digit :: "char \<Rightarrow> bool" where
  "is_digit c \<longleftrightarrow> 48 \<le> (of_char c :: nat) \<and> (of_char c :: nat) \<le> 57"

definition digit_val :: "char \<Rightarrow> nat" where
  "digit_val c = of_char c - 48"

fun dec_nat :: "nat \<Rightarrow> string" where
  "dec_nat n = (if n < 10 then [digit_char n] else dec_nat (n div 10) @ [digit_char (n mod 10)])"

declare dec_nat.simps [simp del]

text \<open>Output of an \<open>int\<close> through \<open>operator<<\<close>.\<close>

definition dec_int :: "int \<Rightarrow> string" where
  "dec_int i = (if i < 0 then CHR ''-'' # dec_nat (nat (- i)) else dec_nat (nat i))"

definition digits_val :: "string \<Rightarrow> nat" where
  "digits_val s = foldl (\<lambda>a c. 10 * a + digit_val c) 0 s"

lemma digits_val_snoc [simp]: "digits_val (s @ [c]) = 10 * digits_val s + digit_val c"
  by (simp add: digits_val_def)

lemma digits_val_Nil [simp]: "digits_val [] = 0"
  by (simp add: digits_val_def)

lemma is_digit_digit_char [simp]: "n < 10 \<Longrightarrow> is_digit (digit_char n)"
  by (simp add: is_digit_def digit_char_def)

lemma digit_val_digit_char [simp]: "n < 10 \<Longrightarrow> digit_val (digit_char n) = n"
  by (simp add: digit_val_def digit_char_def)

lemma dec_nat_nonempty [simp]: "dec_nat n \<noteq> []"
  by (subst dec_nat.simps) simp

lemma dec_nat_digits: "c \<in> set (dec_nat n) \<Longrightarrow> is_digit c"
proof (induction n arbitrary: c rule: dec_nat.induct)
  case (1 n)
  then show ?case by (subst (asm) (2) dec_nat.simps) (auto split: if_splits)
qed

lemma digits_val_dec_nat [simp]: "digits_val (dec_nat n) = n"
proof (induction n rule: dec_nat.induct)
  case (1 n)
  then show ?case
    using digits_val_snoc [of "[]"] by (subst dec_nat.simps) auto
qed

lemma dec_nat_inj: "dec_nat m = dec_nat n \<Longrightarrow> m = n"
  by (metis digits_val_dec_nat)

section \<open>std::stoi\<close>

definition is_space :: "char \<Rightarrow> bool" where
  "is_space c \<longleftrightarrow> (of_char c :: nat) \<in> {9, 10, 11, 12, 13, 32}"

text \<open>
  Leading white space, an optional sign, then as many digits as follow; the rest of the string
  is ignored.  No digit at all is \<open>std::invalid_argument\<close>, a value that does not fit a 32-bit
  \<open>int\<close> is \<open>std::out_of_range\<close>.
\<close>

definition stoi_sign :: "string \<Rightarrow> bool \<times> string" where
  "stoi_sign s =
     (case s of [] \<Rightarrow> (False, [])
      | c # cs \<Rightarrow> if c = CHR ''-'' then (True, cs) else if c = CHR ''+'' then (False, cs)
                 else (False, s))"

definition stoi :: "string \<Rightarrow> u32 result" where
  "stoi s =
     (let (neg, rest) = stoi_sign (dropWhile is_space s);
          ds = takeWhile is_digit rest;
          v = (if neg then - int (digits_val ds) else int (digits_val ds))
      in if ds = [] then Inl (Throws Std_invalid_argument)
         else if v < - (2 ^ 31) \<or> 2 ^ 31 \<le> v then Inl (Throws Std_out_of_range)
         else Inr (word_of_int v))"

lemma digit_not_space: "is_digit c \<Longrightarrow> \<not> is_space c"
  by (auto simp: is_digit_def is_space_def)

lemma digit_not_sign: "is_digit c \<Longrightarrow> c \<noteq> CHR ''-'' \<and> c \<noteq> CHR ''+''"
  by (auto simp: is_digit_def)

lemma stoi_digits:
  assumes "ds \<noteq> []" and "\<forall>c \<in> set ds. is_digit c"
  shows "stoi ds =
    (if 2 ^ 31 \<le> digits_val ds then Inl (Throws Std_out_of_range) else Inr (of_nat (digits_val ds)))"
proof -
  obtain c cs where ds: "ds = c # cs" using assms(1) by (cases ds) auto
  have dw: "dropWhile is_space ds = ds" and sg: "stoi_sign ds = (False, ds)"
    using assms(2) ds digit_not_space digit_not_sign by (auto simp: stoi_sign_def)
  have tw: "takeWhile is_digit ds = ds" using assms(2) by (simp add: takeWhile_eq_all_conv)
  show ?thesis using assms(1) by (simp add: stoi_def Let_def dw sg tw)
qed

lemma stoi_dec_nat: "n < 2 ^ 31 \<Longrightarrow> stoi (dec_nat n) = Inr (of_nat n)"
  by (subst stoi_digits) (auto simp: dec_nat_digits)

section \<open>Output formatting and C strings\<close>

text \<open>\<open>std::setw(n)\<close> after \<open>std::left\<close>: pad on the right with spaces.\<close>

definition setw_left :: "nat \<Rightarrow> string \<Rightarrow> string" where
  "setw_left n s = s @ replicate (n - length s) CHR '' ''"

lemma length_setw_left: "length (setw_left n s) = max n (length s)"
  by (simp add: setw_left_def)

text \<open>
  \<open>std::string(const char*)\<close> and \<open>%s\<close> stop at the first NUL.  The arrays the program converts
  always have a NUL written after their last byte.
\<close>

definition nul :: char where "nul = CHR 0x00"

definition c_string :: "string \<Rightarrow> string" where
  "c_string s = takeWhile (\<lambda>c. c \<noteq> nul) s"

lemma c_string_id: "nul \<notin> set s \<Longrightarrow> c_string s = s"
  by (auto simp: c_string_def takeWhile_eq_all_conv)

lemma c_string_same: "c_string s = s \<longleftrightarrow> nul \<notin> set s"
  by (auto simp: c_string_def takeWhile_eq_all_conv)

lemma c_string_no_nul [simp]: "nul \<notin> set (c_string s)"
  by (auto simp: c_string_def dest: set_takeWhileD)

lemma length_c_string_le: "length (c_string s) \<le> length s"
  by (simp add: c_string_def length_takeWhile_le)

end
