(* ===== verification/Bytes.thy ===== *)
theory Bytes
  imports Std_Library
begin

text \<open>
  Bytes, byte order and the buffers the messages are written to and read from.

  The program runs on a little-endian host: \<open>memcpy\<close> between an \<open>int\<close> and a buffer is
  \<open>store32\<close> and \<open>load32\<close>, and \<open>htonl\<close> / \<open>ntohl\<close> reverse the bytes.  A buffer is the list of
  its bytes.  A \<open>memcpy\<close> that leaves the buffer is undefined behaviour, so every read and write
  below carries its bound check.  A buffer from \<open>new\<close> (or an array on the stack) starts with
  bytes nobody chose: they are the argument \<open>g\<close> of \<open>fresh_bytes\<close>, and the theorems hold for
  every such \<open>g\<close>.  Positions are \<open>unsigned int\<close>, so they are 32-bit words and wrap.
\<close>

unbundle bit_operations_syntax

section \<open>Integers in memory\<close>

definition store32 :: "u32 \<Rightarrow> byte list" where
  "store32 w = [ucast w, ucast (drop_bit 8 w), ucast (drop_bit 16 w), ucast (drop_bit 24 w)]"

fun load32 :: "byte list \<Rightarrow> u32" where
  "load32 [b0, b1, b2, b3] =
     ucast b0 OR push_bit 8 (ucast b1) OR push_bit 16 (ucast b2) OR push_bit 24 (ucast b3)"
| "load32 _ = 0"

definition store16 :: "u16 \<Rightarrow> byte list" where
  "store16 w = [ucast w, ucast (drop_bit 8 w)]"

fun load16 :: "byte list \<Rightarrow> u16" where
  "load16 [b0, b1] = ucast b0 OR push_bit 8 (ucast b1)"
| "load16 _ = 0"

text \<open>\<open>htonl\<close>, \<open>ntohl\<close>, \<open>htons\<close>, \<open>ntohs\<close> of a little-endian host.\<close>

definition htonl :: "u32 \<Rightarrow> u32" where "htonl w = load32 (rev (store32 w))"
definition ntohl :: "u32 \<Rightarrow> u32" where "ntohl w = load32 (rev (store32 w))"
definition htons :: "u16 \<Rightarrow> u16" where "htons w = load16 (rev (store16 w))"
definition ntohs :: "u16 \<Rightarrow> u16" where "ntohs w = load16 (rev (store16 w))"

lemma load32_store32 [simp]: "load32 (store32 w) = w"
proof (rule bit_word_eqI)
  fix n assume "n < LENGTH(32)"
  then consider "n < 8" | "8 \<le> n \<and> n < 16" | "16 \<le> n \<and> n < 24" | "24 \<le> n \<and> n < 32"
    by fastforce
  then show "bit (load32 (store32 w)) n = bit w n"
    by cases (auto simp: store32_def bit_simps)
qed

lemma store32_load32:
  assumes "length bs = 4"
  shows "store32 (load32 bs) = bs"
proof -
  obtain a b c d where "bs = [a, b, c, d]"
    using assms by (auto simp: length_Suc_conv eval_nat_numeral)
  then show ?thesis
    by (simp add: store32_def)
       (intro conjI bit_word_eqI; auto simp: bit_simps dest: bit_imp_le_length)
qed

lemma load16_store16 [simp]: "load16 (store16 w) = w"
  unfolding store16_def by (rule bit_word_eqI) (auto simp: bit_simps)

lemma store16_load16:
  assumes "length bs = 2"
  shows "store16 (load16 bs) = bs"
proof -
  obtain a b where "bs = [a, b]"
    using assms by (auto simp: length_Suc_conv eval_nat_numeral)
  then show ?thesis
    by (simp add: store16_def)
       (intro conjI bit_word_eqI; auto simp: bit_simps dest: bit_imp_le_length)
qed

lemma length_store32 [simp, codec_simps]: "length (store32 w) = 4"
  by (simp add: store32_def)

lemma length_store16 [simp, codec_simps]: "length (store16 w) = 2"
  by (simp add: store16_def)

lemma ntohl_htonl [simp]: "ntohl (htonl w) = w"
  by (simp add: ntohl_def htonl_def store32_load32)

lemma htonl_ntohl [simp]: "htonl (ntohl w) = w"
  by (simp add: ntohl_def htonl_def store32_load32)

lemma ntohs_htons [simp]: "ntohs (htons w) = w"
  by (simp add: ntohs_def htons_def store16_load16)

text \<open>The bytes of an \<open>int\<close> and of a \<open>short\<close> on the wire: most significant first.\<close>

definition wire32 :: "u32 \<Rightarrow> byte list" where "wire32 w = store32 (htonl w)"
definition wire16 :: "u16 \<Rightarrow> byte list" where "wire16 w = store16 (htons w)"

lemma wire32_rev: "wire32 w = rev (store32 w)"
  by (simp add: wire32_def htonl_def store32_load32)

lemma length_wire32 [simp, codec_simps]: "length (wire32 w) = 4"
  by (simp add: wire32_def)

lemma length_wire16 [simp, codec_simps]: "length (wire16 w) = 2"
  by (simp add: wire16_def)

lemma ntohl_load32_wire32 [simp, codec_simps]: "ntohl (load32 (wire32 w)) = w"
  by (simp add: wire32_def)

lemma ntohs_load16_wire16 [simp, codec_simps]: "ntohs (load16 (wire16 w)) = w"
  by (simp add: wire16_def)

lemma wire32_inj [simp]: "wire32 v = wire32 w \<longleftrightarrow> v = w"
  by (metis ntohl_load32_wire32)

section \<open>Characters and bytes\<close>

definition string_bytes :: "string \<Rightarrow> byte list" where
  "string_bytes s = map (\<lambda>c. of_char c) s"

definition bytes_string :: "byte list \<Rightarrow> string" where
  "bytes_string bs = map (\<lambda>b. char_of (unat b)) bs"

lemma length_string_bytes [simp, codec_simps]: "length (string_bytes s) = length s"
  by (simp add: string_bytes_def)

lemma length_bytes_string [simp]: "length (bytes_string bs) = length bs"
  by (simp add: bytes_string_def)

lemma unat_of_char: "unat (of_char c :: byte) = of_char c"
proof -
  have "unat (of_nat (of_char c) :: byte) = of_char c"
    by (rule unat_word_of_nat_small) (use nat_of_char_less_256 [of c] in simp)
  then show ?thesis by (simp add: of_nat_of_char)
qed

lemma bytes_string_bytes [simp, codec_simps]: "bytes_string (string_bytes s) = s"
  by (induction s) (simp_all add: bytes_string_def string_bytes_def unat_of_char)

lemma string_bytes_Nil [simp]: "string_bytes [] = []"
  by (simp add: string_bytes_def)

section \<open>Buffers\<close>

text \<open>A pointer to a message buffer, as \<open>to_bytes\<close> returns it: \<open>nullptr\<close> or a fresh array.\<close>

datatype bytes_ptr = Null | Bytes "byte list"

definition fresh_bytes :: "(nat \<Rightarrow> byte) \<Rightarrow> nat \<Rightarrow> byte list" where
  "fresh_bytes g n = map g [0..<n]"

lemma length_fresh_bytes [simp]: "length (fresh_bytes g n) = n"
  by (simp add: fresh_bytes_def)

text \<open>\<open>memcpy(buf + pos, src, len)\<close> and \<open>memcpy(dst, buf + pos, len)\<close>.\<close>

definition memcpy_to :: "byte list \<Rightarrow> u32 \<Rightarrow> byte list \<Rightarrow> byte list result" where
  "memcpy_to buf pos src =
     (if unat pos + length src \<le> length buf
      then Inr (take (unat pos) buf @ src @ drop (unat pos + length src) buf)
      else Inl Undefined_Behaviour)"

definition memcpy_from :: "byte list \<Rightarrow> u32 \<Rightarrow> nat \<Rightarrow> byte list result" where
  "memcpy_from buf pos len =
     (if unat pos + len \<le> length buf then Inr (take len (drop (unat pos) buf))
      else Inl Undefined_Behaviour)"

text \<open>
  \<open>len + 1\<close> on a signed \<open>int\<close> (overflow is undefined), the sizes that \<open>new char[n]\<close> and the
  variable-length array \<open>char a[n]\<close> accept (for a signed and for an unsigned \<open>n\<close>; how much
  stack there is is not modelled), and the conversion of an \<open>int\<close> to \<open>memcpy\<close>'s \<open>size_t\<close>.
\<close>

definition int_inc :: "u32 \<Rightarrow> u32 result" where
  "int_inc n = (if sint n = 2 ^ 31 - 1 then Inl Undefined_Behaviour else Inr (n + 1))"

definition new_array :: "u32 \<Rightarrow> nat result" where
  "new_array n = (if sint n < 0 then Inl (Throws Std_bad_array_new_length) else Inr (nat (sint n)))"

definition vla_int :: "u32 \<Rightarrow> nat result" where
  "vla_int n = (if sint n \<le> 0 then Inl Undefined_Behaviour else Inr (nat (sint n)))"

definition vla_unsigned :: "u32 \<Rightarrow> nat result" where
  "vla_unsigned n = (if n = 0 then Inl Undefined_Behaviour else Inr (unat n))"

definition size_of_int :: "u32 \<Rightarrow> nat" where
  "size_of_int n = unat (scast n :: u64)"

text \<open>\<open>std::string::length()\<close> converted to a 32-bit integer.\<close>

definition ulen :: "'a list \<Rightarrow> u32" where
  "ulen s = of_nat (length s)"

lemma unat32_of_nat: "n < 2 ^ 32 \<Longrightarrow> unat (of_nat n :: u32) = n"
  by (simp add: unat_word_of_nat_small)

lemma unat_ulen: "length s < 2 ^ 32 \<Longrightarrow> unat (ulen s) = length s"
  by (simp add: ulen_def unat_word_of_nat_small)

lemma sint_nonneg_small:
  assumes "n < 2 ^ 31" shows "sint (of_nat n :: u32) = int n"
proof -
  have "sint (of_nat n :: u32) = signed_take_bit 31 (int n)"
    by (simp add: signed_of_nat)
  also have "\<dots> = int n"
    using assms by (intro signed_take_bit_int_eq_self) auto
  finally show ?thesis .
qed

lemma size_of_int_small: "n < 2 ^ 31 \<Longrightarrow> size_of_int (of_nat n) = n"
proof -
  assume n: "n < 2 ^ 31"
  have "(scast (of_nat n :: u32) :: u64) = word_of_int (sint (of_nat n :: u32))"
    by simp
  also have "\<dots> = of_nat n" using n by (simp only: sint_nonneg_small of_int_of_nat_eq)
  finally show ?thesis using n by (simp add: size_of_int_def unat_word_of_nat_small)
qed

text \<open>A length below \<open>2 ^ 31 - 1\<close> passes every one of these steps unchanged.\<close>

lemma length_steps:
  assumes "length s + 1 < 2 ^ 31"
  shows "sint (ulen s) = int (length s)" and "size_of_int (ulen s) = length s"
    and "int_inc (ulen s) = Inr (ulen s + 1)" and "new_array (ulen s + 1) = Inr (length s + 1)"
    and "vla_int (ulen s + 1) = Inr (length s + 1)"
    and "vla_unsigned (ulen s + 1) = Inr (length s + 1)" and "unat (ulen s) = length s"
proof -
  have eq: "ulen s + 1 = of_nat (length s + 1)" by (simp add: ulen_def)
  have s1: "sint (of_nat (length s + 1) :: u32) = int (length s + 1)"
    using assms by (rule sint_nonneg_small)
  show s0: "sint (ulen s) = int (length s)" and "size_of_int (ulen s) = length s"
    using assms by (simp_all add: ulen_def sint_nonneg_small size_of_int_small)
  then show "int_inc (ulen s) = Inr (ulen s + 1)"
    using assms by (simp add: int_inc_def)
  show "new_array (ulen s + 1) = Inr (length s + 1)" "vla_int (ulen s + 1) = Inr (length s + 1)"
    by (simp_all only: new_array_def vla_int_def eq s1) simp_all
  have u1: "unat (of_nat (length s + 1) :: u32) = length s + 1"
    using assms by (intro unat32_of_nat) simp
  then have "(of_nat (length s + 1) :: u32) \<noteq> 0" by (metis Suc_eq_plus1 nat.distinct(1) unat_0)
  then show "vla_unsigned (ulen s + 1) = Inr (length s + 1)"
    unfolding vla_unsigned_def eq using u1 by simp
  show "unat (ulen s) = length s" using assms by (intro unat_ulen) simp
qed

section \<open>Reading and writing at a cursor\<close>

text \<open>
  The encoders write a buffer from left to right and the decoders read one from left to right.
  With the part already done in front, every step is an append (a write) or a look at the front
  of the rest (a read).  The bound \<open>2 ^ 32\<close> is what keeps the \<open>unsigned\<close> position from wrapping.
\<close>

lemma unat_pos_add:
  assumes "unat pos + n < 2 ^ 32"
  shows "unat (pos + of_nat n :: u32) = unat pos + n"
proof -
  have "unat (of_nat n :: u32) = n" using assms by (intro unat_word_of_nat_small) simp
  with assms show ?thesis by (subst unat_add_lem [THEN iffD1]) simp_all
qed

lemma unat_pos_add4: "unat pos + 4 < 2 ^ 32 \<Longrightarrow> unat (pos + 4 :: u32) = unat pos + 4"
  using unat_pos_add [of pos 4] by simp

lemma unat_pos_add8: "unat pos + 8 < 2 ^ 32 \<Longrightarrow> unat (pos + 8 :: u32) = unat pos + 8"
  using unat_pos_add [of pos 8] by simp

lemma memcpy_to_at:
  "unat pos = length done \<Longrightarrow> length src \<le> length rest \<Longrightarrow>
     memcpy_to (done @ rest) pos src = Inr (done @ src @ drop (length src) rest)"
  by (simp add: memcpy_to_def)

lemma memcpy_from_at:
  "unat pos = length done \<Longrightarrow> length src = n \<Longrightarrow>
     memcpy_from (done @ src @ rest) pos n = Inr src"
  by (simp add: memcpy_from_def)

text \<open>A write that fills a fresh buffer, and reads at its start.\<close>

lemma memcpy_to_all [codec_simps]:
  "length src = n \<Longrightarrow> memcpy_to (fresh_bytes g n) 0 src = Inr src"
  by (simp add: memcpy_to_def)

lemma memcpy_from_front [codec_simps]:
  "length src = n \<Longrightarrow> memcpy_from (src @ rest) 0 n = Inr src"
  by (simp add: memcpy_from_def)

lemma memcpy_from_all [codec_simps]: "length src = n \<Longrightarrow> memcpy_from src 0 n = Inr src"
  by (simp add: memcpy_from_def)

lemma memcpy_to_length: "memcpy_to buf pos src = Inr buf' \<Longrightarrow> length buf' = length buf"
  by (auto simp: memcpy_to_def split: if_splits)

lemma memcpy_from_length: "memcpy_from buf pos n = Inr bs \<Longrightarrow> length bs = n"
  by (auto simp: memcpy_from_def split: if_splits)

lemma memcpy_from_outside:
  "memcpy_from buf pos n = Inl e \<longleftrightarrow> e = Undefined_Behaviour \<and> length buf < unat pos + n"
  by (auto simp: memcpy_from_def)

end
