(* ===== verification/Sockets.thy ===== *)
theory Sockets
  imports Bytes
begin

text \<open>
  \<open>ClientSocket\<close> and \<open>ServerSocket\<close> (\<open>src/client_socket.cpp\<close>, \<open>src/server_socket.cpp\<close>) over the
  kernel's socket calls.

  The kernel is not part of the program.  Its answers are an input of the model: \<open>rx\<close> is the list
  of what successive \<open>recv\<close> calls find (data that arrived, or an error), \<open>txq\<close> the list of what
  successive \<open>send\<close> calls meet (room for so many bytes, or an error).  When \<open>rx\<close> is used up the
  peer has closed the connection and \<open>recv\<close> returns 0; when \<open>txq\<close> is used up \<open>send\<close> accepts
  everything.  As documented, both calls return -1 on an error and otherwise a count between 0 and
  the length asked for, at most \<open>0x7ffff000\<close> (so the conversion of the count to \<open>int\<close> is exact).

  When \<open>rx\<close> is used up the other side has ended its direction of the connection.  \<open>peer_end\<close> says whether
  it still takes data: \<open>Stays\<close> if so; \<open>Leaving n\<close> if it has closed the connection altogether, which its
  kernel makes known after the end has been read (\<open>Gone n\<close>) and \<open>n\<close> further calls of \<open>send\<close>: the next
  one raises SIGPIPE.  The program neither ignores nor handles this signal, so the process ends;
  \<open>killed\<close> records it, and the operations of \<open>Socket_Interface\<close> give it as their result.

  The loops keep their counts in \<open>size_t\<close>, as the code does: adding the -1 of a failed call to the
  count wraps around at 0.
\<close>

section \<open>The kernel\<close>

datatype rx_event = Arrived "byte list" | RxError
datatype tx_event = Accepts nat | TxError

datatype peer_end = Stays | Leaving nat | Gone nat

record kern =
  rx :: "rx_event list"
  txq :: "tx_event list"
  sent :: "byte list"
  fd_open :: bool
  peer_end :: peer_end
  killed :: bool

fun end_seen :: "peer_end \<Rightarrow> peer_end" where
  "end_seen (Leaving n) = Gone n"
| "end_seen e = e"

fun end_sent :: "peer_end \<Rightarrow> peer_end" where
  "end_sent (Gone n) = Gone (n - 1)"
| "end_sent e = e"

definition gone :: "kern \<Rightarrow> bool" where
  "gone k \<longleftrightarrow> (\<exists>n. peer_end k = Gone n)"

lemma gone_updates [simp]:
  "gone (k\<lparr>sent := x\<rparr>) = gone k" "gone (k\<lparr>txq := q\<rparr>) = gone k" "gone (k\<lparr>rx := es\<rparr>) = gone k"
  by (simp_all add: gone_def)

lemma gone_Leaving [simp]: "\<not> gone (k\<lparr>peer_end := Leaving n\<rparr>)"
  by (simp add: gone_def)

lemma end_sent_same [simp]: "\<not> gone k \<Longrightarrow> end_sent (peer_end k) = peer_end k"
  by (cases "peer_end k") (simp_all add: gone_def)

definition MAX_RW :: nat where "MAX_RW = 0x7ffff000"

definition sys_recv :: "nat \<Rightarrow> kern \<Rightarrow> int \<times> byte list \<times> kern" where
  "sys_recv n k =
     (if \<not> fd_open k then (-1, [], k)
      else case rx k of
          [] \<Rightarrow> (0, [], k\<lparr>peer_end := end_seen (peer_end k)\<rparr>)
        | RxError # es \<Rightarrow> (-1, [], k\<lparr>rx := es\<rparr>)
        | Arrived bs # es \<Rightarrow>
            let d = take (min n MAX_RW) bs; rest = drop (length d) bs
            in (int (length d), d, k\<lparr>rx := (if rest = [] then es else Arrived rest # es)\<rparr>))"

definition sys_send :: "byte list \<Rightarrow> kern \<Rightarrow> int \<times> kern" where
  "sys_send bs k =
     (if \<not> fd_open k then (-1, k)
      else if peer_end k = Gone 0 then (-1, k\<lparr>killed := True\<rparr>)
      else
        let k = k\<lparr>peer_end := end_sent (peer_end k)\<rparr>
        in case txq k of
          [] \<Rightarrow> let m = min (length bs) MAX_RW in (int m, k\<lparr>sent := sent k @ take m bs\<rparr>)
        | TxError # es \<Rightarrow> (-1, k\<lparr>txq := es\<rparr>)
        | Accepts a # es \<Rightarrow>
            let m = min a (min (length bs) MAX_RW)
            in (int m, k\<lparr>sent := sent k @ take m bs, txq := es\<rparr>))"

lemma sys_recv_count:
  "sys_recv n k = (r, d, k') \<Longrightarrow> -1 \<le> r \<and> r \<le> int n \<and> (r \<noteq> -1 \<longrightarrow> r = int (length d))"
  by (auto simp: sys_recv_def Let_def split: if_splits list.splits rx_event.splits)

lemma sys_send_count: "sys_send bs k = (r, k') \<Longrightarrow> -1 \<le> r \<and> r \<le> int (length bs)"
  by (auto simp: sys_send_def Let_def split: if_splits list.splits tx_event.splits)

section \<open>The loops\<close>

text \<open>Writing \<open>d\<close> into \<open>buf\<close> from offset \<open>n\<close> on.\<close>

definition splice :: "byte list \<Rightarrow> nat \<Rightarrow> byte list \<Rightarrow> byte list" where
  "splice buf n d = take n buf @ d @ drop (n + length d) buf"

lemma splice_Nil [simp]: "splice buf n [] = buf"
  by (simp add: splice_def)

lemma unat64_less: "unat (w :: u64) < 2 ^ 64"
  using unsigned_less [of w, where ?'a = nat] by simp

lemma u64_diff:
  fixes c len :: u64
  assumes "c < len"
  shows "unat (len - c) = unat len - unat c" "unat c < unat len" "0 < unat (len - c)"
proof -
  show 1: "unat (len - c) = unat len - unat c" using assms by (simp add: unat_sub)
  show 2: "unat c < unat len" using assms by (simp add: word_less_nat_alt)
  from 1 2 show "0 < unat (len - c)" by simp
qed

lemma progress_no_wrap:
  fixes c len :: u64
  assumes "c < len" and "1 \<le> r" and "r \<le> int (unat (len - c))"
  shows "unat (c + word_of_int r) = unat c + nat r" and "unat c + nat r \<le> unat len"
proof -
  have le: "unat (len - c) = unat len - unat c"
    using assms(1) by (simp add: unat_sub)
  have "nat r \<le> unat len - unat c" using assms(3) le by (simp only: nat_le_iff)
  then show b: "unat c + nat r \<le> unat len"
    using assms(1) by (simp add: word_less_nat_alt)
  have r: "unat (word_of_int r :: u64) = nat r"
  proof -
    have "nat r < 2 ^ 64" using b unat64_less [of len] by simp
    moreover have "(word_of_int r :: u64) = of_nat (nat r)" using assms(2) by simp
    ultimately show ?thesis by (simp add: unat_word_of_nat_small)
  qed
  show "unat (c + word_of_int r) = unat c + nat r"
    using b r unat64_less [of len] by (subst unat_add_lem [THEN iffD1]) simp_all
qed

lemma progress_decreases:
  fixes c len :: u64
  assumes "c < len" and "1 \<le> r" and "r \<le> int (unat (len - c))"
  shows "unat (len - (c + word_of_int r)) < unat (len - c)"
proof -
  note p = progress_no_wrap [OF assms]
  then have "c + word_of_int r \<le> len" by (simp add: word_le_nat_alt)
  then have "unat (len - (c + word_of_int r)) = unat len - (unat c + nat r)"
    using p by (simp add: unat_sub)
  moreover have "unat (len - c) = unat len - unat c" using assms(1) by (simp add: unat_sub)
  ultimately show ?thesis using p assms(2) by simp
qed

text \<open>\<open>while (retries < 10 && sent < len)\<close>, in both classes.\<close>

function send_loop :: "byte list \<Rightarrow> u64 \<Rightarrow> nat \<Rightarrow> u64 \<Rightarrow> kern \<Rightarrow> nat \<times> u64 \<times> kern" where
  "send_loop d len retries snt k =
     (if retries < 10 \<and> snt < len then
        let (s, k') = sys_send (take (unat (len - snt)) (drop (unat snt) d)) k
        in send_loop d len (if s < 1 then retries + 1 else retries) (snt + word_of_int s) k'
      else (retries, snt, k))"
  by pat_completeness auto
termination
proof (relation "measures [\<lambda>(d, len, retries, snt, k). 10 - retries,
    \<lambda>(d, len, retries, snt, k). unat (len - snt)]", goal_cases)
  case 1
  show ?case by simp
next
  case (2 d len retries snt k x s k')
  have "sys_send (take (unat (len - snt)) (drop (unat snt) d)) k = (s, k')"
    using 2(2,3) by simp
  then have "s \<le> int (min (length (drop (unat snt) d)) (unat (len - snt)))"
    using sys_send_count by fastforce
  then have "s \<le> int (unat (len - snt))" by linarith
  with 2(1) show ?case
    by (cases "s < 1") (auto intro: progress_decreases)
qed

text \<open>\<open>while (retries < 10 && received < len)\<close> of \<open>ServerSocket::recv\<close>.\<close>

function recv_loop ::
    "u64 \<Rightarrow> nat \<Rightarrow> u64 \<Rightarrow> byte list \<Rightarrow> kern \<Rightarrow> nat \<times> u64 \<times> byte list \<times> kern" where
  "recv_loop len retries received buf k =
     (if retries < 10 \<and> received < len then
        let (r, d, k') = sys_recv (unat (len - received)) k
        in recv_loop len (if r < 1 then retries + 1 else retries) (received + word_of_int r)
             (splice buf (unat received) d) k'
      else (retries, received, buf, k))"
  by pat_completeness auto
termination
proof (relation "measures [\<lambda>(len, retries, received, buf, k). 10 - retries,
    \<lambda>(len, retries, received, buf, k). unat (len - received)]", goal_cases)
  case 1
  show ?case by simp
next
  case (2 len retries received buf k x r y d k')
  have "r \<le> int (unat (len - received))"
    using sys_recv_count [of "unat (len - received)" k r d k'] 2(2-4) by simp
  with 2(1) show ?case
    by (cases "r < 1") (auto intro: progress_decreases)
qed

text \<open>
  \<open>while (received < len)\<close> of \<open>ClientSocket::recv\<close>: the number of retries is counted but does not
  bound the loop.  \<open>None\<close>: the loop never ends.
\<close>

partial_function (option) client_recv_loop ::
    "u64 \<Rightarrow> nat \<Rightarrow> u64 \<Rightarrow> byte list \<Rightarrow> kern \<Rightarrow> (nat \<times> u64 \<times> byte list \<times> kern) option" where
  "client_recv_loop len retries received buf k =
     (if received < len then
        let (r, d, k') = sys_recv (unat (len - received)) k
        in client_recv_loop len (if r < 1 then retries + 1 else retries)
             (received + word_of_int r) (splice buf (unat received) d) k'
      else Some (retries, received, buf, k))"

declare send_loop.simps [simp del] recv_loop.simps [simp del]

section \<open>The classes\<close>

record ServerSocket =
  ss_connected :: bool
  ss_kern :: kern

definition ServerSocket_new :: "kern \<Rightarrow> ServerSocket" where
  "ServerSocket_new k = \<lparr>ss_connected = True, ss_kern = k\<rparr>"

text \<open>
  \<open>send\<close> and \<open>recv\<close> report a socket that is not connected on \<open>std::cerr\<close> and go on; the error
  stream is not modelled, so the report leaves no trace here.
\<close>

definition ServerSocket_send :: "byte list \<Rightarrow> ServerSocket \<Rightarrow> bool \<times> ServerSocket" where
  "ServerSocket_send data s =
     (let (retries, _, k) = send_loop data (of_nat (length data)) 0 0 (ss_kern s);
          s = s\<lparr>ss_kern := k\<rparr>
      in if retries = 10 then (False, s) else (True, s))"

definition ServerSocket_recv :: "byte list \<Rightarrow> ServerSocket \<Rightarrow> bool \<times> byte list \<times> ServerSocket" where
  "ServerSocket_recv buf s =
     (let (retries, _, buf, k) = recv_loop (of_nat (length buf)) 0 0 buf (ss_kern s);
          s = s\<lparr>ss_kern := k\<rparr>
      in if retries = 10 then (False, buf, s) else (True, buf, s))"

definition ServerSocket_is_connected :: "ServerSocket \<Rightarrow> bool" where
  "ServerSocket_is_connected s = ss_connected s"

definition ServerSocket_close :: "ServerSocket \<Rightarrow> ServerSocket" where
  "ServerSocket_close s =
     (if \<not> ss_connected s then s else s\<lparr>ss_kern := (ss_kern s)\<lparr>fd_open := False\<rparr>\<rparr>)"

text \<open>
  What the kernel answers to a client that opens a connection: the descriptor (as the \<open>unsigned\<close>
  that \<open>sock_fd\<close> is), the result of \<open>inet_pton\<close>, and the result of \<open>connect\<close> to an address and a
  port in network order together with the connection.
\<close>

record conn_env =
  ce_socket :: u32
  ce_pton :: "string \<Rightarrow> int"
  ce_connect :: "string \<Rightarrow> u16 \<Rightarrow> int \<times> kern"
  ce_close :: int

record ClientSocket =
  cs_connected :: bool
  cs_fd :: u32
  cs_addr :: string
  cs_port :: u16
  cs_kern :: kern

definition no_kern :: kern where
  "no_kern = \<lparr>rx = [], txq = [], sent = [], fd_open = False, peer_end = Stays, killed = False\<rparr>"

definition ClientSocket_new :: "string \<Rightarrow> u16 \<Rightarrow> ClientSocket" where
  "ClientSocket_new addr prt =
     \<lparr>cs_connected = False, cs_fd = 0, cs_addr = addr, cs_port = prt, cs_kern = no_kern\<rparr>"

text \<open>The comparison \<open>sock_fd < 0\<close> is one of unsigned integers.\<close>

definition ClientSocket_connect :: "conn_env \<Rightarrow> ClientSocket \<Rightarrow> ClientSocket" where
  "ClientSocket_connect env s =
     (if cs_connected s then s
      else
        let s = s\<lparr>cs_fd := ce_socket env\<rparr>
        in if cs_fd s < 0 then s
           else if ce_pton env (cs_addr s) \<le> 0 then s
           else
             let (r, k) = ce_connect env (cs_addr s) (htons (cs_port s))
             in if r < 0 then s else s\<lparr>cs_connected := True, cs_kern := k\<rparr>)"

definition ClientSocket_disconnect :: "conn_env \<Rightarrow> ClientSocket \<Rightarrow> ClientSocket" where
  "ClientSocket_disconnect env s =
     (if \<not> cs_connected s then s
      else if ce_close env < 0 then s
      else s\<lparr>cs_connected := False, cs_kern := (cs_kern s)\<lparr>fd_open := False\<rparr>\<rparr>)"

definition ClientSocket_is_connected :: "ClientSocket \<Rightarrow> bool" where
  "ClientSocket_is_connected s = cs_connected s"

definition ClientSocket_send :: "byte list \<Rightarrow> ClientSocket \<Rightarrow> bool \<times> ClientSocket" where
  "ClientSocket_send data s =
     (let (retries, _, k) = send_loop data (of_nat (length data)) 0 0 (cs_kern s);
          s = s\<lparr>cs_kern := k\<rparr>
      in if retries = 10 then (False, s) else (True, s))"

definition ClientSocket_recv ::
    "byte list \<Rightarrow> ClientSocket \<Rightarrow> (bool \<times> byte list \<times> ClientSocket) result" where
  "ClientSocket_recv buf s =
     (case client_recv_loop (of_nat (length buf)) 0 0 buf (cs_kern s) of
        None \<Rightarrow> Inl Diverges
      | Some (retries, _, buf, k) \<Rightarrow>
          let s = s\<lparr>cs_kern := k\<rparr>
          in if retries = 10 then Inr (False, buf, s) else Inr (True, buf, s))"

section \<open>Connections without errors\<close>

definition rx_bytes :: "rx_event list \<Rightarrow> byte list" where
  "rx_bytes es = concat (map (\<lambda>e. case e of Arrived b \<Rightarrow> b | RxError \<Rightarrow> []) es)"

definition rx_clean :: "rx_event list \<Rightarrow> bool" where
  "rx_clean es \<longleftrightarrow> list_all (\<lambda>e. case e of Arrived b \<Rightarrow> b \<noteq> [] | RxError \<Rightarrow> False) es"

definition tx_clean :: "tx_event list \<Rightarrow> bool" where
  "tx_clean es \<longleftrightarrow> list_all (\<lambda>e. case e of Accepts n \<Rightarrow> 0 < n | TxError \<Rightarrow> False) es"

lemma rx_bytes_simps [simp]:
  "rx_bytes [] = []" "rx_bytes (Arrived b # es) = b @ rx_bytes es"
  by (simp_all add: rx_bytes_def)

lemma rx_clean_simps [simp]:
  "rx_clean []" "rx_clean (Arrived b # es) \<longleftrightarrow> b \<noteq> [] \<and> rx_clean es" "\<not> rx_clean (RxError # es)"
  by (simp_all add: rx_clean_def)

lemma tx_clean_simps [simp]:
  "tx_clean []" "tx_clean (Accepts n # es) \<longleftrightarrow> 0 < n \<and> tx_clean es" "\<not> tx_clean (TxError # es)"
  by (simp_all add: tx_clean_def)

lemma sys_recv_prefix:
  assumes "fd_open k" "rx k = es1 @ q" "rx_clean es1" "0 < n" "rx_bytes es1 \<noteq> []"
  obtains d es where "sys_recv n k = (int (length d), d, k\<lparr>rx := es @ q\<rparr>)" "d \<noteq> []" "length d \<le> n"
    "rx_bytes es1 = d @ rx_bytes es" "rx_clean es"
proof -
  obtain bs es where rx: "es1 = Arrived bs # es" "bs \<noteq> []" "rx_clean es"
    using assms(3,5) by (cases es1) (auto split: rx_event.splits elim: rx_event.exhaust simp: rx_clean_def)
  define m where "m = min n MAX_RW"
  let ?d = "take m bs"
  let ?es = "if drop (length ?d) bs = [] then es else Arrived (drop (length ?d) bs) # es"
  have "0 < m" using assms(4) by (simp add: m_def MAX_RW_def)
  then have "?d \<noteq> []" using rx(2) by simp
  moreover have "sys_recv n k = (int (length ?d), ?d, k\<lparr>rx := ?es @ q\<rparr>)"
    using assms(1,2) rx(1) by (simp add: sys_recv_def Let_def m_def)
  moreover have "?d @ rx_bytes ?es = bs @ rx_bytes es"
    by (cases "length bs \<le> m") (simp_all add: min_def append_take_drop_id flip: append_assoc)
  moreover have "rx_clean ?es" using rx(3) by simp
  moreover have "length ?d \<le> n" by (simp add: m_def)
  ultimately show ?thesis using that [of ?d ?es] rx(1) by simp
qed

lemma sys_recv_clean:
  assumes "fd_open k" "rx_clean (rx k)" "0 < n" "rx_bytes (rx k) \<noteq> []"
  obtains d es where "sys_recv n k = (int (length d), d, k\<lparr>rx := es\<rparr>)" "d \<noteq> []" "length d \<le> n"
    "rx_bytes (rx k) = d @ rx_bytes es" "rx_clean es"
  using sys_recv_prefix [of k "rx k" "[]" n] assms by auto

lemma sys_recv_closed:
  "fd_open k \<Longrightarrow> rx k = [] \<Longrightarrow> sys_recv n k = (0, [], k\<lparr>peer_end := end_seen (peer_end k)\<rparr>)"
  by (simp add: sys_recv_def)

lemma not_gone_zero [simp]: "\<not> gone k \<Longrightarrow> peer_end k \<noteq> Gone n"
  by (simp add: gone_def)

lemma rx_bytes_Nil_clean: "rx_clean es \<Longrightarrow> rx_bytes es = [] \<Longrightarrow> es = []"
  by (cases es) (auto simp: rx_clean_def rx_bytes_def split: rx_event.splits)

lemma sys_send_clean:
  assumes "fd_open k" "tx_clean (txq k)" "bs \<noteq> []" "\<not> gone k"
  obtains m q where "sys_send bs k = (int m, k\<lparr>sent := sent k @ take m bs, txq := q\<rparr>)"
    "0 < m" "m \<le> length bs" "tx_clean q"
proof (cases "txq k")
  case Nil
  let ?m = "min (length bs) MAX_RW"
  have "k\<lparr>sent := sent k @ take ?m bs\<rparr> = k\<lparr>sent := sent k @ take ?m bs, txq := []\<rparr>"
    using Nil by simp
  with Nil assms show ?thesis
    using that [of ?m "[]"] by (simp add: sys_send_def Let_def MAX_RW_def)
next
  case (Cons e es)
  then obtain a where e: "e = Accepts a" "0 < a" "tx_clean es"
    using assms(2) by (cases e) auto
  with Cons assms show ?thesis
    using that [of "min a (min (length bs) MAX_RW)" es]
    by (simp add: sys_send_def Let_def MAX_RW_def)
qed

lemma splice_advance:
  "length buf = n \<Longrightarrow> i + length d \<le> n \<Longrightarrow>
     take (i + length d) (splice buf i d) = take i buf @ d \<and> length (splice buf i d) = n"
  by (simp add: splice_def)

lemma progress_step:
  fixes c len :: u64
  assumes "c < len" and "0 < m" and "m \<le> unat (len - c)"
  shows "unat (c + of_nat m) = unat c + m"
    and "unat c + m \<le> unat len"
    and "c + of_nat m \<le> len"
proof -
  have r: "1 \<le> int m" using assms(2) by (simp add: Suc_le_eq)
  have b: "int m \<le> int (unat (len - c))" using assms(3) by (simp only: of_nat_le_iff)
  show 1: "unat (c + of_nat m) = unat c + m" and 2: "unat c + m \<le> unat len"
    using progress_no_wrap [OF assms(1) r b] by simp_all
  show "c + of_nat m \<le> len" using 1 2 by (simp add: word_le_nat_alt)
qed

lemma recv_loop_clean:
  assumes "fd_open k" "rx_clean (rx k)" "received \<le> len" "retries < 10" "length buf = unat len"
    and "unat len - unat received \<le> length (rx_bytes (rx k))"
  shows "\<exists>es. recv_loop len retries received buf k =
      (retries, len, take (unat received) buf @ take (unat len - unat received) (rx_bytes (rx k)),
       k\<lparr>rx := es\<rparr>) \<and>
    rx_clean es \<and> rx_bytes es = drop (unat len - unat received) (rx_bytes (rx k))"
  using assms
proof (induction len retries received buf k rule: recv_loop.induct)
  case (1 len retries received buf k)
  show ?case
  proof (cases "received < len")
    case False
    with "1.prems"(3) have "received = len" by simp
    with "1.prems" show ?thesis by (intro exI [of _ "rx k"]) (simp add: recv_loop.simps)
  next
    case True
    let ?n = "unat (len - received)"
    have n: "?n = unat len - unat received" "0 < ?n"
      using u64_diff [OF True] by simp_all
    with "1.prems" have "rx_bytes (rx k) \<noteq> []" by auto
    then obtain d es where sys: "sys_recv ?n k = (int (length d), d, k\<lparr>rx := es\<rparr>)"
      and d: "d \<noteq> []" "length d \<le> ?n" and es: "rx_bytes (rx k) = d @ rx_bytes es" "rx_clean es"
      using "1.prems"(1,2) n(2) by (elim sys_recv_clean)
    have d0: "0 < length d" using d(1) by simp
    note step = progress_step [OF True d0 d(2)]
    let ?r = "received + of_nat (length d)" and ?b = "splice buf (unat received) d"
    have splice: "take (unat received + length d) ?b = take (unat received) buf @ d" "length ?b = unat len"
      using splice_advance [of buf "unat len" "unat received" d] "1.prems"(5) step(2) by simp_all
    have pos: "\<not> int (length d) < 1" using d(1) by (simp add: Suc_le_eq)
    have "\<exists>es'. recv_loop len retries ?r ?b (k\<lparr>rx := es\<rparr>) =
        (retries, len, take (unat ?r) ?b @ take (unat len - unat ?r) (rx_bytes es), k\<lparr>rx := es'\<rparr>) \<and>
      rx_clean es' \<and> rx_bytes es' = drop (unat len - unat ?r) (rx_bytes es)"
      using "1.IH" [OF _ sys [symmetric] refl refl] "1.prems" True pos step(3) splice(2) es n(1)
      by (simp add: step(1))
    moreover have "recv_loop len retries received buf k = recv_loop len retries ?r ?b (k\<lparr>rx := es\<rparr>)"
      using True "1.prems"(4) pos sys by (simp add: recv_loop.simps [of len retries received])
    moreover have "unat len - unat received = length d + (unat len - unat ?r)"
      using step(1,2) by simp
    ultimately show ?thesis using splice(1) es(1) step(1) by simp
  qed
qed

lemma end_seen_twice [simp]: "end_seen (end_seen e) = end_seen e"
  by (cases e) simp_all

text \<open>The peer closed before enough bytes arrived: ten empty reads, then the loop gives up.\<close>

lemma recv_loop_eof:
  assumes "fd_open k" "rx k = []" "received < len" "retries \<le> 10"
  shows "recv_loop len retries received buf k =
    (10, received, buf, if retries < 10 then k\<lparr>peer_end := end_seen (peer_end k)\<rparr> else k)"
  using assms
proof (induction len retries received buf k rule: recv_loop.induct)
  case (1 len retries received buf k)
  show ?case
  proof (cases "retries < 10")
    case True
    with 1 show ?thesis
      by (simp add: recv_loop.simps [of len retries received] sys_recv_closed)
  next
    case False
    with "1.prems" show ?thesis by (simp add: recv_loop.simps)
  qed
qed

lemma send_loop_clean:
  assumes "fd_open k" "tx_clean (txq k)" "snt \<le> len" "retries < 10" "length d = unat len" "\<not> gone k"
  shows "\<exists>q. send_loop d len retries snt k =
      (retries, len, k\<lparr>sent := sent k @ drop (unat snt) d, txq := q\<rparr>) \<and> tx_clean q"
  using assms
proof (induction d len retries snt k rule: send_loop.induct)
  case (1 d len retries snt k)
  show ?case
  proof (cases "snt < len")
    case False
    with "1.prems"(3) have "snt = len" by simp
    with "1.prems" show ?thesis by (intro exI [of _ "txq k"]) (simp add: send_loop.simps)
  next
    case True
    let ?bs = "take (unat (len - snt)) (drop (unat snt) d)"
    have n: "unat (len - snt) = unat len - unat snt" "unat snt < unat len"
      using u64_diff [OF True] by simp_all
    then have bs: "?bs = drop (unat snt) d" "?bs \<noteq> []" using "1.prems"(5) by simp_all
    then obtain m q where sys: "sys_send ?bs k = (int m, k\<lparr>sent := sent k @ take m ?bs, txq := q\<rparr>)"
      and m: "0 < m" "m \<le> length ?bs" and q: "tx_clean q"
      using sys_send_clean [OF "1.prems"(1,2) _ "1.prems"(6)] by metis
    let ?s = "snt + of_nat m"
    have step: "unat ?s = unat snt + m" "unat snt + m \<le> unat len" "?s \<le> len"
      using progress_step [OF True m(1)] m(2) bs(1) "1.prems"(5) n by simp_all
    have pos: "\<not> int m < 1" using m(1) by simp
    let ?k = "k\<lparr>sent := sent k @ take m ?bs, txq := q\<rparr>"
    have "\<exists>q'. send_loop d len retries ?s ?k =
        (retries, len, ?k\<lparr>sent := sent ?k @ drop (unat ?s) d, txq := q'\<rparr>) \<and> tx_clean q'"
      using "1.IH" [OF _ sys [symmetric] refl] "1.prems" True pos step(3) q by simp
    moreover have "send_loop d len retries snt k = send_loop d len retries ?s ?k"
      using True "1.prems"(4) pos sys by (simp add: send_loop.simps [of d len retries snt])
    moreover have "take m ?bs @ drop (unat ?s) d = drop (unat snt) d"
      using bs(1) step(1) by (simp add: add.commute flip: drop_drop)
    ultimately show ?thesis by simp
  qed
qed

text \<open>
  The other side is gone: every system call brings the signal nearer, and once it is raised the rest of
  the loop does not take it back.
\<close>

lemma sys_send_killed: "killed k \<Longrightarrow> killed (snd (sys_send bs k))"
  by (simp add: sys_send_def Let_def split: list.split tx_event.split)

lemma send_loop_killed: "killed k \<Longrightarrow> killed (snd (snd (send_loop d len retries snt k)))"
proof (induction d len retries snt k rule: send_loop.induct)
  case (1 d len retries snt k)
  show ?case
  proof (cases "retries < 10 \<and> snt < len")
    case True
    obtain r k' where sys: "sys_send (take (unat (len - snt)) (drop (unat snt) d)) k = (r, k')" by fastforce
    then have "killed k'" using sys_send_killed [OF "1.prems"] by (metis snd_conv)
    from "1.IH" [OF True sys [symmetric] refl this] True sys show ?thesis
      by (simp add: send_loop.simps [of d len retries snt])
  next
    case False
    then have "send_loop d len retries snt k = (retries, snt, k)" by (auto simp: send_loop.simps [of d len retries snt])
    with "1.prems" show ?thesis by simp
  qed
qed

lemma sys_send_gone:
  assumes "fd_open k" "tx_clean (txq k)" "bs \<noteq> []" "peer_end k = Gone n"
  obtains "killed (snd (sys_send bs k))"
  | m s q where "sys_send bs k = (int m, k\<lparr>sent := s, txq := q, peer_end := Gone (n - 1)\<rparr>)"
    "0 < n" "0 < m" "m \<le> length bs" "tx_clean q"
proof (cases n)
  case 0
  with assms that(1) show ?thesis by (simp add: sys_send_def)
next
  case (Suc j)
  let ?k = "k\<lparr>peer_end := Gone j\<rparr>"
  show ?thesis
  proof (cases "txq k")
    case Nil
    let ?m = "min (length bs) MAX_RW"
    have "sys_send bs k = (int ?m, k\<lparr>sent := sent k @ take ?m bs, txq := [], peer_end := Gone (n - 1)\<rparr>)"
      using Nil Suc assms by (simp add: sys_send_def Let_def)
    from that(2) [OF this] Suc assms(3) show ?thesis by (simp add: MAX_RW_def)
  next
    case (Cons e es)
    then obtain a where a: "e = Accepts a" "0 < a" "tx_clean es" using assms(2) by (cases e) auto
    let ?m = "min a (min (length bs) MAX_RW)"
    have "sys_send bs k = (int ?m, k\<lparr>sent := sent k @ take ?m bs, txq := es, peer_end := Gone (n - 1)\<rparr>)"
      using Cons a(1) Suc assms by (simp add: sys_send_def Let_def)
    from that(2) [OF this] Suc assms(3) a show ?thesis by (simp add: MAX_RW_def)
  qed
qed

lemma send_loop_gone:
  assumes "fd_open k" "tx_clean (txq k)" "snt \<le> len" "retries < 10" "length d = unat len" "peer_end k = Gone n"
  shows "killed (snd (snd (send_loop d len retries snt k))) \<or>
    (\<exists>s q j. send_loop d len retries snt k = (retries, len, k\<lparr>sent := s, txq := q, peer_end := Gone j\<rparr>) \<and>
      tx_clean q \<and> j \<le> n \<and> (snt < len \<longrightarrow> j < n))"
  using assms
proof (induction d len retries snt k arbitrary: n rule: send_loop.induct)
  case (1 d len retries snt k)
  show ?case
  proof (cases "snt < len")
    case False
    with "1.prems"(3) have "snt = len" by simp
    with "1.prems" show ?thesis
      by (intro disjI2 exI [of _ "sent k"] exI [of _ "txq k"] exI [of _ n]) (simp add: send_loop.simps)
  next
    case True
    let ?bs = "take (unat (len - snt)) (drop (unat snt) d)"
    have n: "unat (len - snt) = unat len - unat snt" "unat snt < unat len"
      using u64_diff [OF True] by simp_all
    then have bs: "?bs = drop (unat snt) d" "?bs \<noteq> []" using "1.prems"(5) by simp_all
    from "1.prems"(1,2) bs(2) "1.prems"(6) show ?thesis
    proof (cases rule: sys_send_gone)
      case 1
      obtain r k' where sys: "sys_send ?bs k = (r, k')" by fastforce
      with 1 have "killed k'" by simp
      from send_loop_killed [OF this] True "1.prems"(4) sys show ?thesis
        by (simp add: send_loop.simps [of d len retries snt])
    next
      case (2 m s q)
      let ?s = "snt + of_nat m" and ?k = "k\<lparr>sent := s, txq := q, peer_end := Gone (n - 1)\<rparr>"
      have step: "?s \<le> len" using progress_step [OF True 2(3)] 2(4) bs(1) "1.prems"(5) n by simp
      have pos: "\<not> int m < 1" using 2(3) by simp
      have eq: "send_loop d len retries snt k = send_loop d len retries ?s ?k"
        using True "1.prems"(4) pos 2(1) by (simp add: send_loop.simps [of d len retries snt])
      have "killed (snd (snd (send_loop d len retries ?s ?k))) \<or>
          (\<exists>s q j. send_loop d len retries ?s ?k = (retries, len, ?k\<lparr>sent := s, txq := q, peer_end := Gone j\<rparr>) \<and>
            tx_clean q \<and> j \<le> n - 1 \<and> (?s < len \<longrightarrow> j < n - 1))"
        using "1.IH" [OF _ 2(1) [symmetric] refl, of "n - 1"] "1.prems" True pos step 2(5) by simp
      then show ?thesis
        unfolding eq using 2(2) by fastforce
    qed
  qed
qed

section \<open>The unbounded loop of the client\<close>

lemma client_recv_loop_clean:
  assumes "fd_open k" "rx_clean (rx k)" "received \<le> len" "length buf = unat len"
    and "unat len - unat received \<le> length (rx_bytes (rx k))"
  shows "\<exists>es. client_recv_loop len retries received buf k =
      Some (retries, len, take (unat received) buf @ take (unat len - unat received) (rx_bytes (rx k)),
       k\<lparr>rx := es\<rparr>) \<and>
    rx_clean es \<and> rx_bytes es = drop (unat len - unat received) (rx_bytes (rx k))"
  using assms
proof (induction "unat len - unat received" arbitrary: received buf k rule: less_induct)
  case less
  show ?case
  proof (cases "received < len")
    case False
    with less.prems(3) have "received = len" by simp
    with less.prems show ?thesis
      by (intro exI [of _ "rx k"]) (simp add: client_recv_loop.simps)
  next
    case True
    let ?n = "unat (len - received)"
    have n: "?n = unat len - unat received" "0 < ?n"
      using u64_diff [OF True] by simp_all
    with less.prems have "rx_bytes (rx k) \<noteq> []" by auto
    then obtain d es where sys: "sys_recv ?n k = (int (length d), d, k\<lparr>rx := es\<rparr>)"
      and d: "d \<noteq> []" "length d \<le> ?n" and es: "rx_bytes (rx k) = d @ rx_bytes es" "rx_clean es"
      using less.prems(1,2) n(2) by (elim sys_recv_clean)
    have d0: "0 < length d" using d(1) by simp
    note step = progress_step [OF True d0 d(2)]
    let ?r = "received + of_nat (length d)" and ?b = "splice buf (unat received) d"
    have splice: "take (unat received + length d) ?b = take (unat received) buf @ d" "length ?b = unat len"
      using splice_advance [of buf "unat len" "unat received" d] less.prems(4) step(2) by simp_all
    have pos: "\<not> int (length d) < 1" using d(1) by (simp add: Suc_le_eq)
    have "\<exists>es'. client_recv_loop len retries ?r ?b (k\<lparr>rx := es\<rparr>) =
        Some (retries, len, take (unat ?r) ?b @ take (unat len - unat ?r) (rx_bytes es), k\<lparr>rx := es'\<rparr>) \<and>
      rx_clean es' \<and> rx_bytes es' = drop (unat len - unat ?r) (rx_bytes es)"
    proof -
      have dec: "unat len - unat ?r < unat len - unat received" 
        using step(1,2) d0 u64_diff(2) [OF True] by linarith
      have room: "unat len - unat ?r \<le> length (rx_bytes (rx (k\<lparr>rx := es\<rparr>)))"
        using less.prems(5) es(1) step(1) by simp
      from less.hyps [OF dec _ _ step(3) splice(2) room] show ?thesis
        using less.prems(1) es(2) by simp
    qed
    moreover have "client_recv_loop len retries received buf k =
        client_recv_loop len retries ?r ?b (k\<lparr>rx := es\<rparr>)"
      using True pos sys by (simp add: client_recv_loop.simps [of len retries received])
    moreover have "unat len - unat received = length d + (unat len - unat ?r)"
      using step(1,2) by simp
    ultimately show ?thesis using splice(1) es(1) step(1) by simp
  qed
qed

text \<open>The peer closed before enough bytes arrived: the loop never ends.\<close>

lemma client_recv_loop_short:
  assumes "fd_open k" "rx_clean (rx k)" "unat received + length (rx_bytes (rx k)) < unat len"
  shows "client_recv_loop len retries received buf k = None"
proof (rule ccontr)
  assume "client_recv_loop len retries received buf k \<noteq> None"
  then obtain res where "client_recv_loop len retries received buf k = Some res" by blast
  then have "\<not> (fd_open k \<and> rx_clean (rx k) \<and> unat received + length (rx_bytes (rx k)) < unat len)"
  proof (rule client_recv_loop.raw_induct [where P = "\<lambda>len retries received buf k res.
      \<not> (fd_open k \<and> rx_clean (rx k) \<and> unat received + length (rx_bytes (rx k)) < unat len)", rotated])
    fix f :: "u64 \<Rightarrow> nat \<Rightarrow> u64 \<Rightarrow> byte list \<Rightarrow> kern \<Rightarrow> (nat \<times> u64 \<times> byte list \<times> kern) option"
      and len received :: u64 and retries buf k res
    assume IH: "\<And>len retries received buf k res. f len retries received buf k = Some res \<Longrightarrow>
        \<not> (fd_open k \<and> rx_clean (rx k) \<and> unat received + length (rx_bytes (rx k)) < unat len)"
      and eq: "(if received < len
          then let (r, d, k') = sys_recv (unat (len - received)) k
               in f len (if r < 1 then retries + 1 else retries) (received + word_of_int r)
                    (splice buf (unat received) d) k'
          else Some (retries, received, buf, k)) = Some res"
    show "\<not> (fd_open k \<and> rx_clean (rx k) \<and> unat received + length (rx_bytes (rx k)) < unat len)"
    proof
      assume short: "fd_open k \<and> rx_clean (rx k) \<and> unat received + length (rx_bytes (rx k)) < unat len"
      then have lt: "received < len" by (simp add: word_less_nat_alt)
      show False
      proof (cases "rx_bytes (rx k) = []")
        case True
        with short have "sys_recv (unat (len - received)) k = (0, [], k\<lparr>peer_end := end_seen (peer_end k)\<rparr>)"
          by (simp add: sys_recv_closed rx_bytes_Nil_clean)
        with eq lt have "f len (retries + 1) received buf (k\<lparr>peer_end := end_seen (peer_end k)\<rparr>) = Some res" by simp
        from IH [OF this] short show False by simp
      next
        case False
        have "fd_open k" "rx_clean (rx k)" using short by simp_all
        with False obtain d es where sys: "sys_recv (unat (len - received)) k = (int (length d), d, k\<lparr>rx := es\<rparr>)"
          and d: "d \<noteq> []" "length d \<le> unat (len - received)"
          and es: "rx_bytes (rx k) = d @ rx_bytes es" "rx_clean es"
          using u64_diff(3) [OF lt] by (elim sys_recv_clean)
        have d0: "0 < length d" using d(1) by simp
        have pos: "\<not> int (length d) < 1" using d(1) by (simp add: Suc_le_eq)
        from eq lt sys pos
        have "f len retries (received + of_nat (length d)) (splice buf (unat received) d)
            (k\<lparr>rx := es\<rparr>) = Some res"
          by simp
        from IH [OF this] show False
          using short es progress_step(1) [OF lt d0 d(2)] by simp
      qed
    qed
  qed
  with assms show False by simp
qed

section \<open>A system call that fails in the middle\<close>

text \<open>
  The loops of both classes have the same body, so the lemma is about any function with that body: bytes arrive,
  then one \<open>::recv\<close> fails.  The -1 takes back the count of the last byte, which is overwritten by what
  comes next.
\<close>

lemma splice_splice:
  "length buf = n \<Longrightarrow> i + length d + length e \<le> n \<Longrightarrow>
     splice (splice buf i d) (i + length d) e = splice buf i (d @ e)"
  by (simp add: splice_def ac_simps)

lemma recv_fault:
  fixes f :: "nat \<Rightarrow> u64 \<Rightarrow> byte list \<Rightarrow> kern \<Rightarrow> 'r" and received len :: u64
  assumes step: "\<And>c b k. c < len \<Longrightarrow> f r c b k =
      (let (s, d, k') = sys_recv (unat (len - c)) k
       in f (if s < 1 then r + 1 else r) (c + word_of_int s) (splice b (unat c) d) k')"
    and "fd_open k" "rx k = es1 @ RxError # q" "rx_clean es1" "length buf = unat len"
    and "unat received + length (rx_bytes es1) < unat len"
  shows "f r received buf k =
    f (r + 1) (received + of_nat (length (rx_bytes es1)) - 1) (splice buf (unat received) (rx_bytes es1)) (k\<lparr>rx := q\<rparr>)"
  using assms(2-)
proof (induction "length (rx_bytes es1)" arbitrary: received buf k es1 rule: less_induct)
  case less
  from less.prems(5) have lt: "received < len" by (simp add: word_less_nat_alt)
  show ?case
  proof (cases "rx_bytes es1 = []")
    case True
    with less.prems(1-3) have "sys_recv (unat (len - received)) k = (-1, [], k\<lparr>rx := q\<rparr>)"
      using rx_bytes_Nil_clean [OF less.prems(3) True] by (simp add: sys_recv_def)
    with True show ?thesis by (simp add: step [OF lt])
  next
    case False
    from less.prems(1-3) u64_diff(3) [OF lt] False
    obtain d es where sys: "sys_recv (unat (len - received)) k = (int (length d), d, k\<lparr>rx := es @ RxError # q\<rparr>)"
      and d: "d \<noteq> []" "length d \<le> unat (len - received)" and es: "rx_bytes es1 = d @ rx_bytes es" "rx_clean es"
      by (rule sys_recv_prefix)
    have d0: "0 < length d" using d(1) by simp
    have pos: "\<not> int (length d) < 1" using d0 by linarith
    let ?c = "received + of_nat (length d)"
    note c = progress_step [OF lt d0 d(2)]
    have "f r received buf k = f r ?c (splice buf (unat received) d) (k\<lparr>rx := es @ RxError # q\<rparr>)"
      using sys pos by (simp add: step [OF lt])
    also have "\<dots> = f (r + 1) (?c + of_nat (length (rx_bytes es)) - 1)
        (splice (splice buf (unat received) d) (unat ?c) (rx_bytes es)) (k\<lparr>rx := es @ RxError # q, rx := q\<rparr>)"
      by (rule less.hyps) (use less.prems es d0 c splice_advance [of buf "unat len" "unat received" d] in simp_all)
    also have "splice (splice buf (unat received) d) (unat ?c) (rx_bytes es) = splice buf (unat received) (rx_bytes es1)"
      using less.prems(4,5) es(1) c(1) splice_splice [of buf "unat len" "unat received" d "rx_bytes es"] by simp
    finally show ?thesis using es(1) by (simp add: add.assoc)
  qed
qed

section \<open>Whole calls on a clean connection\<close>

lemma unat_len: "length bs < 2 ^ 64 \<Longrightarrow> unat (of_nat (length bs) :: u64) = length bs"
  by (simp add: unat_word_of_nat_small)

lemma ServerSocket_send_clean:
  assumes "fd_open (ss_kern s)" "tx_clean (txq (ss_kern s))" "length bs < 2 ^ 64" "\<not> gone (ss_kern s)"
  shows "\<exists>q. ServerSocket_send bs s =
      (True, s\<lparr>ss_kern := (ss_kern s)\<lparr>sent := sent (ss_kern s) @ bs, txq := q\<rparr>\<rparr>) \<and> tx_clean q"
  using send_loop_clean [of "ss_kern s" 0 "of_nat (length bs)" 0 bs] assms unat_len [OF assms(3)]
  by (auto simp: ServerSocket_send_def)

lemma ServerSocket_recv_clean:
  assumes "fd_open (ss_kern s)" "rx_clean (rx (ss_kern s))" "length buf < 2 ^ 64"
    and "length buf \<le> length (rx_bytes (rx (ss_kern s)))"
  shows "\<exists>es. ServerSocket_recv buf s =
      (True, take (length buf) (rx_bytes (rx (ss_kern s))), s\<lparr>ss_kern := (ss_kern s)\<lparr>rx := es\<rparr>\<rparr>) \<and>
    rx_clean es \<and> rx_bytes es = drop (length buf) (rx_bytes (rx (ss_kern s)))"
  using recv_loop_clean [of "ss_kern s" 0 "of_nat (length buf)" 0 buf] assms unat_len [OF assms(3)]
  by (auto simp: ServerSocket_recv_def)

lemma ServerSocket_recv_eof:
  assumes "fd_open (ss_kern s)" "rx (ss_kern s) = []" "length buf < 2 ^ 64" "buf \<noteq> []"
  shows "ServerSocket_recv buf s =
    (False, buf, s\<lparr>ss_kern := (ss_kern s)\<lparr>peer_end := end_seen (peer_end (ss_kern s))\<rparr>\<rparr>)"
proof -
  have "(0 :: u64) < of_nat (length buf)"
    using assms(4) unat_len [OF assms(3)] by (simp add: word_less_nat_alt)
  then show ?thesis
    using recv_loop_eof [of "ss_kern s" 0 "of_nat (length buf)" 0 buf] assms
    by (simp add: ServerSocket_recv_def)
qed

lemma ServerSocket_send_killed: "killed (ss_kern s) \<Longrightarrow> killed (ss_kern (snd (ServerSocket_send bs s)))"
  by (simp add: ServerSocket_send_def case_prod_beta Let_def send_loop_killed)

lemma ServerSocket_send_gone:
  assumes "fd_open (ss_kern s)" "tx_clean (txq (ss_kern s))" "length bs < 2 ^ 64" "peer_end (ss_kern s) = Gone n"
  obtains "killed (ss_kern (snd (ServerSocket_send bs s)))"
  | x q j where "ServerSocket_send bs s =
      (True, s\<lparr>ss_kern := (ss_kern s)\<lparr>sent := x, txq := q, peer_end := Gone j\<rparr>\<rparr>)"
    "tx_clean q" "j \<le> n" "bs \<noteq> [] \<Longrightarrow> j < n"
proof -
  have len: "(0 :: u64) < of_nat (length bs) \<longleftrightarrow> bs \<noteq> []"
    using unat_len [OF assms(3)] by (simp add: word_less_nat_alt)
  from send_loop_gone [of "ss_kern s" 0 "of_nat (length bs)" 0 bs n] assms unat_len [OF assms(3)]
  consider "killed (snd (snd (send_loop bs (of_nat (length bs)) 0 0 (ss_kern s))))"
    | x q j where "send_loop bs (of_nat (length bs)) 0 0 (ss_kern s) =
        (0, of_nat (length bs), (ss_kern s)\<lparr>sent := x, txq := q, peer_end := Gone j\<rparr>)"
      "tx_clean q" "j \<le> n" "bs \<noteq> [] \<longrightarrow> j < n"
    using len by auto
  then show ?thesis
  proof cases
    case 1
    then show ?thesis using that(1) by (simp add: ServerSocket_send_def case_prod_beta Let_def)
  next
    case 2
    then show ?thesis using that(2) [OF _ 2(2,3)] by (simp add: ServerSocket_send_def)
  qed
qed

lemma ClientSocket_send_clean:
  assumes "fd_open (cs_kern s)" "tx_clean (txq (cs_kern s))" "length bs < 2 ^ 64" "\<not> gone (cs_kern s)"
  shows "\<exists>q. ClientSocket_send bs s =
      (True, s\<lparr>cs_kern := (cs_kern s)\<lparr>sent := sent (cs_kern s) @ bs, txq := q\<rparr>\<rparr>) \<and> tx_clean q"
  using send_loop_clean [of "cs_kern s" 0 "of_nat (length bs)" 0 bs] assms unat_len [OF assms(3)]
  by (auto simp: ClientSocket_send_def)

lemma ClientSocket_recv_clean:
  assumes "fd_open (cs_kern s)" "rx_clean (rx (cs_kern s))" "length buf < 2 ^ 64"
    and "length buf \<le> length (rx_bytes (rx (cs_kern s)))"
  shows "\<exists>es. ClientSocket_recv buf s =
      Inr (True, take (length buf) (rx_bytes (rx (cs_kern s))), s\<lparr>cs_kern := (cs_kern s)\<lparr>rx := es\<rparr>\<rparr>) \<and>
    rx_clean es \<and> rx_bytes es = drop (length buf) (rx_bytes (rx (cs_kern s)))"
  using client_recv_loop_clean [of "cs_kern s" 0 "of_nat (length buf)" buf 0] assms
    unat_len [OF assms(3)]
  by (auto simp: ClientSocket_recv_def)

lemma client_recv_short:
  assumes "fd_open (cs_kern c)" "rx_clean (rx (cs_kern c))" "length (rx_bytes (rx (cs_kern c))) < length buf"
    and "length buf < 2 ^ 64"
  shows "ClientSocket_recv buf c = Inl Diverges"
  using client_recv_loop_short [of "cs_kern c" 0 "of_nat (length buf)" 0 buf] assms unat_len [OF assms(4)]
  by (simp add: ClientSocket_recv_def)

section \<open>Calls that fail\<close>

text \<open>A failed system call before anything was transferred: the count wraps and the loop ends.\<close>

lemma minus_one_ge: "\<not> (0 + word_of_int (-1) :: u64) < len"
proof -
  have "len \<le> (-1 :: u64)" by (rule word_order.extremum)
  then show ?thesis by simp
qed

lemma send_loop_fails_first:
  assumes "sys_send (take (unat len) d) k = (-1, k')" "0 < len"
  shows "send_loop d len 0 0 k = (1, -1, k')"
  using assms minus_one_ge [of len]
  by (simp add: send_loop.simps [of d len 0 0 k] send_loop.simps [of d len "Suc 0"])

lemma recv_loop_fails_first:
  assumes "sys_recv (unat len) k = (-1, [], k')" "0 < len"
  shows "recv_loop len 0 0 buf k = (1, -1, buf, k')"
  using assms minus_one_ge [of len]
  by (simp add: recv_loop.simps [of len 0 0] recv_loop.simps [of len "Suc 0"])

lemma sys_send_fails:
  assumes "txq k = TxError # q \<or> \<not> fd_open k" "\<not> gone k"
  obtains k' where "\<And>bs. sys_send bs k = (-1, k')" "sent k' = sent k"
proof (cases "fd_open k")
  case True
  then have "sys_send bs k = (-1, k\<lparr>txq := q\<rparr>)" for bs
    using assms by (simp add: sys_send_def)
  then show ?thesis using that [of "k\<lparr>txq := q\<rparr>"] by simp
next
  case False
  then have "sys_send bs k = (-1, k)" for bs by (simp add: sys_send_def)
  then show ?thesis using that [of k] by simp
qed

lemma of_nat_length_pos: "bs \<noteq> [] \<Longrightarrow> length bs < 2 ^ 64 \<Longrightarrow> (0 :: u64) < of_nat (length bs)"
  using unat_len [of bs] by (simp add: word_less_nat_alt)

text \<open>The position the loops go on from, and what is then in front of it.\<close>

lemma fault_position:
  assumes "length buf < 2 ^ 64" "a \<noteq> []" "length a < length buf"
  shows "unat (0 + of_nat (length a) - 1 :: u64) = length a - 1"
    and "(0 + of_nat (length a) - 1 :: u64) < of_nat (length buf)"
    and "take (length a - 1) (splice buf 0 a) = butlast a" "length (splice buf 0 a) = length buf"
proof -
  have "(0 + of_nat (length a) - 1 :: u64) = of_nat (length a - 1)"
    using assms(2) by (cases a) simp_all
  moreover have "unat (of_nat (length a - 1) :: u64) = length a - 1"
    using assms(1,3) by (intro unat_word_of_nat_small) simp
  ultimately show "unat (0 + of_nat (length a) - 1 :: u64) = length a - 1" by simp
  then show "(0 + of_nat (length a) - 1 :: u64) < of_nat (length buf)"
    using unat_len [OF assms(1)] assms(3) by (simp add: word_less_nat_alt)
  show "take (length a - 1) (splice buf 0 a) = butlast a" "length (splice buf 0 a) = length buf"
    using assms(3) by (simp_all add: splice_def butlast_conv_take)
qed

lemma ServerSocket_recv_fault:
  assumes "fd_open (ss_kern s)" "rx (ss_kern s) = es1 @ RxError # es2" "rx_clean es1" "rx_clean es2"
    and "rx_bytes es1 = a" "a \<noteq> []" "length a < length buf" "length buf < 2 ^ 64"
    and "rx_bytes es2 = b @ i" "length buf = length a - 1 + length b"
  obtains es where "ServerSocket_recv buf s = (True, butlast a @ b, s\<lparr>ss_kern := (ss_kern s)\<lparr>rx := es\<rparr>\<rparr>)"
    "rx_clean es" "rx_bytes es = i"
proof -
  let ?len = "of_nat (length buf) :: u64" and ?c = "0 + of_nat (length a) - 1 :: u64"
  note p = fault_position [OF assms(8,6,7)] and len = unat_len [OF assms(8)]
  have 1: "recv_loop ?len 0 0 buf (ss_kern s) = recv_loop ?len 1 ?c (splice buf 0 a) ((ss_kern s)\<lparr>rx := es2\<rparr>)"
    using recv_fault [where f = "recv_loop ?len" and len = ?len and r = 0 and received = 0 and q = es2,
      OF _ assms(1-3), of buf] len assms(5,7)
    by (simp add: recv_loop.simps [of ?len 0])
  obtain es where "recv_loop ?len 1 ?c (splice buf 0 a) ((ss_kern s)\<lparr>rx := es2\<rparr>) =
      (1, ?len, butlast a @ b, (ss_kern s)\<lparr>rx := es\<rparr>)" "rx_clean es" "rx_bytes es = i"
    using recv_loop_clean [of "(ss_kern s)\<lparr>rx := es2\<rparr>" ?c ?len 1 "splice buf 0 a"] p len assms(1,4,9,10) by force
  with 1 show ?thesis using that by (simp add: ServerSocket_recv_def)
qed

lemma ClientSocket_recv_fault:
  assumes "fd_open (cs_kern s)" "rx (cs_kern s) = es1 @ RxError # es2" "rx_clean es1" "rx_clean es2"
    and "rx_bytes es1 = a" "a \<noteq> []" "length a < length buf" "length buf < 2 ^ 64"
    and "rx_bytes es2 = b @ i" "length buf = length a - 1 + length b"
  obtains es where "ClientSocket_recv buf s = Inr (True, butlast a @ b, s\<lparr>cs_kern := (cs_kern s)\<lparr>rx := es\<rparr>\<rparr>)"
    "rx_clean es" "rx_bytes es = i"
proof -
  let ?len = "of_nat (length buf) :: u64" and ?c = "0 + of_nat (length a) - 1 :: u64"
  note p = fault_position [OF assms(8,6,7)] and len = unat_len [OF assms(8)]
  have 1: "client_recv_loop ?len 0 0 buf (cs_kern s) =
      client_recv_loop ?len 1 ?c (splice buf 0 a) ((cs_kern s)\<lparr>rx := es2\<rparr>)"
    using recv_fault [where f = "client_recv_loop ?len" and len = ?len and r = 0 and received = 0 and q = es2,
      OF _ assms(1-3), of buf] len assms(5,7)
    by (simp add: client_recv_loop.simps [of ?len 0])
  obtain es where "client_recv_loop ?len 1 ?c (splice buf 0 a) ((cs_kern s)\<lparr>rx := es2\<rparr>) =
      Some (1, ?len, butlast a @ b, (cs_kern s)\<lparr>rx := es\<rparr>)" "rx_clean es" "rx_bytes es = i"
    using client_recv_loop_clean [of "(cs_kern s)\<lparr>rx := es2\<rparr>" ?c ?len "splice buf 0 a" 1] p len assms(1,4,9,10) by force
  with 1 show ?thesis using that by (simp add: ClientSocket_recv_def)
qed

section \<open>Properties\<close>

definition demo_kern :: kern where
  "demo_kern = \<lparr>rx = [Arrived [1, 2], Arrived [3, 4, 5]], txq = [Accepts 1, Accepts 2],
     sent = [], fd_open = True, peer_end = Stays, killed = False\<rparr>"

lemma demo_kern_not_gone [simp]: "\<not> gone (demo_kern\<lparr>txq := q, rx := r\<rparr>)" "\<not> gone (demo_kern\<lparr>txq := q\<rparr>)"
    "\<not> gone demo_kern" "peer_end demo_kern = Stays"
  by (simp_all add: demo_kern_def gone_def)

text \<open>
  On a connection without errors \<open>ServerSocket::send\<close> returns true and hands the kernel exactly
  the data, in order and once, however few bytes each system call accepts.
\<close>

lemma send_delivers_exactly:
  assumes "fd_open (ss_kern s)" "tx_clean (txq (ss_kern s))" "length bs < 2 ^ 64" "\<not> gone (ss_kern s)"
  shows "fst (ServerSocket_send bs s) \<and>
    sent (ss_kern (snd (ServerSocket_send bs s))) = sent (ss_kern s) @ bs"
  using ServerSocket_send_clean [OF assms] by auto

lemma send_delivers_exactly_witness:
  "fst (ServerSocket_send [7, 8, 9, 10] (ServerSocket_new demo_kern)) \<and>
   sent (ss_kern (snd (ServerSocket_send [7, 8, 9, 10] (ServerSocket_new demo_kern)))) = [7, 8, 9, 10]"
  using send_delivers_exactly [of "ServerSocket_new demo_kern" "[7, 8, 9, 10]"]
  by (simp add: ServerSocket_new_def demo_kern_def gone_def)

text \<open>
  On a connection without errors that brings enough bytes, \<open>ServerSocket::recv\<close> returns true with
  exactly the next bytes of the stream, however they are split over system calls, and leaves the
  rest of the stream for the next call.
\<close>

lemma recv_takes_exactly:
  assumes "fd_open (ss_kern s)" "rx_clean (rx (ss_kern s))" "length buf < 2 ^ 64"
    and "rx_bytes (rx (ss_kern s)) = bs @ rest" "length buf = length bs"
  shows "\<exists>s'. ServerSocket_recv buf s = (True, bs, s') \<and> rx_bytes (rx (ss_kern s')) = rest"
  using ServerSocket_recv_clean [OF assms(1-3)] assms(4,5) by force

lemma recv_takes_exactly_witness:
  "\<exists>s'. ServerSocket_recv [0, 0, 0, 0] (ServerSocket_new demo_kern) = (True, [1, 2, 3, 4], s') \<and>
     rx_bytes (rx (ss_kern s')) = [5]"
  using recv_takes_exactly [of "ServerSocket_new demo_kern" "[0, 0, 0, 0]" "[1, 2, 3, 4]" "[5]"]
  by (simp add: ServerSocket_new_def demo_kern_def)

text \<open>
  C23. On a connection without errors what one end sends is what the other receives.  \<open>ServerSocket::send\<close>
  returns true, however few bytes each system call accepts; and when the bytes it put on the wire arrive,
  in whatever portions, \<open>ClientSocket::recv\<close> into a buffer of the same length returns true with
  exactly these bytes and leaves what follows for the next call.
\<close>

theorem socket_roundtrip:
  assumes "fd_open (ss_kern s)" "tx_clean (txq (ss_kern s))" "\<not> gone (ss_kern s)" "length bs < 2 ^ 64"
    and "fd_open (cs_kern c)" "rx_clean (rx (cs_kern c))" "length buf = length bs"
    and "rx_bytes (rx (cs_kern c)) =
      drop (length (sent (ss_kern s))) (sent (ss_kern (snd (ServerSocket_send bs s)))) @ rest"
  shows "fst (ServerSocket_send bs s) \<and>
    (\<exists>c'. ClientSocket_recv buf c = Inr (True, bs, c') \<and> rx_clean (rx (cs_kern c')) \<and> rx_bytes (rx (cs_kern c')) = rest)"
proof -
  obtain q where q: "ServerSocket_send bs s =
      (True, s\<lparr>ss_kern := (ss_kern s)\<lparr>sent := sent (ss_kern s) @ bs, txq := q\<rparr>\<rparr>)"
    using ServerSocket_send_clean [OF assms(1,2,4,3)] by blast
  with assms(8) have "rx_bytes (rx (cs_kern c)) = bs @ rest" by simp
  with ClientSocket_recv_clean [OF assms(5,6), of buf] assms(4,7) q show ?thesis by force
qed

theorem socket_roundtrip_witness:
  "\<exists>c'. ClientSocket_recv [0, 0] ((ClientSocket_new ''127.0.0.1'' 8080)\<lparr>cs_kern :=
       demo_kern\<lparr>rx := [Arrived [7], Arrived [8, 9]]\<rparr>\<rparr>) = Inr (True, [7, 8], c') \<and>
     rx_clean (rx (cs_kern c')) \<and> rx_bytes (rx (cs_kern c')) = [9]"
proof -
  let ?s = "ServerSocket_new demo_kern"
  have s: "fd_open (ss_kern ?s)" "tx_clean (txq (ss_kern ?s))" "\<not> gone (ss_kern ?s)" "length [7, 8 :: byte] < 2 ^ 64"
    by (simp_all add: ServerSocket_new_def demo_kern_def gone_def)
  have "sent (ss_kern (snd (ServerSocket_send [7, 8] ?s))) = sent (ss_kern ?s) @ [7, 8]"
    using ServerSocket_send_clean [OF s(1,2,4,3)] by auto
  with socket_roundtrip [OF s, of "(ClientSocket_new ''127.0.0.1'' 8080)\<lparr>cs_kern :=
       demo_kern\<lparr>rx := [Arrived [7], Arrived [8, 9]]\<rparr>\<rparr>" "[0, 0]" "[9]"]
  show ?thesis by (simp add: demo_kern_def)
qed

text \<open>
  A \<open>send\<close> whose first system call fails is reported as a success although nothing was sent: the
  -1 is added to the \<open>size_t\<close> count, which wraps to its maximum and ends the loop after one retry.
\<close>

lemma failed_send_reported_as_success:
  assumes "txq (ss_kern s) = TxError # q \<or> \<not> fd_open (ss_kern s)" "bs \<noteq> []" "length bs < 2 ^ 64" "\<not> gone (ss_kern s)"
  shows "fst (ServerSocket_send bs s) \<and>
    sent (ss_kern (snd (ServerSocket_send bs s))) = sent (ss_kern s)"
proof -
  obtain k' where "\<And>bs. sys_send bs (ss_kern s) = (-1, k')" "sent k' = sent (ss_kern s)"
    using sys_send_fails [OF assms(1,4)] by metis
  then show ?thesis
    using send_loop_fails_first [OF _ of_nat_length_pos [OF assms(2,3)]]
    by (simp add: ServerSocket_send_def)
qed

lemma failed_send_reported_as_success_witness:
  "fst (ServerSocket_send [1] (ServerSocket_new (demo_kern\<lparr>txq := [TxError]\<rparr>))) \<and>
   sent (ss_kern (snd (ServerSocket_send [1] (ServerSocket_new (demo_kern\<lparr>txq := [TxError]\<rparr>))))) = []"
  using failed_send_reported_as_success
    [of "ServerSocket_new (demo_kern\<lparr>txq := [TxError]\<rparr>)" "[]" "[1]"]
  by (simp add: ServerSocket_new_def demo_kern_def gone_def)

text \<open>
  A failure in the middle of a \<open>send\<close> repeats a byte: after \<open>a\<close> bytes were accepted and one
  system call failed, the count stands at \<open>a - 1\<close>, so byte \<open>a - 1\<close> goes out twice, and the call
  still returns true.
\<close>

lemma failed_send_repeats_byte:
  assumes "fd_open (ss_kern s)" "txq (ss_kern s) = [Accepts a, TxError]"
    and "0 < a" "a < length bs" "length bs \<le> MAX_RW" "\<not> gone (ss_kern s)"
  shows "fst (ServerSocket_send bs s) \<and>
    sent (ss_kern (snd (ServerSocket_send bs s))) = sent (ss_kern s) @ take a bs @ drop (a - 1) bs"
proof -
  let ?len = "of_nat (length bs) :: u64" and ?k = "ss_kern s"
  let ?k1 = "?k\<lparr>sent := sent ?k @ take a bs, txq := [TxError]\<rparr>" and ?k2 = "?k\<lparr>sent := sent ?k @ take a bs, txq := []\<rparr>"
  have small: "length bs < 2 ^ 64" using assms(5) by (simp add: MAX_RW_def)
  have len: "unat ?len = length bs" using small by (rule unat_len)
  have a: "unat (of_nat a :: u64) = a" using assms(4) small by (intro unat_word_of_nat_small) simp
  have lt: "(0 :: u64) < ?len" "(of_nat a :: u64) < ?len"
    using assms(3,4) len a by (simp_all only: word_less_nat_alt unsigned_0)
  have 1: "send_loop bs ?len 0 0 ?k = send_loop bs ?len 0 (of_nat a) ?k1"
    using assms lt len by (simp add: send_loop.simps [of bs ?len 0 0] sys_send_def Let_def min_def)
  have m1: "(of_nat a + word_of_int (-1) :: u64) = of_nat (a - 1)"
    using assms(3) by (simp add: of_nat_diff)
  have 2: "send_loop bs ?len 0 (of_nat a) ?k1 = send_loop bs ?len 1 (of_nat (a - 1)) ?k2"
    using assms(1,6) lt(2) m1
    by (subst send_loop.simps) (simp add: sys_send_def del: of_nat_diff)
  have a1: "unat (of_nat (a - 1) :: u64) = a - 1"
    using assms(4) small by (intro unat_word_of_nat_small) simp
  then have "(of_nat (a - 1) :: u64) \<le> ?len"
    using len assms(4) by (simp add: word_le_nat_alt)
  then obtain q where "send_loop bs ?len 1 (of_nat (a - 1)) ?k2 =
      (1, ?len, ?k2\<lparr>sent := sent ?k2 @ drop (unat (of_nat (a - 1) :: u64)) bs, txq := q\<rparr>)"
    using send_loop_clean [of ?k2 "of_nat (a - 1)" ?len 1 bs] assms(1,6) len by auto
  then show ?thesis using 1 2 a1 by (simp add: ServerSocket_send_def)
qed

lemma failed_send_repeats_byte_witness:
  "sent (ss_kern (snd (ServerSocket_send [1, 2, 3, 4]
     (ServerSocket_new (demo_kern\<lparr>txq := [Accepts 2, TxError]\<rparr>))))) = [1, 2, 2, 3, 4]"
  using failed_send_repeats_byte
    [of "ServerSocket_new (demo_kern\<lparr>txq := [Accepts 2, TxError]\<rparr>)" 2 "[1, 2, 3, 4]"]
  by (simp add: ServerSocket_new_def demo_kern_def MAX_RW_def gone_def)

text \<open>
  When the peer closes the connection before the bytes asked for have arrived, the two classes
  differ: \<open>ServerSocket::recv\<close> gives up after ten empty reads and returns false with the buffer
  untouched, \<open>ClientSocket::recv\<close>, whose loop does not test the retries, never returns.
\<close>

lemma recv_after_close:
  assumes "fd_open k" "rx k = []" "buf \<noteq> []" "length buf < 2 ^ 64"
  shows "ServerSocket_recv buf (ServerSocket_new k) =
      (False, buf, ServerSocket_new (k\<lparr>peer_end := end_seen (peer_end k)\<rparr>)) \<and>
    ClientSocket_recv buf (c\<lparr>cs_kern := k\<rparr>) = Inl Diverges"
proof -
  have "client_recv_loop (of_nat (length buf)) 0 0 buf k = None"
    using assms unat_len [OF assms(4)] by (intro client_recv_loop_short) simp_all
  then show ?thesis
    using ServerSocket_recv_eof [of "ServerSocket_new k" buf] assms
    by (simp add: ServerSocket_new_def ClientSocket_recv_def)
qed

lemma recv_after_close_witness:
  "ClientSocket_recv [0, 0, 0, 0] ((ClientSocket_new ''127.0.0.1'' 8080)\<lparr>cs_kern := demo_kern\<lparr>rx := []\<rparr>\<rparr>) =
     Inl Diverges"
  using recv_after_close [of "demo_kern\<lparr>rx := []\<rparr>" "[0, 0, 0, 0]" "ClientSocket_new ''127.0.0.1'' 8080"]
  by (simp add: demo_kern_def)

text \<open>
  \<open>ClientSocket::connect\<close> cannot notice that \<open>socket()\<close> failed: the descriptor is stored in an
  \<open>unsigned int\<close>, so \<open>sock_fd < 0\<close> is never true and the outcome is the same for every descriptor.
\<close>

lemma connect_ignores_socket_failure:
  "ClientSocket_connect (env\<lparr>ce_socket := fd\<rparr>) s =
     (if cs_connected s then s
      else (ClientSocket_connect (env\<lparr>ce_socket := 3\<rparr>) s)\<lparr>cs_fd := fd\<rparr>)"
  by (auto simp: ClientSocket_connect_def Let_def split: prod.splits)

end
