(* ===== verification/Socket_Interface.thy ===== *)
theory Socket_Interface
  imports Sockets
begin

text \<open>
  \<open>AbstSocket\<close> (\<open>include/abst_socket.hpp\<close>): the handlers of the program are written against
  \<open>send\<close> and \<open>recv\<close> and run over plain or encrypted sockets.  Here a socket class is the record of
  its operations, and its contract is a locale: a relation says which blocks are still to arrive
  and which have been sent, \<open>send\<close> appends a block, \<open>recv\<close> of the right length takes the next one.
  What \<open>recv\<close> answers is left open, for no caller above the sockets looks at it.
  A second locale adds what a server-side socket does when nothing more will arrive.

  \<open>ServerSocket\<close> and \<open>ClientSocket\<close> are instances for every division of the byte stream into
  blocks; the encrypted sockets, where the two ends must agree on the division, follow in
  \<open>Encrypted_Sockets\<close>.
\<close>

section \<open>The operations\<close>

text \<open>
  \<open>vrecv\<close> gets the buffer as it is before the call: its length is the number of bytes asked for,
  and a failing call may leave it as it is.
\<close>

record 's sock_ops =
  vsend :: "byte list \<Rightarrow> 's \<Rightarrow> (bool \<times> 's) result"
  vrecv :: "byte list \<Rightarrow> 's \<Rightarrow> (bool \<times> byte list \<times> 's) result"
  vclose :: "'s \<Rightarrow> 's"

text \<open>A \<open>send\<close> that has raised SIGPIPE does not return.\<close>

definition unless_killed :: "kern \<Rightarrow> 'a \<Rightarrow> 'a result" where
  "unless_killed k x = (if killed k then Inl Killed_by_SIGPIPE else Inr x)"

lemma unless_killed_simps [simp]:
  "killed k \<Longrightarrow> unless_killed k x = Inl Killed_by_SIGPIPE" "\<not> killed k \<Longrightarrow> unless_killed k x = Inr x"
  by (simp_all add: unless_killed_def)

definition server_ops :: "ServerSocket sock_ops" where
  "server_ops =
     \<lparr>vsend = (\<lambda>d s. let (r, s) = ServerSocket_send d s in unless_killed (ss_kern s) (r, s)),
      vrecv = (\<lambda>b s. Inr (ServerSocket_recv b s)),
      vclose = ServerSocket_close\<rparr>"

definition client_ops :: "conn_env \<Rightarrow> ClientSocket sock_ops" where
  "client_ops env =
     \<lparr>vsend = (\<lambda>d s. let (r, s) = ClientSocket_send d s in unless_killed (cs_kern s) (r, s)),
      vrecv = ClientSocket_recv,
      vclose = ClientSocket_disconnect env\<rparr>"

text \<open>
  How the callers use them.  \<open>send(&x, sizeof(int))\<close> and \<open>recv(&x, sizeof(int))\<close> move the four
  bytes of a variable; the results of the calls are ignored.  \<open>send(buf, n)\<close> with a pointer reads
  \<open>n\<close> bytes, so it is undefined for \<open>nullptr\<close> and for a shorter array.
\<close>

definition send_bytes :: "'s sock_ops \<Rightarrow> byte list \<Rightarrow> 's \<Rightarrow> 's result" where
  "send_bytes ops d s = bnd (vsend ops d s) (\<lambda>(_, s). Inr s)"

definition recv_bytes :: "'s sock_ops \<Rightarrow> byte list \<Rightarrow> 's \<Rightarrow> (byte list \<times> 's) result" where
  "recv_bytes ops buf s = bnd (vrecv ops buf s) (\<lambda>(_, b, s). Inr (b, s))"

definition send_int :: "'s sock_ops \<Rightarrow> u32 \<Rightarrow> 's \<Rightarrow> 's result" where
  "send_int ops w s = send_bytes ops (store32 w) s"

definition recv_int :: "'s sock_ops \<Rightarrow> u32 \<Rightarrow> 's \<Rightarrow> (u32 \<times> 's) result" where
  "recv_int ops old s = bnd (recv_bytes ops (store32 old) s) (\<lambda>(b, s). Inr (load32 b, s))"

definition send_ptr :: "'s sock_ops \<Rightarrow> bytes_ptr \<Rightarrow> nat \<Rightarrow> 's \<Rightarrow> 's result" where
  "send_ptr ops p n s =
     (case p of
        Null \<Rightarrow> if n = 0 then send_bytes ops [] s else Inl Undefined_Behaviour
      | Bytes b \<Rightarrow> if n \<le> length b then send_bytes ops (take n b) s else Inl Undefined_Behaviour)"

lemma send_ptr_simps [simp]:
  "0 < n \<Longrightarrow> send_ptr ops Null n s = Inl Undefined_Behaviour"
  "n = length b \<Longrightarrow> send_ptr ops (Bytes b) n s = send_bytes ops b s"
  by (simp_all add: send_ptr_def)

section \<open>The contract\<close>

locale frame_socket =
  fixes ops :: "'s sock_ops"
    and conn :: "'s \<Rightarrow> byte list list \<Rightarrow> byte list list \<Rightarrow> bool"
  assumes send_frame: "conn s ins outs \<Longrightarrow> length d < 2 ^ 64 \<Longrightarrow>
      \<exists>s'. vsend ops d s = Inr (True, s') \<and> conn s' ins (outs @ [d])"
    and recv_frame: "conn s (f # ins) outs \<Longrightarrow> length buf = length f \<Longrightarrow> length f < 2 ^ 64 \<Longrightarrow>
      \<exists>ok s'. vrecv ops buf s = Inr (ok, f, s') \<and> conn s' ins outs"
begin

lemma send_bytes_conn:
  assumes "conn s ins outs" "length d < 2 ^ 64"
  shows "\<exists>s'. send_bytes ops d s = Inr s' \<and> conn s' ins (outs @ [d])"
  using send_frame [OF assms] by (auto simp: send_bytes_def)

lemma recv_bytes_conn:
  assumes "conn s (f # ins) outs" "length buf = length f" "length f < 2 ^ 64"
  shows "\<exists>s'. recv_bytes ops buf s = Inr (f, s') \<and> conn s' ins outs"
  using recv_frame [OF assms] by (auto simp: recv_bytes_def)

lemma send_int_conn:
  assumes "conn s ins outs"
  shows "\<exists>s'. send_int ops (htonl w) s = Inr s' \<and> conn s' ins (outs @ [wire32 w])"
  using send_bytes_conn [OF assms, of "wire32 w"] by (simp add: send_int_def wire32_def)

lemma recv_int_conn:
  assumes "conn s (wire32 w # ins) outs"
  shows "\<exists>s'. recv_int ops old s = Inr (htonl w, s') \<and> conn s' ins outs"
  using recv_bytes_conn [OF assms, of "store32 old"] by (auto simp: recv_int_def wire32_def)

end

text \<open>Nothing more will arrive: a server-side \<open>recv\<close> fails and leaves the buffer and the socket.\<close>

locale eof_socket = frame_socket ops conn
  for ops :: "'s sock_ops" and conn +
  assumes recv_eof: "conn s [] outs \<Longrightarrow> buf \<noteq> [] \<Longrightarrow> length buf < 2 ^ 64 \<Longrightarrow>
      vrecv ops buf s = Inr (False, buf, s)"
begin

lemma recv_bytes_eof:
  "conn s [] outs \<Longrightarrow> buf \<noteq> [] \<Longrightarrow> length buf < 2 ^ 64 \<Longrightarrow> recv_bytes ops buf s = Inr (buf, s)"
  by (simp add: recv_bytes_def recv_eof)

lemma recv_int_eof: "conn s [] outs \<Longrightarrow> recv_int ops old s = Inr (old, s)"
  using recv_bytes_eof [of s outs "store32 old"]
  by (simp add: recv_int_def flip: length_greater_0_conv)

end

text \<open>
  The other side has closed the connection.  The first \<open>recv\<close> that finds nothing makes it known; after it
  every block sent brings the end of the process nearer.
\<close>

locale closed_socket = frame_socket ops conn
  for ops :: "'s sock_ops" and conn +
  fixes is_gone :: "nat \<Rightarrow> 's \<Rightarrow> bool"
  assumes recv_leaving: "conn s [] outs \<Longrightarrow> buf \<noteq> [] \<Longrightarrow> length buf < 2 ^ 64 \<Longrightarrow>
      \<exists>n s'. vrecv ops buf s = Inr (False, buf, s') \<and> is_gone n s'"
    and recv_gone: "is_gone n s \<Longrightarrow> buf \<noteq> [] \<Longrightarrow> length buf < 2 ^ 64 \<Longrightarrow> vrecv ops buf s = Inr (False, buf, s)"
    and send_gone: "is_gone n s \<Longrightarrow> length d < 2 ^ 64 \<Longrightarrow> vsend ops d s = Inl Killed_by_SIGPIPE \<or>
      (\<exists>m s'. vsend ops d s = Inr (True, s') \<and> is_gone m s' \<and> m \<le> n \<and> (d \<noteq> [] \<longrightarrow> m < n))"
begin

lemma recv_int_leaving: "conn s [] outs \<Longrightarrow> \<exists>n s'. recv_int ops old s = Inr (old, s') \<and> is_gone n s'"
  using recv_leaving [of s outs "store32 old"]
  by (auto simp: recv_int_def recv_bytes_def simp flip: length_greater_0_conv)

lemma recv_bytes_gone:
  "is_gone n s \<Longrightarrow> buf \<noteq> [] \<Longrightarrow> length buf < 2 ^ 64 \<Longrightarrow> recv_bytes ops buf s = Inr (buf, s)"
  by (simp add: recv_bytes_def recv_gone)

lemma recv_int_gone: "is_gone n s \<Longrightarrow> recv_int ops old s = Inr (old, s)"
  using recv_bytes_gone [of n s "store32 old"]
  by (simp add: recv_int_def flip: length_greater_0_conv)

lemma send_bytes_gone:
  assumes "is_gone n s" "length d < 2 ^ 64"
  obtains "send_bytes ops d s = Inl Killed_by_SIGPIPE"
  | m s' where "send_bytes ops d s = Inr s'" "is_gone m s'" "m \<le> n" "d \<noteq> [] \<Longrightarrow> m < n"
  using send_gone [OF assms]
proof (elim disjE exE conjE)
  fix m s' assume 1: "vsend ops d s = Inr (True, s')" "is_gone m s'" "m \<le> n" "d \<noteq> [] \<longrightarrow> m < n"
  show thesis by (rule that(2) [of s' m]) (use 1 in \<open>simp_all add: send_bytes_def\<close>)
qed (simp add: that(1) send_bytes_def)

end

section \<open>Plain sockets\<close>

text \<open>
  A kernel connection that will deliver \<open>i\<close> and has sent \<open>p\<close>, with no errors to come before the other
  side's end is seen; \<open>e\<close> says what comes then, and \<open>kern_conn\<close> is the connection whose other side stays.
\<close>

definition kern_link :: "peer_end \<Rightarrow> kern \<Rightarrow> byte list \<Rightarrow> byte list \<Rightarrow> bool" where
  "kern_link e k i p \<longleftrightarrow>
     fd_open k \<and> rx_clean (rx k) \<and> tx_clean (txq k) \<and> rx_bytes (rx k) = i \<and> sent k = p \<and>
     peer_end k = e \<and> \<not> gone k \<and> \<not> killed k"

abbreviation kern_conn :: "kern \<Rightarrow> byte list \<Rightarrow> byte list \<Rightarrow> bool" where
  "kern_conn \<equiv> kern_link Stays"

definition server_link :: "peer_end \<Rightarrow> ServerSocket \<Rightarrow> byte list list \<Rightarrow> byte list list \<Rightarrow> bool" where
  "server_link e s ins outs \<longleftrightarrow> kern_link e (ss_kern s) (concat ins) (concat outs)"

abbreviation server_conn :: "ServerSocket \<Rightarrow> byte list list \<Rightarrow> byte list list \<Rightarrow> bool" where
  "server_conn \<equiv> server_link Stays"

definition client_link :: "peer_end \<Rightarrow> ClientSocket \<Rightarrow> byte list list \<Rightarrow> byte list list \<Rightarrow> bool" where
  "client_link e s ins outs \<longleftrightarrow> kern_link e (cs_kern s) (concat ins) (concat outs)"

abbreviation client_conn :: "ClientSocket \<Rightarrow> byte list list \<Rightarrow> byte list list \<Rightarrow> bool" where
  "client_conn \<equiv> client_link Stays"

lemma ServerSocket_send_kern:
  assumes "kern_link e (ss_kern s) i p" "length d < 2 ^ 64"
  shows "\<exists>k. ServerSocket_send d s = (True, s\<lparr>ss_kern := k\<rparr>) \<and> kern_link e k i (p @ d)"
proof -
  from assms(1) have k: "fd_open (ss_kern s)" "tx_clean (txq (ss_kern s))" "\<not> gone (ss_kern s)"
    by (simp_all add: kern_link_def)
  obtain q where "ServerSocket_send d s =
      (True, s\<lparr>ss_kern := (ss_kern s)\<lparr>sent := sent (ss_kern s) @ d, txq := q\<rparr>\<rparr>)" "tx_clean q"
    using ServerSocket_send_clean [OF k(1,2) assms(2) k(3)] by blast
  with assms(1) show ?thesis by (auto simp: kern_link_def)
qed

lemma ServerSocket_recv_kern:
  assumes "kern_link e (ss_kern s) (f @ i) p" "length buf = length f" "length f < 2 ^ 64"
  shows "\<exists>k. ServerSocket_recv buf s = (True, f, s\<lparr>ss_kern := k\<rparr>) \<and> kern_link e k i p"
proof -
  from assms(1) have k: "fd_open (ss_kern s)" "rx_clean (rx (ss_kern s))"
      "rx_bytes (rx (ss_kern s)) = f @ i"
    by (simp_all add: kern_link_def)
  obtain es where "ServerSocket_recv buf s = (True, f, s\<lparr>ss_kern := (ss_kern s)\<lparr>rx := es\<rparr>\<rparr>)"
      "rx_clean es" "rx_bytes es = i"
    using ServerSocket_recv_clean [OF k(1,2), of buf] assms(2,3) k(3) by auto
  with assms(1) show ?thesis by (auto simp: kern_link_def)
qed

text \<open>The end is read: nothing changes if the other side stays, and it is gone if it is leaving.\<close>

lemma ServerSocket_recv_end:
  assumes "kern_link e (ss_kern s) [] p" "buf \<noteq> []" "length buf < 2 ^ 64"
  shows "ServerSocket_recv buf s = (False, buf, s\<lparr>ss_kern := (ss_kern s)\<lparr>peer_end := end_seen e\<rparr>\<rparr>)"
proof -
  have "rx (ss_kern s) = []"
    using assms(1) by (intro rx_bytes_Nil_clean) (simp_all add: kern_link_def)
  from ServerSocket_recv_eof [OF _ this assms(3,2)] assms(1) show ?thesis by (simp add: kern_link_def)
qed

lemma ServerSocket_recv_kern_eof:
  assumes "kern_conn (ss_kern s) [] p" "buf \<noteq> []" "length buf < 2 ^ 64"
  shows "ServerSocket_recv buf s = (False, buf, s)"
proof -
  have "(ss_kern s)\<lparr>peer_end := Stays\<rparr> = ss_kern s" using assms(1) by (simp add: kern_link_def)
  then show ?thesis using ServerSocket_recv_end [OF assms] by simp
qed

text \<open>The other side is gone, and so many calls of \<open>send\<close> are left.\<close>

definition kern_gone :: "nat \<Rightarrow> kern \<Rightarrow> bool" where
  "kern_gone n k \<longleftrightarrow> fd_open k \<and> rx k = [] \<and> tx_clean (txq k) \<and> peer_end k = Gone n \<and> \<not> killed k"

lemma ServerSocket_recv_kern_leaving:
  assumes "kern_link (Leaving n) (ss_kern s) [] p" "buf \<noteq> []" "length buf < 2 ^ 64"
  obtains k where "ServerSocket_recv buf s = (False, buf, s\<lparr>ss_kern := k\<rparr>)" "kern_gone n k"
  using that ServerSocket_recv_end [OF assms] assms(1) rx_bytes_Nil_clean
  by (simp add: kern_gone_def kern_link_def)

lemma ServerSocket_recv_kern_gone:
  assumes "kern_gone n (ss_kern s)" "buf \<noteq> []" "length buf < 2 ^ 64"
  shows "ServerSocket_recv buf s = (False, buf, s)"
proof -
  have "(ss_kern s)\<lparr>peer_end := Gone n\<rparr> = ss_kern s" using assms(1) by (simp add: kern_gone_def)
  with assms show ?thesis using ServerSocket_recv_eof [of s buf] by (simp add: kern_gone_def)
qed

lemma ServerSocket_send_kern_gone:
  assumes "kern_gone n (ss_kern s)" "length d < 2 ^ 64"
  obtains "killed (ss_kern (snd (ServerSocket_send d s)))"
  | k m where "ServerSocket_send d s = (True, s\<lparr>ss_kern := k\<rparr>)" "kern_gone m k" "m \<le> n" "d \<noteq> [] \<Longrightarrow> m < n"
proof -
  have k: "fd_open (ss_kern s)" "tx_clean (txq (ss_kern s))" "peer_end (ss_kern s) = Gone n"
    using assms(1) by (simp_all add: kern_gone_def)
  from k(1,2) assms(2) k(3) show ?thesis
  proof (cases rule: ServerSocket_send_gone)
    case (2 x q j)
    from 2(2) assms(1) have "kern_gone j ((ss_kern s)\<lparr>sent := x, txq := q, peer_end := Gone j\<rparr>)"
      by (simp add: kern_gone_def)
    from that(2) [OF 2(1) this 2(3,4)] show ?thesis .
  qed (rule that(1))
qed

lemma ClientSocket_send_kern:
  assumes "kern_link e (cs_kern s) i p" "length d < 2 ^ 64"
  shows "\<exists>k. ClientSocket_send d s = (True, s\<lparr>cs_kern := k\<rparr>) \<and> kern_link e k i (p @ d)"
proof -
  from assms(1) have k: "fd_open (cs_kern s)" "tx_clean (txq (cs_kern s))" "\<not> gone (cs_kern s)"
    by (simp_all add: kern_link_def)
  obtain q where "ClientSocket_send d s =
      (True, s\<lparr>cs_kern := (cs_kern s)\<lparr>sent := sent (cs_kern s) @ d, txq := q\<rparr>\<rparr>)" "tx_clean q"
    using ClientSocket_send_clean [OF k(1,2) assms(2) k(3)] by blast
  with assms(1) show ?thesis by (auto simp: kern_link_def)
qed

lemma ClientSocket_recv_kern:
  assumes "kern_link e (cs_kern s) (f @ i) p" "length buf = length f" "length f < 2 ^ 64"
  shows "\<exists>k. ClientSocket_recv buf s = Inr (True, f, s\<lparr>cs_kern := k\<rparr>) \<and> kern_link e k i p"
proof -
  from assms(1) have k: "fd_open (cs_kern s)" "rx_clean (rx (cs_kern s))"
      "rx_bytes (rx (cs_kern s)) = f @ i"
    by (simp_all add: kern_link_def)
  obtain es where "ClientSocket_recv buf s = Inr (True, f, s\<lparr>cs_kern := (cs_kern s)\<lparr>rx := es\<rparr>\<rparr>)"
      "rx_clean es" "rx_bytes es = i"
    using ClientSocket_recv_clean [OF k(1,2), of buf] assms(2,3) k(3) by auto
  with assms(1) show ?thesis by (auto simp: kern_link_def)
qed

lemma server_link_frame: "frame_socket server_ops (server_link e)"
proof
  fix s ins outs and d :: "byte list"
  assume "server_link e s ins outs" "length d < 2 ^ 64"
  then show "\<exists>s'. vsend server_ops d s = Inr (True, s') \<and> server_link e s' ins (outs @ [d])"
    using ServerSocket_send_kern [of e s "concat ins" "concat outs" d]
    by (auto simp: server_link_def server_ops_def kern_link_def)
next
  fix s f ins outs and buf :: "byte list"
  assume "server_link e s (f # ins) outs" "length buf = length f" "length f < 2 ^ 64"
  then show "\<exists>ok s'. vrecv server_ops buf s = Inr (ok, f, s') \<and> server_link e s' ins outs"
    using ServerSocket_recv_kern [of e s f "concat ins" "concat outs" buf]
    by (auto simp: server_link_def server_ops_def)
qed

interpretation server_sock: eof_socket server_ops server_conn
proof (intro eof_socket.intro server_link_frame eof_socket_axioms.intro)
  fix s outs and buf :: "byte list"
  assume "server_conn s [] outs" "buf \<noteq> []" "length buf < 2 ^ 64"
  then show "vrecv server_ops buf s = Inr (False, buf, s)"
    using ServerSocket_recv_kern_eof [of s "concat outs" buf]
    by (simp add: server_link_def server_ops_def)
qed

definition server_gone :: "nat \<Rightarrow> ServerSocket \<Rightarrow> bool" where
  "server_gone n s \<longleftrightarrow> kern_gone n (ss_kern s)"

interpretation server_closed: closed_socket server_ops "server_link (Leaving n)" server_gone
proof (intro closed_socket.intro server_link_frame closed_socket_axioms.intro)
  fix s outs and buf :: "byte list"
  assume "server_link (Leaving n) s [] outs" "buf \<noteq> []" "length buf < 2 ^ 64"
  then show "\<exists>m s'. vrecv server_ops buf s = Inr (False, buf, s') \<and> server_gone m s'"
    using ServerSocket_recv_kern_leaving [of n s "concat outs" buf]
    by (fastforce simp: server_link_def server_ops_def server_gone_def)
next
  fix m s and buf :: "byte list"
  assume "server_gone m s" "buf \<noteq> []" "length buf < 2 ^ 64"
  then show "vrecv server_ops buf s = Inr (False, buf, s)"
    using ServerSocket_recv_kern_gone [of m s buf] by (simp add: server_gone_def server_ops_def)
next
  fix m s and d :: "byte list"
  assume "server_gone m s" and d: "length d < 2 ^ 64"
  then have "kern_gone m (ss_kern s)" by (simp add: server_gone_def)
  from this d show "vsend server_ops d s = Inl Killed_by_SIGPIPE \<or>
      (\<exists>j s'. vsend server_ops d s = Inr (True, s') \<and> server_gone j s' \<and> j \<le> m \<and> (d \<noteq> [] \<longrightarrow> j < m))"
  proof (cases rule: ServerSocket_send_kern_gone)
    case 1
    then show ?thesis by (simp add: server_ops_def case_prod_beta)
  next
    case (2 k j)
    then show ?thesis by (force simp: server_ops_def server_gone_def kern_gone_def)
  qed
qed

lemma client_link_frame: "frame_socket (client_ops env) (client_link e)"
proof
  fix s ins outs and d :: "byte list"
  assume "client_link e s ins outs" "length d < 2 ^ 64"
  then show "\<exists>s'. vsend (client_ops env) d s = Inr (True, s') \<and> client_link e s' ins (outs @ [d])"
    using ClientSocket_send_kern [of e s "concat ins" "concat outs" d]
    by (auto simp: client_link_def client_ops_def kern_link_def)
next
  fix s f ins outs and buf :: "byte list"
  assume "client_link e s (f # ins) outs" "length buf = length f" "length f < 2 ^ 64"
  then show "\<exists>ok s'. vrecv (client_ops env) buf s = Inr (ok, f, s') \<and> client_link e s' ins outs"
    using ClientSocket_recv_kern [of e s f "concat ins" "concat outs" buf]
    by (auto simp: client_link_def client_ops_def)
qed

interpretation client_sock: frame_socket "client_ops env" client_conn
  by (rule client_link_frame)

end
