(* ===== verification/Crypto_Handshake.thy ===== *)
theory Crypto_Handshake
  imports Socket_Interface
begin

text \<open>
  \<open>Crypto::handshake\<close> (\<open>src/crypto_common.cpp\<close>): exchange of ECDH public keys, derivation of a
  key, exchange of an IV and of a sealed confirmation.  The program is written against the \<open>send\<close>
  and \<open>recv\<close> it is given, so it is modelled over \<open>sock_ops\<close> and its correctness is proved once in
  the contract of sockets.

  Crypto++ is not part of the program: the record \<open>crypto\<close> holds the functions of it that are
  called, and \<open>crypto_ok\<close> and \<open>agreement\<close> state what is documented of them.  The random values
  drawn are an argument too.
\<close>

section \<open>The library\<close>

text \<open>
  \<open>public_len\<close>: \<open>dh.PublicKeyLength()\<close>; \<open>agree\<close>: \<open>dh.Agree\<close> on a private key and the first
  \<open>public_len\<close> bytes of a public key; \<open>hkdf\<close>: \<open>DeriveKey\<close> of so many bytes from secret, salt and
  info; \<open>seal\<close> and \<open>unseal\<close>: \<open>EncryptAndAuthenticate\<close> and \<open>DecryptAndVerify\<close> on key, IV and header;
  \<open>usable\<close>: how many bytes of memory a \<open>SecByteBlock\<close> of a size really owns; \<open>sizeof_block\<close>: the
  size of the \<open>SecByteBlock\<close> object itself.
\<close>

record crypto =
  public_len :: nat
  agree :: "byte list \<Rightarrow> byte list \<Rightarrow> byte list option"
  hkdf :: "nat \<Rightarrow> byte list \<Rightarrow> byte list \<Rightarrow> byte list \<Rightarrow> byte list"
  seal :: "byte list \<Rightarrow> byte list \<Rightarrow> byte list \<Rightarrow> byte list \<Rightarrow> byte list \<times> byte list"
  unseal :: "byte list \<Rightarrow> byte list \<Rightarrow> byte list \<Rightarrow> byte list \<Rightarrow> byte list \<Rightarrow> bool \<times> byte list"
  usable :: "nat \<Rightarrow> nat"
  sizeof_block :: nat

text \<open>What \<open>GenerateKeyPair\<close> and \<open>GenerateBlock\<close> draw.\<close>

record draws =
  drawn_private :: "byte list"
  drawn_public :: "byte list"
  drawn_iv :: "byte list"

definition KEY_LEN :: nat where "KEY_LEN = 32"
definition IV_LEN :: nat where "IV_LEN = 12"
definition MAC_LEN :: nat where "MAC_LEN = 16"
definition HKDF_SALT :: "byte list" where "HKDF_SALT = string_bytes ''HKDFSALT''"
definition HKDF_INFO :: "byte list" where "HKDF_INFO = string_bytes ''HKDFINFO''"
definition CIP_HEADER :: "byte list" where "CIP_HEADER = string_bytes ''CIPHEADER''"
definition CONFIRM_PHRASE :: string where "CONFIRM_PHRASE = ''CONFIRM''"

definition HandshakeException_what :: string where
  "HandshakeException_what = ''Error during cryptographic handshake''"

section \<open>The program\<close>

text \<open>\<open>SecByteBlock b(n)\<close> for an \<open>int\<close>: a negative \<open>n\<close> becomes a size nothing can satisfy.\<close>

definition sec_block :: "(nat \<Rightarrow> byte) \<Rightarrow> u32 \<Rightarrow> byte list result" where
  "sec_block g n =
     (if sint n < 0 then Inl (Throws Std_bad_alloc) else Inr (fresh_bytes g (nat (sint n))))"

text \<open>
  \<open>hkdf.DeriveKey(derived_key, sizeof(derived_key), ...)\<close> writes as many bytes as the object
  \<open>derived_key\<close> has, which is not the length of the block it points to.
\<close>

definition derive_key :: "crypto \<Rightarrow> (nat \<Rightarrow> byte) \<Rightarrow> byte list \<Rightarrow> byte list result" where
  "derive_key cr g shared =
     (if usable cr KEY_LEN < sizeof_block cr then Inl Undefined_Behaviour
      else Inr (take KEY_LEN (hkdf cr (sizeof_block cr) shared HKDF_SALT HKDF_INFO @
                  drop (sizeof_block cr) (fresh_bytes g KEY_LEN))))"

definition exchange_keys ::
    "crypto \<Rightarrow> 's sock_ops \<Rightarrow> (nat \<Rightarrow> byte) \<Rightarrow> draws \<Rightarrow> 's \<Rightarrow> (byte list \<times> 's) result" where
  "exchange_keys cr ops g rnd s =
     (let serv_pub_ecdh = drawn_public rnd;
          serv_pub_ecdh_size = htonl (ulen serv_pub_ecdh)
      in bnd (send_int ops serv_pub_ecdh_size s) (\<lambda>s.
         let serv_pub_ecdh_size = ntohl serv_pub_ecdh_size in
         bnd (send_ptr ops (Bytes serv_pub_ecdh) (size_of_int serv_pub_ecdh_size) s) (\<lambda>s.
         bnd (recv_int ops (load32 (fresh_bytes g 4)) s) (\<lambda>(client_pub_ecdh_size, s).
         let client_pub_ecdh_size = ntohl client_pub_ecdh_size in
         bnd (sec_block g client_pub_ecdh_size) (\<lambda>client_pub_ecdh.
         bnd (recv_bytes ops client_pub_ecdh s) (\<lambda>(client_pub_ecdh, s).
         if length client_pub_ecdh < public_len cr then Inl Undefined_Behaviour
         else case agree cr (drawn_private rnd) (take (public_len cr) client_pub_ecdh) of
             None \<Rightarrow> Inl (Throws HandshakeException)
           | Some shared_ecdh \<Rightarrow>
               bnd (derive_key cr g shared_ecdh) (\<lambda>derived_key. Inr (derived_key, s))))))))"

definition confirm_keys ::
    "crypto \<Rightarrow> 's sock_ops \<Rightarrow> (nat \<Rightarrow> byte) \<Rightarrow> byte list \<Rightarrow> byte list \<Rightarrow> 's \<Rightarrow> (bool \<times> 's) result" where
  "confirm_keys cr ops g key iv s =
     (let (confirm_send_ct, confirm_send_mac) =
            seal cr key iv CIP_HEADER (string_bytes CONFIRM_PHRASE)
      in bnd (send_bytes ops confirm_send_ct s) (\<lambda>s.
         bnd (send_bytes ops confirm_send_mac s) (\<lambda>s.
         bnd (recv_bytes ops (fresh_bytes g (length CONFIRM_PHRASE)) s) (\<lambda>(confirm_recv_ct, s).
         bnd (recv_bytes ops (fresh_bytes g MAC_LEN) s) (\<lambda>(confirm_recv_mac, s).
         let (ok, confirm_recv_pt) = unseal cr key iv CIP_HEADER confirm_recv_ct confirm_recv_mac
         in if \<not> ok then Inl (Throws HandshakeException)
            else if c_string (bytes_string confirm_recv_pt) \<noteq> CONFIRM_PHRASE
            then Inl (Throws HandshakeException)
            else Inr (True, s))))))"

text \<open>The result is the value returned, the IV block, and the key both ciphers are set to.\<close>

definition handshake ::
    "crypto \<Rightarrow> 's sock_ops \<Rightarrow> (nat \<Rightarrow> byte) \<Rightarrow> draws \<Rightarrow> byte list \<Rightarrow> bool \<Rightarrow> 's \<Rightarrow>
     (bool \<times> byte list \<times> byte list \<times> 's) result" where
  "handshake cr ops g rnd iv gen_iv s =
     bnd (exchange_keys cr ops g rnd s) (\<lambda>(derived_key, s).
     bnd (if gen_iv
          then let iv = drawn_iv rnd in bnd (send_bytes ops iv s) (\<lambda>s. Inr (iv, s))
          else recv_bytes ops iv s) (\<lambda>(iv, s).
     bnd (confirm_keys cr ops g derived_key iv s) (\<lambda>(r, s).
     Inr (r, iv, derived_key, s))))"

section \<open>What the library promises\<close>

definition crypto_ok :: "crypto \<Rightarrow> bool" where
  "crypto_ok cr \<longleftrightarrow>
     (\<forall>k iv h pt. length (fst (seal cr k iv h pt)) = length pt \<and>
        length (snd (seal cr k iv h pt)) = MAC_LEN \<and>
        unseal cr k iv h (fst (seal cr k iv h pt)) (snd (seal cr k iv h pt)) = (True, pt))"

lemma crypto_okD:
  assumes "crypto_ok cr"
  shows "length (fst (seal cr k iv h pt)) = length pt" "length (snd (seal cr k iv h pt)) = MAC_LEN"
    "unseal cr k iv h (fst (seal cr k iv h pt)) (snd (seal cr k iv h pt)) = (True, pt)"
  using assms by (simp_all add: crypto_ok_def)

text \<open>
  The size of the object \<open>derived_key\<close> covers a key and fits its block; then the key does not
  depend on the memory the block was made of.
\<close>

definition key_block_ok :: "crypto \<Rightarrow> bool" where
  "key_block_ok cr \<longleftrightarrow>
     KEY_LEN \<le> sizeof_block cr \<and> sizeof_block cr \<le> usable cr KEY_LEN \<and>
     (\<forall>secret. length (hkdf cr (sizeof_block cr) secret HKDF_SALT HKDF_INFO) = sizeof_block cr)"

definition session_key :: "crypto \<Rightarrow> byte list \<Rightarrow> byte list" where
  "session_key cr shared = take KEY_LEN (hkdf cr (sizeof_block cr) shared HKDF_SALT HKDF_INFO)"

lemma derive_key_session:
  "key_block_ok cr \<Longrightarrow> derive_key cr g shared = Inr (session_key cr shared)"
  by (simp add: key_block_ok_def derive_key_def session_key_def)

definition draws_ok :: "crypto \<Rightarrow> draws \<Rightarrow> bool" where
  "draws_ok cr rnd \<longleftrightarrow>
     length (drawn_public rnd) = public_len cr \<and> public_len cr + 1 < 2 ^ 31 \<and> length (drawn_iv rnd) = IV_LEN"

section \<open>The handshake over any socket that meets the contract\<close>

definition confirmation :: "crypto \<Rightarrow> byte list \<Rightarrow> byte list \<Rightarrow> byte list list" where
  "confirmation cr key iv =
     [fst (seal cr key iv CIP_HEADER (string_bytes CONFIRM_PHRASE)),
      snd (seal cr key iv CIP_HEADER (string_bytes CONFIRM_PHRASE))]"

definition key_blocks :: "draws \<Rightarrow> byte list list" where
  "key_blocks rnd = [wire32 (ulen (drawn_public rnd)), drawn_public rnd]"

lemma confirm_phrase_text: "c_string (bytes_string (string_bytes CONFIRM_PHRASE)) = CONFIRM_PHRASE"
  by (simp add: c_string_id CONFIRM_PHRASE_def nul_def)

context frame_socket
begin

lemma exchange_keys_recv:
  assumes "conn s (wire32 (ulen pub) # pub # ins) outs" "draws_ok cr rnd" "length pub + 1 < 2 ^ 31"
  shows "\<exists>s'. conn s' ins (outs @ key_blocks rnd) \<and>
    exchange_keys cr ops g rnd s =
      (if length pub < public_len cr then Inl Undefined_Behaviour
       else case agree cr (drawn_private rnd) (take (public_len cr) pub) of
           None \<Rightarrow> Inl (Throws HandshakeException)
         | Some sh \<Rightarrow> bnd (derive_key cr g sh) (\<lambda>key. Inr (key, s')))"
proof -
  let ?mine = "drawn_public rnd"
  have small: "length ?mine + 1 < 2 ^ 31" using assms(2) by (simp add: draws_ok_def)
  obtain s1 where s1: "send_int ops (htonl (ulen ?mine)) s = Inr s1"
      "conn s1 (wire32 (ulen pub) # pub # ins) (outs @ [wire32 (ulen ?mine)])"
    using send_int_conn [OF assms(1)] by blast
  have "length ?mine < 2 ^ 64" using small by simp
  from send_bytes_conn [OF s1(2) this]
  obtain s2 where s2: "send_bytes ops ?mine s1 = Inr s2"
      "conn s2 (wire32 (ulen pub) # pub # ins) (outs @ key_blocks rnd)"
    by (auto simp: key_blocks_def)
  obtain s3 where s3: "recv_int ops (load32 (fresh_bytes g 4)) s2 = Inr (htonl (ulen pub), s3)"
      "conn s3 (pub # ins) (outs @ key_blocks rnd)"
    using recv_int_conn [OF s2(2)] by blast
  have "length pub < 2 ^ 64" using assms(3) by simp
  from recv_bytes_conn [OF s3(2) _ this, of "fresh_bytes g (length pub)"]
  obtain s4 where s4: "recv_bytes ops (fresh_bytes g (length pub)) s3 = Inr (pub, s4)"
      "conn s4 ins (outs @ key_blocks rnd)"
    by auto
  show ?thesis
    using s1 s2 s3 s4 length_steps [OF small] length_steps [OF assms(3)]
    by (intro exI [of _ s4]) (simp add: exchange_keys_def sec_block_def)
qed

lemma exchange_keys_conn:
  assumes "conn s (wire32 (ulen pub) # pub # ins) outs" "draws_ok cr rnd" "key_block_ok cr"
    and "length pub = public_len cr" "agree cr (drawn_private rnd) pub = Some sh"
  shows "\<exists>s'. exchange_keys cr ops g rnd s = Inr (session_key cr sh, s') \<and>
    conn s' ins (outs @ key_blocks rnd)"
proof -
  have "length pub + 1 < 2 ^ 31" using assms(2,4) by (simp add: draws_ok_def)
  from exchange_keys_recv [OF assms(1,2) this, of g] assms(3-5) show ?thesis
    by (auto simp: derive_key_session)
qed

lemma confirm_keys_conn:
  assumes "conn s (confirmation cr key iv @ ins) outs" "crypto_ok cr"
  shows "\<exists>s'. confirm_keys cr ops g key iv s = Inr (True, s') \<and>
    conn s' ins (outs @ confirmation cr key iv)"
proof -
  let ?ct = "fst (seal cr key iv CIP_HEADER (string_bytes CONFIRM_PHRASE))"
  let ?mac = "snd (seal cr key iv CIP_HEADER (string_bytes CONFIRM_PHRASE))"
  note ok = crypto_okD [OF assms(2), of key iv CIP_HEADER "string_bytes CONFIRM_PHRASE"]
  have len: "length ?ct < 2 ^ 64" "length ?mac < 2 ^ 64"
    using ok by (simp_all add: CONFIRM_PHRASE_def MAC_LEN_def)
  from assms(1) have c: "conn s (?ct # ?mac # ins) outs" by (simp add: confirmation_def)
  from send_bytes_conn [OF c len(1)]
  obtain s1 where s1: "send_bytes ops ?ct s = Inr s1" "conn s1 (?ct # ?mac # ins) (outs @ [?ct])" by blast
  from send_bytes_conn [OF s1(2) len(2)]
  obtain s2 where s2: "send_bytes ops ?mac s1 = Inr s2"
      "conn s2 (?ct # ?mac # ins) (outs @ confirmation cr key iv)"
    by (auto simp: confirmation_def)
  from recv_bytes_conn [OF s2(2) _ len(1), of "fresh_bytes g (length CONFIRM_PHRASE)"]
  obtain s3 where s3: "recv_bytes ops (fresh_bytes g (length CONFIRM_PHRASE)) s2 = Inr (?ct, s3)"
      "conn s3 (?mac # ins) (outs @ confirmation cr key iv)"
    using ok by auto
  from recv_bytes_conn [OF s3(2) _ len(2), of "fresh_bytes g MAC_LEN"]
  obtain s4 where s4: "recv_bytes ops (fresh_bytes g MAC_LEN) s3 = Inr (?mac, s4)"
      "conn s4 ins (outs @ confirmation cr key iv)"
    using ok by auto
  show ?thesis
    using s1 s2 s3 s4 ok confirm_phrase_text by (simp add: confirm_keys_def case_prod_beta)
qed

lemma handshake_server_conn:
  assumes "conn s (wire32 (ulen pub) # pub # confirmation cr (session_key cr sh) (drawn_iv rnd) @ ins) outs"
    and "crypto_ok cr" "key_block_ok cr" "draws_ok cr rnd" "length pub = public_len cr"
    and "agree cr (drawn_private rnd) pub = Some sh"
  shows "\<exists>s'. handshake cr ops g rnd iv True s =
      Inr (True, drawn_iv rnd, session_key cr sh, s') \<and>
    conn s' ins (outs @ key_blocks rnd @ [drawn_iv rnd] @
      confirmation cr (session_key cr sh) (drawn_iv rnd))"
proof -
  from exchange_keys_conn [OF assms(1,4,3,5,6)]
  obtain s1 where s1: "exchange_keys cr ops g rnd s = Inr (session_key cr sh, s1)"
      "conn s1 (confirmation cr (session_key cr sh) (drawn_iv rnd) @ ins) (outs @ key_blocks rnd)"
    by blast
  have "length (drawn_iv rnd) < 2 ^ 64" using assms(4) by (simp add: draws_ok_def IV_LEN_def)
  from send_bytes_conn [OF s1(2) this]
  obtain s2 where s2: "send_bytes ops (drawn_iv rnd) s1 = Inr s2"
      "conn s2 (confirmation cr (session_key cr sh) (drawn_iv rnd) @ ins)
        ((outs @ key_blocks rnd) @ [drawn_iv rnd])" by blast
  from confirm_keys_conn [OF s2(2) assms(2), of g] show ?thesis
    using s1(1) s2(1) by (auto simp: handshake_def)
qed

lemma handshake_client_conn:
  assumes "conn s (wire32 (ulen pub) # pub # riv # confirmation cr (session_key cr sh) riv @ ins) outs"
    and "crypto_ok cr" "key_block_ok cr" "draws_ok cr rnd" "length pub = public_len cr"
    and "agree cr (drawn_private rnd) pub = Some sh" "length iv = IV_LEN" "length riv = IV_LEN"
  shows "\<exists>s'. handshake cr ops g rnd iv False s = Inr (True, riv, session_key cr sh, s') \<and>
    conn s' ins (outs @ key_blocks rnd @ confirmation cr (session_key cr sh) riv)"
proof -
  from exchange_keys_conn [OF assms(1,4,3,5,6)]
  obtain s1 where s1: "exchange_keys cr ops g rnd s = Inr (session_key cr sh, s1)"
      "conn s1 (riv # confirmation cr (session_key cr sh) riv @ ins) (outs @ key_blocks rnd)"
    by blast
  have "length riv < 2 ^ 64" using assms(8) by (simp add: IV_LEN_def)
  from recv_bytes_conn [OF s1(2) _ this, of iv] assms(7,8)
  obtain s2 where s2: "recv_bytes ops iv s1 = Inr (riv, s2)"
      "conn s2 (confirmation cr (session_key cr sh) riv @ ins) (outs @ key_blocks rnd)" by auto
  from confirm_keys_conn [OF s2(2) assms(2), of g] show ?thesis
    using s1(1) s2(1) by (auto simp: handshake_def)
qed

end

end
