(* ===== verification/Encrypted_Sockets.thy ===== *)
theory Encrypted_Sockets
  imports Crypto_Handshake
begin

text \<open>
  \<open>EncryptedServerSocket\<close> and \<open>EncryptedClientSocket\<close>: each block sent is sealed and followed by
  its 16-byte tag, each block received is opened again.  Both ends seal every block with the one
  key and IV of the handshake.

  Both classes are instances of the socket contract: what one end sends is what the other receives,
  block by block, as long as the memory block \<open>SecByteBlock mac(len)\<close> of \<open>recv\<close> happens to own the 16
  bytes that are written to it.
\<close>

section \<open>The classes\<close>

record EncryptedServerSocket =
  es_base :: ServerSocket
  es_iv :: "byte list"
  es_key :: "byte list"

definition EncryptedServerSocket_new ::
    "crypto \<Rightarrow> (nat \<Rightarrow> byte) \<Rightarrow> draws \<Rightarrow> kern \<Rightarrow> EncryptedServerSocket result" where
  "EncryptedServerSocket_new cr g rnd k =
     bnd (handshake cr server_ops g rnd (fresh_bytes g IV_LEN) True (ServerSocket_new k))
       (\<lambda>(_, iv, key, b). Inr \<lparr>es_base = b, es_iv = iv, es_key = key\<rparr>)"

definition EncryptedServerSocket_send ::
    "crypto \<Rightarrow> byte list \<Rightarrow> EncryptedServerSocket \<Rightarrow> bool \<times> EncryptedServerSocket" where
  "EncryptedServerSocket_send cr data s =
     (let (ct, mac) = seal cr (es_key s) (es_iv s) CIP_HEADER data;
          (_, b) = ServerSocket_send ct (es_base s);
          (r, b) = ServerSocket_send mac b
      in (r, s\<lparr>es_base := b\<rparr>))"

text \<open>
  The block \<open>mac\<close> is made with the length of the data, and 16 bytes are received into it.  The call
  \<open>::recv(fd, mac, 16)\<close> on a block with fewer is taken to be undefined itself, whether or not a byte beyond
  the block then arrives.
\<close>

definition EncryptedServerSocket_recv ::
    "crypto \<Rightarrow> (nat \<Rightarrow> byte) \<Rightarrow> byte list \<Rightarrow> EncryptedServerSocket \<Rightarrow>
     (bool \<times> byte list \<times> EncryptedServerSocket) result" where
  "EncryptedServerSocket_recv cr g data s =
     (let (ok, ct, b) = ServerSocket_recv (fresh_bytes g (length data)) (es_base s);
          s = s\<lparr>es_base := b\<rparr>
      in if \<not> ok then Inr (False, data, s)
         else if usable cr (length data) < MAC_LEN then Inl Undefined_Behaviour
         else
           let (ok, mac, b) = ServerSocket_recv (fresh_bytes g MAC_LEN) (es_base s);
               s = s\<lparr>es_base := b\<rparr>
           in if \<not> ok then Inr (False, data, s)
              else
                let (ok, pt) = unseal cr (es_key s) (es_iv s) CIP_HEADER ct mac
                in Inr (ok, pt, s))"

definition EncryptedServerSocket_close :: "EncryptedServerSocket \<Rightarrow> EncryptedServerSocket" where
  "EncryptedServerSocket_close s = s\<lparr>es_base := ServerSocket_close (es_base s)\<rparr>"

text \<open>The ciphers of a client socket have no key before the handshake.\<close>

record EncryptedClientSocket =
  ec_base :: ClientSocket
  ec_iv :: "byte list"
  ec_key :: "byte list option"

definition EncryptedClientSocket_new ::
    "(nat \<Rightarrow> byte) \<Rightarrow> string \<Rightarrow> u16 \<Rightarrow> EncryptedClientSocket" where
  "EncryptedClientSocket_new g addr prt =
     \<lparr>ec_base = ClientSocket_new addr prt, ec_iv = fresh_bytes g IV_LEN, ec_key = None\<rparr>"

definition EncryptedClientSocket_connect ::
    "crypto \<Rightarrow> (nat \<Rightarrow> byte) \<Rightarrow> draws \<Rightarrow> conn_env \<Rightarrow> EncryptedClientSocket \<Rightarrow>
     EncryptedClientSocket result" where
  "EncryptedClientSocket_connect cr g rnd env s =
     (let s = s\<lparr>ec_base := ClientSocket_connect env (ec_base s)\<rparr>
      in if ClientSocket_is_connected (ec_base s)
         then bnd (handshake cr (client_ops env) g rnd (ec_iv s) False (ec_base s))
                (\<lambda>(_, iv, key, b). Inr \<lparr>ec_base = b, ec_iv = iv, ec_key = Some key\<rparr>)
         else Inr s)"

definition EncryptedClientSocket_disconnect ::
    "conn_env \<Rightarrow> EncryptedClientSocket \<Rightarrow> EncryptedClientSocket" where
  "EncryptedClientSocket_disconnect env s = s\<lparr>ec_base := ClientSocket_disconnect env (ec_base s)\<rparr>"

definition EncryptedClientSocket_send ::
    "crypto \<Rightarrow> byte list \<Rightarrow> EncryptedClientSocket \<Rightarrow> (bool \<times> EncryptedClientSocket) result" where
  "EncryptedClientSocket_send cr data s =
     (case ec_key s of
        None \<Rightarrow> Inl (Throws CryptoPP_BadState)
      | Some key \<Rightarrow>
          let (ct, mac) = seal cr key (ec_iv s) CIP_HEADER data;
              (_, b) = ClientSocket_send ct (ec_base s);
              (r, b) = ClientSocket_send mac b
          in Inr (r, s\<lparr>ec_base := b\<rparr>))"

definition EncryptedClientSocket_recv ::
    "crypto \<Rightarrow> (nat \<Rightarrow> byte) \<Rightarrow> byte list \<Rightarrow> EncryptedClientSocket \<Rightarrow>
     (bool \<times> byte list \<times> EncryptedClientSocket) result" where
  "EncryptedClientSocket_recv cr g data s =
     bnd (ClientSocket_recv (fresh_bytes g (length data)) (ec_base s)) (\<lambda>(ok, ct, b).
     let s = s\<lparr>ec_base := b\<rparr>
     in if \<not> ok then Inr (False, data, s)
        else if usable cr (length data) < MAC_LEN then Inl Undefined_Behaviour
        else
          bnd (ClientSocket_recv (fresh_bytes g MAC_LEN) (ec_base s)) (\<lambda>(ok, mac, b).
          let s = s\<lparr>ec_base := b\<rparr>
          in if \<not> ok then Inr (False, data, s)
             else case ec_key s of
                 None \<Rightarrow> Inl (Throws CryptoPP_BadState)
               | Some key \<Rightarrow>
                   let (ok, pt) = unseal cr key (ec_iv s) CIP_HEADER ct mac
                   in Inr (ok, pt, s)))"

definition eserver_ops :: "crypto \<Rightarrow> (nat \<Rightarrow> byte) \<Rightarrow> EncryptedServerSocket sock_ops" where
  "eserver_ops cr g =
     \<lparr>vsend = (\<lambda>d s. let (r, s) = EncryptedServerSocket_send cr d s in unless_killed (ss_kern (es_base s)) (r, s)),
      vrecv = EncryptedServerSocket_recv cr g,
      vclose = EncryptedServerSocket_close\<rparr>"

definition eclient_ops ::
    "crypto \<Rightarrow> (nat \<Rightarrow> byte) \<Rightarrow> conn_env \<Rightarrow> EncryptedClientSocket sock_ops" where
  "eclient_ops cr g env =
     \<lparr>vsend = (\<lambda>d s. bnd (EncryptedClientSocket_send cr d s) (\<lambda>(r, s). unless_killed (cs_kern (ec_base s)) (r, s))),
      vrecv = EncryptedClientSocket_recv cr g,
      vclose = EncryptedClientSocket_disconnect env\<rparr>"

section \<open>The contract\<close>

text \<open>A block as it travels.\<close>

definition sealed :: "crypto \<Rightarrow> byte list \<Rightarrow> byte list \<Rightarrow> byte list \<Rightarrow> byte list" where
  "sealed cr key iv d =
     fst (seal cr key iv CIP_HEADER d) @ snd (seal cr key iv CIP_HEADER d)"

definition sealed_all :: "crypto \<Rightarrow> byte list \<Rightarrow> byte list \<Rightarrow> byte list list \<Rightarrow> byte list" where
  "sealed_all cr key iv ds = concat (map (sealed cr key iv) ds)"

lemma sealed_all_simps [simp]:
  "sealed_all cr key iv [] = []"
  "sealed_all cr key iv (d # ds) = sealed cr key iv d @ sealed_all cr key iv ds"
  "sealed_all cr key iv (ds @ es) = sealed_all cr key iv ds @ sealed_all cr key iv es"
  by (simp_all add: sealed_all_def)

lemma length_sealed: "crypto_ok cr \<Longrightarrow> length (sealed cr key iv d) = length d + MAC_LEN"
  by (simp add: sealed_def crypto_okD)

text \<open>
  An encrypted connection under a key and an IV: the sealed blocks \<open>ins\<close> are still to arrive, each
  of a length whose tag fits, and after the bytes \<open>pre\<close> of the handshake the sealed blocks \<open>outs\<close>
  have been sent; \<open>e\<close> says what the other side does then.
\<close>

definition tags_fit :: "crypto \<Rightarrow> byte list list \<Rightarrow> bool" where
  "tags_fit cr ds \<longleftrightarrow> (\<forall>d \<in> set ds. MAC_LEN \<le> usable cr (length d))"

definition eserver_link ::
    "peer_end \<Rightarrow> crypto \<Rightarrow> byte list \<Rightarrow> byte list \<Rightarrow> byte list \<Rightarrow> EncryptedServerSocket \<Rightarrow>
     byte list list \<Rightarrow> byte list list \<Rightarrow> bool" where
  "eserver_link e cr key iv pre s ins outs \<longleftrightarrow>
     crypto_ok cr \<and> tags_fit cr ins \<and> es_key s = key \<and> es_iv s = iv \<and>
     kern_link e (ss_kern (es_base s)) (sealed_all cr key iv ins) (pre @ sealed_all cr key iv outs)"

abbreviation eserver_conn ::
    "crypto \<Rightarrow> byte list \<Rightarrow> byte list \<Rightarrow> byte list \<Rightarrow> EncryptedServerSocket \<Rightarrow>
     byte list list \<Rightarrow> byte list list \<Rightarrow> bool" where
  "eserver_conn \<equiv> eserver_link Stays"

definition eclient_link ::
    "peer_end \<Rightarrow> crypto \<Rightarrow> byte list \<Rightarrow> byte list \<Rightarrow> byte list \<Rightarrow> EncryptedClientSocket \<Rightarrow>
     byte list list \<Rightarrow> byte list list \<Rightarrow> bool" where
  "eclient_link e cr key iv pre s ins outs \<longleftrightarrow>
     crypto_ok cr \<and> tags_fit cr ins \<and> ec_key s = Some key \<and> ec_iv s = iv \<and>
     kern_link e (cs_kern (ec_base s)) (sealed_all cr key iv ins) (pre @ sealed_all cr key iv outs)"

abbreviation eclient_conn ::
    "crypto \<Rightarrow> byte list \<Rightarrow> byte list \<Rightarrow> byte list \<Rightarrow> EncryptedClientSocket \<Rightarrow>
     byte list list \<Rightarrow> byte list list \<Rightarrow> bool" where
  "eclient_conn \<equiv> eclient_link Stays"

lemma EncryptedServerSocket_send_kern:
  assumes "crypto_ok cr" "kern_link e (ss_kern (es_base s)) i p" "length d < 2 ^ 64"
  shows "\<exists>b. EncryptedServerSocket_send cr d s = (True, s\<lparr>es_base := b\<rparr>) \<and>
    kern_link e (ss_kern b) i (p @ sealed cr (es_key s) (es_iv s) d)"
proof -
  let ?ct = "fst (seal cr (es_key s) (es_iv s) CIP_HEADER d)"
    and ?mac = "snd (seal cr (es_key s) (es_iv s) CIP_HEADER d)"
  have len: "length ?ct < 2 ^ 64" "length ?mac < 2 ^ 64"
    using crypto_okD [OF assms(1)] assms(3) by (simp_all add: MAC_LEN_def)
  obtain k1 where k1: "ServerSocket_send ?ct (es_base s) = (True, (es_base s)\<lparr>ss_kern := k1\<rparr>)"
      "kern_link e k1 i (p @ ?ct)"
    using ServerSocket_send_kern [OF assms(2) len(1)] by blast
  then have "kern_link e (ss_kern ((es_base s)\<lparr>ss_kern := k1\<rparr>)) i (p @ ?ct)" by simp
  from ServerSocket_send_kern [OF this len(2)]
  obtain k2 where k2: "ServerSocket_send ?mac ((es_base s)\<lparr>ss_kern := k1\<rparr>) =
        (True, (es_base s)\<lparr>ss_kern := k2\<rparr>)" "kern_link e k2 i ((p @ ?ct) @ ?mac)" by auto
  show ?thesis
    by (rule exI [of _ "(es_base s)\<lparr>ss_kern := k2\<rparr>"])
       (use k1(1) k2 in \<open>simp add: EncryptedServerSocket_send_def case_prod_beta Let_def sealed_def\<close>)
qed

text \<open>A block and a tag arrive, whatever they are: the buffer gets what \<open>DecryptAndVerify\<close> makes of them.\<close>

lemma EncryptedServerSocket_recv_block:
  assumes "kern_link e (ss_kern (es_base s)) (ct @ mac @ i) p" "length ct < 2 ^ 64" "length buf = length ct"
    and "length mac = MAC_LEN" "MAC_LEN \<le> usable cr (length ct)"
  shows "\<exists>b. EncryptedServerSocket_recv cr g buf s =
      (let (ok, pt) = unseal cr (es_key s) (es_iv s) CIP_HEADER ct mac in Inr (ok, pt, s\<lparr>es_base := b\<rparr>)) \<and>
    kern_link e (ss_kern b) i p"
proof -
  have mac: "length mac < 2 ^ 64" using assms(4) by (simp add: MAC_LEN_def)
  from ServerSocket_recv_kern [OF assms(1) _ assms(2), of "fresh_bytes g (length buf)"]
  obtain k1 where k1: "ServerSocket_recv (fresh_bytes g (length buf)) (es_base s) =
        (True, ct, (es_base s)\<lparr>ss_kern := k1\<rparr>)" "kern_link e k1 (mac @ i) p"
    using assms(3) by auto
  then have "kern_link e (ss_kern ((es_base s)\<lparr>ss_kern := k1\<rparr>)) (mac @ i) p" by simp
  from ServerSocket_recv_kern [OF this _ mac, of "fresh_bytes g MAC_LEN"]
  obtain k2 where k2: "ServerSocket_recv (fresh_bytes g MAC_LEN) ((es_base s)\<lparr>ss_kern := k1\<rparr>) =
        (True, mac, (es_base s)\<lparr>ss_kern := k2\<rparr>)" "kern_link e k2 i p" using assms(4) by auto
  show ?thesis
    by (rule exI [of _ "(es_base s)\<lparr>ss_kern := k2\<rparr>"])
       (use k1(1) k2 assms(3,5) in \<open>simp add: EncryptedServerSocket_recv_def case_prod_beta Let_def\<close>)
qed

lemma EncryptedServerSocket_recv_kern:
  assumes "crypto_ok cr" "kern_link e (ss_kern (es_base s)) (sealed cr (es_key s) (es_iv s) d @ i) p"
    and "length d < 2 ^ 64" "length buf = length d" "MAC_LEN \<le> usable cr (length d)"
  shows "\<exists>b. EncryptedServerSocket_recv cr g buf s = Inr (True, d, s\<lparr>es_base := b\<rparr>) \<and>
    kern_link e (ss_kern b) i p"
  using EncryptedServerSocket_recv_block [OF assms(2) [unfolded sealed_def append_assoc], of buf cr g] assms(3-5)
    crypto_okD [OF assms(1)] by simp

lemma EncryptedClientSocket_send_kern:
  assumes "crypto_ok cr" "ec_key s = Some key" "kern_link e (cs_kern (ec_base s)) i p" "length d < 2 ^ 64"
  shows "\<exists>b. EncryptedClientSocket_send cr d s = Inr (True, s\<lparr>ec_base := b\<rparr>) \<and>
    kern_link e (cs_kern b) i (p @ sealed cr key (ec_iv s) d)"
proof -
  let ?ct = "fst (seal cr key (ec_iv s) CIP_HEADER d)" and ?mac = "snd (seal cr key (ec_iv s) CIP_HEADER d)"
  have len: "length ?ct < 2 ^ 64" "length ?mac < 2 ^ 64"
    using crypto_okD [OF assms(1)] assms(4) by (simp_all add: MAC_LEN_def)
  obtain k1 where k1: "ClientSocket_send ?ct (ec_base s) = (True, (ec_base s)\<lparr>cs_kern := k1\<rparr>)"
      "kern_link e k1 i (p @ ?ct)"
    using ClientSocket_send_kern [OF assms(3) len(1)] by blast
  then have "kern_link e (cs_kern ((ec_base s)\<lparr>cs_kern := k1\<rparr>)) i (p @ ?ct)" by simp
  from ClientSocket_send_kern [OF this len(2)]
  obtain k2 where k2: "ClientSocket_send ?mac ((ec_base s)\<lparr>cs_kern := k1\<rparr>) =
        (True, (ec_base s)\<lparr>cs_kern := k2\<rparr>)" "kern_link e k2 i ((p @ ?ct) @ ?mac)" by auto
  show ?thesis
    by (rule exI [of _ "(ec_base s)\<lparr>cs_kern := k2\<rparr>"])
       (use k1(1) k2 assms(2) in
         \<open>simp add: EncryptedClientSocket_send_def case_prod_beta Let_def sealed_def\<close>)
qed

lemma EncryptedClientSocket_recv_block:
  assumes "ec_key s = Some key" "kern_link e (cs_kern (ec_base s)) (ct @ mac @ i) p" "length ct < 2 ^ 64"
    and "length buf = length ct" "length mac = MAC_LEN" "MAC_LEN \<le> usable cr (length ct)"
  shows "\<exists>b. EncryptedClientSocket_recv cr g buf s =
      (let (ok, pt) = unseal cr key (ec_iv s) CIP_HEADER ct mac in Inr (ok, pt, s\<lparr>ec_base := b\<rparr>)) \<and>
    kern_link e (cs_kern b) i p"
proof -
  have mac: "length mac < 2 ^ 64" using assms(5) by (simp add: MAC_LEN_def)
  from ClientSocket_recv_kern [OF assms(2) _ assms(3), of "fresh_bytes g (length buf)"]
  obtain k1 where k1: "ClientSocket_recv (fresh_bytes g (length buf)) (ec_base s) =
        Inr (True, ct, (ec_base s)\<lparr>cs_kern := k1\<rparr>)" "kern_link e k1 (mac @ i) p"
    using assms(4) by auto
  then have "kern_link e (cs_kern ((ec_base s)\<lparr>cs_kern := k1\<rparr>)) (mac @ i) p" by simp
  from ClientSocket_recv_kern [OF this _ mac, of "fresh_bytes g MAC_LEN"]
  obtain k2 where k2: "ClientSocket_recv (fresh_bytes g MAC_LEN) ((ec_base s)\<lparr>cs_kern := k1\<rparr>) =
        Inr (True, mac, (ec_base s)\<lparr>cs_kern := k2\<rparr>)" "kern_link e k2 i p" using assms(5) by auto
  show ?thesis
    by (rule exI [of _ "(ec_base s)\<lparr>cs_kern := k2\<rparr>"])
       (use k1(1) k2 assms(1,4,6) in \<open>simp add: EncryptedClientSocket_recv_def case_prod_beta Let_def\<close>)
qed

lemma EncryptedClientSocket_recv_kern:
  assumes "crypto_ok cr" "ec_key s = Some key" "kern_link e (cs_kern (ec_base s)) (sealed cr key (ec_iv s) d @ i) p"
    and "length d < 2 ^ 64" "length buf = length d" "MAC_LEN \<le> usable cr (length d)"
  shows "\<exists>b. EncryptedClientSocket_recv cr g buf s = Inr (True, d, s\<lparr>ec_base := b\<rparr>) \<and>
    kern_link e (cs_kern b) i p"
  using EncryptedClientSocket_recv_block [OF assms(2) assms(3) [unfolded sealed_def append_assoc], of buf cr g] assms(4-6)
    crypto_okD [OF assms(1)] by simp

lemma eserver_link_frame: "frame_socket (eserver_ops cr g) (eserver_link e cr key iv pre)"
proof
  fix s ins outs and d :: "byte list"
  assume "eserver_link e cr key iv pre s ins outs" "length d < 2 ^ 64"
  then show "\<exists>s'. vsend (eserver_ops cr g) d s = Inr (True, s') \<and>
      eserver_link e cr key iv pre s' ins (outs @ [d])"
    using EncryptedServerSocket_send_kern [of cr e s "sealed_all cr key iv ins"
        "pre @ sealed_all cr key iv outs" d]
    by (auto simp: eserver_link_def eserver_ops_def kern_link_def)
next
  fix s f ins outs and buf :: "byte list"
  assume "eserver_link e cr key iv pre s (f # ins) outs" "length buf = length f" "length f < 2 ^ 64"
  then show "\<exists>ok s'. vrecv (eserver_ops cr g) buf s = Inr (ok, f, s') \<and>
      eserver_link e cr key iv pre s' ins outs"
    using EncryptedServerSocket_recv_kern [of cr e s f "sealed_all cr key iv ins"
        "pre @ sealed_all cr key iv outs" buf g]
    by (auto simp: eserver_link_def eserver_ops_def tags_fit_def)
qed

interpretation eserver_sock: eof_socket "eserver_ops cr g" "eserver_conn cr key iv pre"
proof (intro eof_socket.intro eserver_link_frame eof_socket_axioms.intro)
  fix s outs and buf :: "byte list"
  assume c: "eserver_conn cr key iv pre s [] outs" "buf \<noteq> []" "length buf < 2 ^ 64"
  then have "ServerSocket_recv (fresh_bytes g (length buf)) (es_base s) =
      (False, fresh_bytes g (length buf), es_base s)"
    by (intro ServerSocket_recv_kern_eof [where p = "pre @ sealed_all cr key iv outs"])
       (simp_all add: eserver_link_def flip: length_greater_0_conv)
  then show "vrecv (eserver_ops cr g) buf s = Inr (False, buf, s)"
    by (simp add: eserver_ops_def EncryptedServerSocket_recv_def)
qed

text \<open>The other side is gone.\<close>

definition eserver_gone :: "crypto \<Rightarrow> nat \<Rightarrow> EncryptedServerSocket \<Rightarrow> bool" where
  "eserver_gone cr n s \<longleftrightarrow> crypto_ok cr \<and> kern_gone n (ss_kern (es_base s))"

lemma EncryptedServerSocket_recv_eof:
  assumes "ServerSocket_recv (fresh_bytes g (length buf)) (es_base s) = (False, fresh_bytes g (length buf), b)"
  shows "EncryptedServerSocket_recv cr g buf s = Inr (False, buf, s\<lparr>es_base := b\<rparr>)"
  using assms by (simp add: EncryptedServerSocket_recv_def)

lemma EncryptedServerSocket_send_gone:
  assumes "crypto_ok cr" "kern_gone n (ss_kern (es_base s))" "length d < 2 ^ 64"
  obtains "killed (ss_kern (es_base (snd (EncryptedServerSocket_send cr d s))))"
  | b m where "EncryptedServerSocket_send cr d s = (True, s\<lparr>es_base := b\<rparr>)" "kern_gone m (ss_kern b)" "m < n"
proof -
  let ?ct = "fst (seal cr (es_key s) (es_iv s) CIP_HEADER d)"
    and ?mac = "snd (seal cr (es_key s) (es_iv s) CIP_HEADER d)"
  have len: "length ?ct < 2 ^ 64" "length ?mac < 2 ^ 64" "?mac \<noteq> []"
    using crypto_okD [OF assms(1)] assms(3) by (simp_all add: MAC_LEN_def flip: length_greater_0_conv)
  from assms(2) len(1) show ?thesis
  proof (cases rule: ServerSocket_send_kern_gone)
    case 1
    then have "killed (ss_kern (snd (ServerSocket_send ?mac (snd (ServerSocket_send ?ct (es_base s))))))"
      by (rule ServerSocket_send_killed)
    then show ?thesis using that(1) by (simp add: EncryptedServerSocket_send_def case_prod_beta Let_def)
  next
    case (2 k1 m1)
    let ?b = "(es_base s)\<lparr>ss_kern := k1\<rparr>"
    have "kern_gone m1 (ss_kern ?b)" using 2(2) by simp
    from this len(2) show ?thesis
    proof (cases rule: ServerSocket_send_kern_gone)
      case 1
      then show ?thesis using that(1) 2(1) by (simp add: EncryptedServerSocket_send_def case_prod_beta Let_def)
    next
      case (2 k2 m2)
      show ?thesis
        by (rule that(2) [of "(es_base s)\<lparr>ss_kern := k2\<rparr>" m2])
          (use \<open>ServerSocket_send ?ct (es_base s) = _\<close> \<open>m1 \<le> n\<close> 2 len(3) in
            \<open>simp_all add: EncryptedServerSocket_send_def case_prod_beta Let_def\<close>)
    qed
  qed
qed

interpretation eserver_closed: closed_socket "eserver_ops cr g" "eserver_link (Leaving n) cr key iv pre" "eserver_gone cr"
proof (intro closed_socket.intro eserver_link_frame closed_socket_axioms.intro)
  fix s outs and buf :: "byte list"
  assume c: "eserver_link (Leaving n) cr key iv pre s [] outs" "buf \<noteq> []" "length buf < 2 ^ 64"
  then have "kern_link (Leaving n) (ss_kern (es_base s)) [] (pre @ sealed_all cr key iv outs)"
      "fresh_bytes g (length buf) \<noteq> []" "length (fresh_bytes g (length buf)) < 2 ^ 64"
    by (simp_all add: eserver_link_def flip: length_greater_0_conv)
  then show "\<exists>m s'. vrecv (eserver_ops cr g) buf s = Inr (False, buf, s') \<and> eserver_gone cr m s'"
    by (cases rule: ServerSocket_recv_kern_leaving)
      (use c(1) EncryptedServerSocket_recv_eof in \<open>fastforce simp: eserver_ops_def eserver_gone_def eserver_link_def\<close>)
next
  fix m s and buf :: "byte list"
  assume c: "eserver_gone cr m s" "buf \<noteq> []" "length buf < 2 ^ 64"
  then have "ServerSocket_recv (fresh_bytes g (length buf)) (es_base s) = (False, fresh_bytes g (length buf), es_base s)"
    by (intro ServerSocket_recv_kern_gone [where n = m]) (simp_all add: eserver_gone_def flip: length_greater_0_conv)
  from EncryptedServerSocket_recv_eof [OF this] show "vrecv (eserver_ops cr g) buf s = Inr (False, buf, s)"
    by (simp add: eserver_ops_def)
next
  fix m s and d :: "byte list"
  assume "eserver_gone cr m s" "length d < 2 ^ 64"
  then have "crypto_ok cr" "kern_gone m (ss_kern (es_base s))" "length d < 2 ^ 64" by (simp_all add: eserver_gone_def)
  then show "vsend (eserver_ops cr g) d s = Inl Killed_by_SIGPIPE \<or>
      (\<exists>j s'. vsend (eserver_ops cr g) d s = Inr (True, s') \<and> eserver_gone cr j s' \<and> j \<le> m \<and> (d \<noteq> [] \<longrightarrow> j < m))"
  proof (cases rule: EncryptedServerSocket_send_gone)
    case 1
    then show ?thesis by (simp add: eserver_ops_def case_prod_beta)
  next
    case (2 b j)
    then show ?thesis using \<open>crypto_ok cr\<close> by (force simp: eserver_ops_def eserver_gone_def kern_gone_def)
  qed
qed

lemma eclient_link_frame: "frame_socket (eclient_ops cr g env) (eclient_link e cr key iv pre)"
proof
  fix s ins outs and d :: "byte list"
  assume "eclient_link e cr key iv pre s ins outs" "length d < 2 ^ 64"
  then show "\<exists>s'. vsend (eclient_ops cr g env) d s = Inr (True, s') \<and>
      eclient_link e cr key iv pre s' ins (outs @ [d])"
    using EncryptedClientSocket_send_kern [of cr s key e "sealed_all cr key iv ins"
        "pre @ sealed_all cr key iv outs" d]
    by (auto simp: eclient_link_def eclient_ops_def kern_link_def)
next
  fix s f ins outs and buf :: "byte list"
  assume "eclient_link e cr key iv pre s (f # ins) outs" "length buf = length f" "length f < 2 ^ 64"
  then show "\<exists>ok s'. vrecv (eclient_ops cr g env) buf s = Inr (ok, f, s') \<and>
      eclient_link e cr key iv pre s' ins outs"
    using EncryptedClientSocket_recv_kern [of cr s key e f "sealed_all cr key iv ins"
        "pre @ sealed_all cr key iv outs" buf g]
    by (auto simp: eclient_link_def eclient_ops_def tags_fit_def)
qed

interpretation eclient_sock: frame_socket "eclient_ops cr g env" "eclient_conn cr key iv pre"
  by (rule eclient_link_frame)

end
