(* ===== verification/Common_Types.thy ===== *)
theory Common_Types
  imports Bytes "HOL-Library.Product_Lexorder"
begin

text \<open>
  The types of \<open>include/common.hpp\<close>: the protocol version, a client of the index, the
  association of a client with an RFC, and the two message enumerations.  An \<open>enum class\<close>
  without a fixed underlying type is an \<open>int\<close>, and a value cast to it may be any \<open>int\<close>: the
  handlers therefore dispatch on the 32-bit word and compare it with the enumerators' values.
  Both structures are ordered as \<open>compare_rfc_holders\<close> of \<open>src/central_index.cpp\<close> orders them.
\<close>

section \<open>Structures and enumerations\<close>

definition PROTOCOL_VERSION :: u32 where "PROTOCOL_VERSION = 1"

record Client =
  host :: string
  port :: u32

record RFCHolder =
  rfc :: u32
  peer :: Client

datatype P2SMessage = P2S_HELLO | P2S_ADD | P2S_LIST | P2S_LOOKUP | P2S_DISCONNECT

datatype P2PMessage = P2P_HELLO | P2P_GET | P2P_DISCONNECT

primrec P2SMessage_int :: "P2SMessage \<Rightarrow> u32" where
  "P2SMessage_int P2S_HELLO = 0"
| "P2SMessage_int P2S_ADD = 1"
| "P2SMessage_int P2S_LIST = 2"
| "P2SMessage_int P2S_LOOKUP = 3"
| "P2SMessage_int P2S_DISCONNECT = 4"

primrec P2PMessage_int :: "P2PMessage \<Rightarrow> u32" where
  "P2PMessage_int P2P_HELLO = 0"
| "P2PMessage_int P2P_GET = 1"
| "P2PMessage_int P2P_DISCONNECT = 2"

lemma P2SMessage_int_inj [simp]: "P2SMessage_int a = P2SMessage_int b \<longleftrightarrow> a = b"
  by (cases a; cases b) simp_all

lemma P2PMessage_int_inj [simp]: "P2PMessage_int a = P2PMessage_int b \<longleftrightarrow> a = b"
  by (cases a; cases b) simp_all

section \<open>Orders\<close>

text \<open>
  A client is ordered by its host (\<open>std::string::operator<\<close>: bytewise, as unsigned characters)
  and then by its port (a signed comparison).
\<close>

instantiation Client_ext :: (linorder) linorder
begin

definition less_eq_Client_ext :: "'a Client_scheme \<Rightarrow> 'a Client_scheme \<Rightarrow> bool" where
  "less_eq_Client_ext a b \<longleftrightarrow>
     (host a, sint (port a), Client.more a) \<le> (host b, sint (port b), Client.more b)"

definition less_Client_ext :: "'a Client_scheme \<Rightarrow> 'a Client_scheme \<Rightarrow> bool" where
  "less_Client_ext a b \<longleftrightarrow>
     (host a, sint (port a), Client.more a) < (host b, sint (port b), Client.more b)"

instance
proof
  fix x y z :: "'a Client_scheme"
  show "(x < y) = (x \<le> y \<and> \<not> y \<le> x)"
    unfolding less_eq_Client_ext_def less_Client_ext_def by (rule less_le_not_le)
  show "x \<le> x" unfolding less_eq_Client_ext_def by simp
  show "x \<le> y \<Longrightarrow> y \<le> z \<Longrightarrow> x \<le> z"
    unfolding less_eq_Client_ext_def by (rule order_trans)
  show "x \<le> y \<or> y \<le> x" unfolding less_eq_Client_ext_def by (rule linear)
  assume "x \<le> y" "y \<le> x"
  then have "(host x, sint (port x), Client.more x) = (host y, sint (port y), Client.more y)"
    unfolding less_eq_Client_ext_def by (rule antisym)
  then show "x = y" by (cases x, cases y) (simp add: signed_word_eqI)
qed

end

instantiation RFCHolder_ext :: (linorder) linorder
begin

definition less_eq_RFCHolder_ext :: "'a RFCHolder_scheme \<Rightarrow> 'a RFCHolder_scheme \<Rightarrow> bool" where
  "less_eq_RFCHolder_ext a b \<longleftrightarrow>
     (sint (rfc a), peer a, RFCHolder.more a) \<le> (sint (rfc b), peer b, RFCHolder.more b)"

definition less_RFCHolder_ext :: "'a RFCHolder_scheme \<Rightarrow> 'a RFCHolder_scheme \<Rightarrow> bool" where
  "less_RFCHolder_ext a b \<longleftrightarrow>
     (sint (rfc a), peer a, RFCHolder.more a) < (sint (rfc b), peer b, RFCHolder.more b)"

instance
proof
  fix x y z :: "'a RFCHolder_scheme"
  show "(x < y) = (x \<le> y \<and> \<not> y \<le> x)"
    unfolding less_eq_RFCHolder_ext_def less_RFCHolder_ext_def by (rule less_le_not_le)
  show "x \<le> x" unfolding less_eq_RFCHolder_ext_def by simp
  show "x \<le> y \<Longrightarrow> y \<le> z \<Longrightarrow> x \<le> z"
    unfolding less_eq_RFCHolder_ext_def by (rule order_trans)
  show "x \<le> y \<or> y \<le> x" unfolding less_eq_RFCHolder_ext_def by (rule linear)
  assume "x \<le> y" "y \<le> x"
  then have "(sint (rfc x), peer x, RFCHolder.more x) = (sint (rfc y), peer y, RFCHolder.more y)"
    unfolding less_eq_RFCHolder_ext_def by (rule antisym)
  then show "x = y" by (cases x, cases y) (simp add: signed_word_eqI)
qed

end

lemma Client_less_iff:
  "(a :: Client) < b \<longleftrightarrow> host a < host b \<or> (host a = host b \<and> sint (port a) < sint (port b))"
  by (auto simp: less_Client_ext_def)

lemma RFCHolder_less_iff:
  "(a :: RFCHolder) < b \<longleftrightarrow>
     sint (rfc a) < sint (rfc b) \<or> (rfc a = rfc b \<and> peer a < peer b)"
  by (auto simp: less_RFCHolder_ext_def signed_word_eqI)

end
