(* ===== verification/Handler_Common.thy ===== *)
theory Handler_Common
  imports Encrypted_Sockets Common_Types
begin

text \<open>
  What the handlers of the index server and of the peers share: reading a client's host and port,
  sending a message after its size, and the meaning of a loop that never ends.
\<close>

section \<open>Programs\<close>

text \<open>The size is an \<open>int\<close> when it is sent and again when it is passed to \<open>send\<close>.\<close>

definition send_with_size ::
    "'s sock_ops \<Rightarrow> u32 \<Rightarrow> bytes_ptr \<Rightarrow> 's \<Rightarrow> 's result" where
  "send_with_size ops sz buf s =
     (let tmp = htonl sz
      in bnd (send_int ops tmp s) (\<lambda>s.
         let tmp = ntohl tmp in send_ptr ops buf (size_of_int tmp) s))"

text \<open>\<open>None\<close> of the loop is that it never ends.\<close>

definition run_loop :: "'a result option \<Rightarrow> 'a result" where
  "run_loop r = (case r of None \<Rightarrow> Inl Diverges | Some x \<Rightarrow> x)"

text \<open>
  Host and port of a client, as both handlers of the program read them: the length, an array of one
  byte more on the stack, the bytes, a NUL after them.
\<close>

definition recv_identity :: "'s sock_ops \<Rightarrow> (nat \<Rightarrow> byte) \<Rightarrow> 's \<Rightarrow> (string \<times> u32 \<times> 's) result" where
  "recv_identity ops g s =
     bnd (recv_int ops (load32 (fresh_bytes g 4)) s) (\<lambda>(host_len, s).
     let host_len = ntohl host_len in
     bnd (int_inc host_len) (\<lambda>n.
     bnd (vla_int n) (\<lambda>_.
     bnd (recv_bytes ops (fresh_bytes g (size_of_int host_len)) s) (\<lambda>(host_c, s).
     let hostname = c_string (bytes_string host_c) in
     bnd (recv_int ops (load32 (fresh_bytes g 4)) s) (\<lambda>(upload_port, s).
     let upload_port = ntohl upload_port in
     Inr (hostname, upload_port, s))))))"

section \<open>Over a socket that meets the contract\<close>

text \<open>Host and port as a client sends them.\<close>

definition identity_blocks :: "string \<Rightarrow> u32 \<Rightarrow> byte list list" where
  "identity_blocks h p = [wire32 (ulen h), string_bytes h, wire32 p]"

lemma sint_inc_neg: "sint (n :: u32) < 0 \<Longrightarrow> sint (n + 1) \<le> 0"
  using signed_take_bit_int_less_exp [of 31 "sint n + 1"] sint_greater_eq [of n]
  by (simp add: sint_word_ariths signed_take_bit_int_eq_self)

context frame_socket
begin

lemma send_with_size_conn:
  assumes "conn s ins outs" "length b + 1 < 2 ^ 31"
  shows "\<exists>s'. send_with_size ops (ulen b) (Bytes b) s = Inr s' \<and>
    conn s' ins (outs @ [wire32 (ulen b), b])"
proof -
  obtain s1 where s1: "send_int ops (htonl (ulen b)) s = Inr s1" "conn s1 ins (outs @ [wire32 (ulen b)])"
    using send_int_conn [OF assms(1)] by blast
  have "length b < 2 ^ 64" using assms(2) by simp
  from send_bytes_conn [OF s1(2) this] s1(1) show ?thesis
    by (auto simp: send_with_size_def length_steps [OF assms(2)])
qed

lemma recv_identity_conn:
  assumes "conn s (wire32 (ulen h) # string_bytes h # wire32 p # ins) outs"
    and "nul \<notin> set h" "length h + 1 < 2 ^ 31"
  shows "\<exists>s'. recv_identity ops g s = Inr (h, p, s') \<and> conn s' ins outs"
proof -
  obtain s1 where s1: "recv_int ops (load32 (fresh_bytes g 4)) s = Inr (htonl (ulen h), s1)"
      "conn s1 (string_bytes h # wire32 p # ins) outs"
    using recv_int_conn [OF assms(1)] by blast
  obtain s2 where s2: "recv_bytes ops (fresh_bytes g (length h)) s1 = Inr (string_bytes h, s2)"
      "conn s2 (wire32 p # ins) outs"
    using recv_bytes_conn [OF s1(2), of "fresh_bytes g (length h)"] assms(3) by auto
  obtain s3 where s3: "recv_int ops (load32 (fresh_bytes g 4)) s2 = Inr (htonl p, s3)" "conn s3 ins outs"
    using recv_int_conn [OF s2(2)] by blast
  show ?thesis
    using s1(1) s2(1) s3 length_steps [OF assms(3)] assms(2)
    by (simp add: recv_identity_def c_string_id)
qed

text \<open>A host length below zero is the bound of an array on the stack.\<close>

lemma recv_identity_negative:
  assumes "conn s (wire32 n # ins) outs" "sint n < 0"
  shows "recv_identity ops g s = Inl Undefined_Behaviour"
proof -
  from recv_int_conn [OF assms(1), of "load32 (fresh_bytes g 4)"]
  obtain s1 where "recv_int ops (load32 (fresh_bytes g 4)) s = Inr (htonl n, s1)" by blast
  then show ?thesis
    using assms(2) sint_inc_neg [OF assms(2)] by (simp add: recv_identity_def int_inc_def vla_int_def)
qed

end

text \<open>The size is four bytes, so a message brings the end nearer even if it is empty.\<close>

context closed_socket
begin

lemma send_with_size_gone:
  assumes "is_gone n s" "length b + 1 < 2 ^ 31"
  obtains "send_with_size ops (ulen b) (Bytes b) s = Inl Killed_by_SIGPIPE"
  | m s' where "send_with_size ops (ulen b) (Bytes b) s = Inr s'" "is_gone m s'" "m < n"
proof -
  note steps = send_with_size_def send_int_def length_steps [OF assms(2)]
  have len: "length (store32 (htonl (ulen b))) < 2 ^ 64" "length b < 2 ^ 64" using assms(2) by simp_all
  from assms(1) len(1) show ?thesis
  proof (cases rule: send_bytes_gone)
    case 1
    with that(1) show ?thesis by (simp add: steps)
  next
    case (2 m s1)
    have m: "m < n" using 2(4) by (simp flip: length_greater_0_conv)
    from 2(2) len(2) show ?thesis
    proof (cases rule: send_bytes_gone)
      case 1
      with that(1) 2(1) show ?thesis by (simp add: steps)
    next
      case (2 m' s2)
      with m show ?thesis using that(2) [of s2 m'] \<open>send_bytes ops (store32 (htonl (ulen b))) s = Inr s1\<close>
        by (simp add: steps)
    qed
  qed
qed

end

end
