(* ===== verification/Central_Index.thy ===== *)
theory Central_Index
  imports Common_Types
begin

text \<open>
  \<open>CentralIndex\<close> (\<open>src/central_index.cpp\<close>): the static lists of connected clients and of RFC
  holders, and the five operations on them.  Each operation is modelled as one atomic step here;
  the theory \<open>Central_Index_Steps\<close> takes \<open>remove_client\<close> apart into its two critical sections
  and lets sessions interleave.

  The abstract view of an index is a set of clients and a relation between RFC numbers and
  clients; the lists refine it.
\<close>

section \<open>State and operations\<close>

record CentralIndex =
  clients :: "Client list"
  rfcs :: "RFCHolder list"

definition CentralIndex_empty :: CentralIndex where
  "CentralIndex_empty = \<lparr>clients = [], rfcs = []\<rparr>"

definition compare_rfc_holders :: "RFCHolder \<Rightarrow> RFCHolder \<Rightarrow> bool" where
  "compare_rfc_holders first second =
     (if rfc first \<noteq> rfc second then sint (rfc first) < sint (rfc second)
      else if host (peer first) \<noteq> host (peer second) then host (peer first) < host (peer second)
      else sint (port (peer first)) < sint (port (peer second)))"

text \<open>The test \<open>c.host == hostname && c.port == upload_port\<close> of the loops.\<close>

definition is_client :: "string \<Rightarrow> u32 \<Rightarrow> Client \<Rightarrow> bool" where
  "is_client hostname upload_port c \<longleftrightarrow> host c = hostname \<and> port c = upload_port"

fun has_client :: "string \<Rightarrow> u32 \<Rightarrow> Client list \<Rightarrow> bool" where
  "has_client hostname upload_port [] = False"
| "has_client hostname upload_port (client # cs) =
     (if is_client hostname upload_port client then True else has_client hostname upload_port cs)"

definition add_client :: "string \<Rightarrow> u32 \<Rightarrow> CentralIndex \<Rightarrow> bool \<times> CentralIndex" where
  "add_client hostname upload_port ci =
     (if has_client hostname upload_port (clients ci) then (False, ci)
      else (True, ci\<lparr>clients := clients ci @ [\<lparr>host = hostname, port = upload_port\<rparr>]\<rparr>))"

text \<open>The first loop of \<open>remove_client\<close> erases every holder of the client.\<close>

fun erase_holders :: "string \<Rightarrow> u32 \<Rightarrow> RFCHolder list \<Rightarrow> RFCHolder list" where
  "erase_holders hostname upload_port [] = []"
| "erase_holders hostname upload_port (it # its) =
     (if is_client hostname upload_port (peer it) then erase_holders hostname upload_port its
      else it # erase_holders hostname upload_port its)"

text \<open>Its second loop erases the first matching client and leaves the loop.\<close>

fun erase_client :: "string \<Rightarrow> u32 \<Rightarrow> Client list \<Rightarrow> Client list" where
  "erase_client hostname upload_port [] = []"
| "erase_client hostname upload_port (it # its) =
     (if is_client hostname upload_port it then its
      else it # erase_client hostname upload_port its)"

definition remove_client_rfcs :: "string \<Rightarrow> u32 \<Rightarrow> CentralIndex \<Rightarrow> CentralIndex" where
  "remove_client_rfcs hostname upload_port ci =
     ci\<lparr>rfcs := erase_holders hostname upload_port (rfcs ci)\<rparr>"

definition remove_client_entry :: "string \<Rightarrow> u32 \<Rightarrow> CentralIndex \<Rightarrow> CentralIndex" where
  "remove_client_entry hostname upload_port ci =
     ci\<lparr>clients := erase_client hostname upload_port (clients ci)\<rparr>"

definition remove_client :: "string \<Rightarrow> u32 \<Rightarrow> CentralIndex \<Rightarrow> bool \<times> CentralIndex" where
  "remove_client hostname upload_port ci =
     (let ci = remove_client_rfcs hostname upload_port ci;
          ci = remove_client_entry hostname upload_port ci
      in (False, ci))"

fun has_holder :: "string \<Rightarrow> u32 \<Rightarrow> u32 \<Rightarrow> RFCHolder list \<Rightarrow> bool" where
  "has_holder hostname upload_port number [] = False"
| "has_holder hostname upload_port number (r # rs) =
     (if rfc r = number \<and> is_client hostname upload_port (peer r) then True
      else has_holder hostname upload_port number rs)"

fun find_client :: "string \<Rightarrow> u32 \<Rightarrow> Client list \<Rightarrow> Client option" where
  "find_client hostname upload_port [] = None"
| "find_client hostname upload_port (it # its) =
     (if is_client hostname upload_port it then Some it
      else find_client hostname upload_port its)"

definition add_rfc :: "string \<Rightarrow> u32 \<Rightarrow> u32 \<Rightarrow> CentralIndex \<Rightarrow> bool \<times> CentralIndex" where
  "add_rfc hostname upload_port number ci =
     (if has_holder hostname upload_port number (rfcs ci) then (False, ci)
      else case find_client hostname upload_port (clients ci) of
          None \<Rightarrow> (False, ci)
        | Some p \<Rightarrow>
            let r = \<lparr>rfc = number, peer = p\<rparr>
            in (True, ci\<lparr>rfcs := cpp_sort compare_rfc_holders (rfcs ci @ [r])\<rparr>))"

fun collect_peers :: "u32 \<Rightarrow> RFCHolder list \<Rightarrow> Client list" where
  "collect_peers number [] = []"
| "collect_peers number (it # its) =
     (if rfc it = number then peer it # collect_peers number its else collect_peers number its)"

definition find_rfcs :: "u32 \<Rightarrow> CentralIndex \<Rightarrow> Client list" where
  "find_rfcs number ci = collect_peers number (rfcs ci)"

definition all_rfcs :: "CentralIndex \<Rightarrow> RFCHolder list" where
  "all_rfcs ci = rfcs ci"

section \<open>What the loops compute\<close>

lemma is_client_iff: "is_client h p c \<longleftrightarrow> c = \<lparr>host = h, port = p\<rparr>"
  by (cases c) (auto simp: is_client_def)

lemma has_client_iff [index_simps]: "has_client h p cs \<longleftrightarrow> \<lparr>host = h, port = p\<rparr> \<in> set cs"
  by (induction cs) (auto simp: is_client_iff)

lemma erase_holders_eq [index_simps]:
  "erase_holders h p rs = filter (\<lambda>r. peer r \<noteq> \<lparr>host = h, port = p\<rparr>) rs"
  by (induction rs) (auto simp: is_client_iff)

lemma erase_client_eq [index_simps]: "erase_client h p cs = remove1 \<lparr>host = h, port = p\<rparr> cs"
  by (induction cs) (auto simp: is_client_iff)

lemma has_holder_iff [index_simps]:
  "has_holder h p n rs \<longleftrightarrow> \<lparr>rfc = n, peer = \<lparr>host = h, port = p\<rparr>\<rparr> \<in> set rs"
proof (induction rs)
  case Nil
  then show ?case by simp
next
  case (Cons r rs)
  then show ?case by (cases r) (auto simp: is_client_iff)
qed

lemma find_client_eq [index_simps]:
  "find_client h p cs =
     (if \<lparr>host = h, port = p\<rparr> \<in> set cs then Some \<lparr>host = h, port = p\<rparr> else None)"
  by (induction cs) (auto simp: is_client_iff)

lemma collect_peers_eq [index_simps]:
  "collect_peers n rs = map peer (filter (\<lambda>r. rfc r = n) rs)"
  by (induction rs) auto

section \<open>The comparator\<close>

lemma compare_rfc_holders_less: "compare_rfc_holders a b \<longleftrightarrow> a < b"
  by (auto simp: compare_rfc_holders_def RFCHolder_less_iff Client_less_iff signed_word_eqI)

lemma compare_rfc_holders_eq: "compare_rfc_holders = (<)"
  by (intro ext) (rule compare_rfc_holders_less)

text \<open>\<open>compare_rfc_holders\<close> satisfies what \<open>std::list::sort\<close> requires, and is even total.\<close>

interpretation holder_order: strict_total_order compare_rfc_holders
proof
  fix x y z :: RFCHolder
  show "\<not> compare_rfc_holders x x" by (simp add: compare_rfc_holders_less)
  show "compare_rfc_holders x y \<Longrightarrow> compare_rfc_holders y z \<Longrightarrow> compare_rfc_holders x z"
    by (simp add: compare_rfc_holders_less)
  show "\<not> compare_rfc_holders x y \<Longrightarrow> \<not> compare_rfc_holders y z \<Longrightarrow> \<not> compare_rfc_holders x z"
    by (simp add: compare_rfc_holders_less)
  show "compare_rfc_holders x y \<or> x = y \<or> compare_rfc_holders y x"
    by (auto simp: compare_rfc_holders_less)
qed

section \<open>Well-formed indexes\<close>

text \<open>
  No client and no holder occurs twice, the holders are strictly sorted, and every holder's peer
  is a connected client.
\<close>

definition lists_wf :: "CentralIndex \<Rightarrow> bool" where
  "lists_wf ci \<longleftrightarrow> distinct (clients ci) \<and> sorted_wrt compare_rfc_holders (rfcs ci)"

definition holders_connected :: "CentralIndex \<Rightarrow> bool" where
  "holders_connected ci \<longleftrightarrow> peer ` set (rfcs ci) \<subseteq> set (clients ci)"

definition index_wf :: "CentralIndex \<Rightarrow> bool" where
  "index_wf ci \<longleftrightarrow> lists_wf ci \<and> holders_connected ci"

lemma index_wf_empty: "index_wf CentralIndex_empty"
  by (simp add: index_wf_def lists_wf_def holders_connected_def CentralIndex_empty_def)

lemma lists_wf_distinct: "lists_wf ci \<Longrightarrow> distinct (rfcs ci)"
  by (simp add: lists_wf_def holder_order.sorted_strict_distinct)

lemma lists_wf_add_client: "lists_wf ci \<Longrightarrow> lists_wf (snd (add_client h p ci))"
  by (auto simp: add_client_def lists_wf_def index_simps)

lemma lists_wf_remove_rfcs: "lists_wf ci \<Longrightarrow> lists_wf (remove_client_rfcs h p ci)"
  by (simp add: remove_client_rfcs_def lists_wf_def index_simps sorted_wrt_filter_keep)

lemma lists_wf_remove_entry: "lists_wf ci \<Longrightarrow> lists_wf (remove_client_entry h p ci)"
  by (simp add: remove_client_entry_def lists_wf_def index_simps)

lemma lists_wf_add_rfc: "lists_wf ci \<Longrightarrow> lists_wf (snd (add_rfc h p n ci))"
proof -
  assume wf: "lists_wf ci"
  let ?r = "\<lparr>rfc = n, peer = \<lparr>host = h, port = p\<rparr>\<rparr>"
  have "?r \<notin> set (rfcs ci) \<Longrightarrow>
      sorted_wrt compare_rfc_holders (cpp_sort compare_rfc_holders (rfcs ci @ [?r]))"
    using lists_wf_distinct [OF wf] by (intro holder_order.cpp_sort_strict) simp
  with wf show ?thesis
    by (auto simp: add_rfc_def lists_wf_def index_simps Let_def)
qed

lemma index_wf_add_client: "index_wf ci \<Longrightarrow> index_wf (snd (add_client h p ci))"
  using lists_wf_add_client [of ci h p]
  by (auto simp: index_wf_def holders_connected_def add_client_def)

lemma index_wf_add_rfc: "index_wf ci \<Longrightarrow> index_wf (snd (add_rfc h p n ci))"
  using lists_wf_add_rfc [of ci h p n]
  by (auto simp: index_wf_def holders_connected_def add_rfc_def index_simps Let_def)

lemma index_wf_remove_client: "index_wf ci \<Longrightarrow> index_wf (snd (remove_client h p ci))"
proof -
  assume wf: "index_wf ci"
  then have "lists_wf (snd (remove_client h p ci))"
    by (simp add: index_wf_def remove_client_def Let_def lists_wf_remove_rfcs
        lists_wf_remove_entry)
  with wf show ?thesis
    by (auto simp: index_wf_def holders_connected_def remove_client_def Let_def lists_wf_def
        remove_client_rfcs_def remove_client_entry_def index_simps)
qed

section \<open>The abstract index\<close>

record abstract_index =
  connected :: "Client set"
  holds :: "(u32 \<times> Client) set"

definition abs_index :: "CentralIndex \<Rightarrow> abstract_index" where
  "abs_index ci =
     \<lparr>connected = set (clients ci), holds = (\<lambda>r. (rfc r, peer r)) ` set (rfcs ci)\<rparr>"

definition abs_connect :: "Client \<Rightarrow> abstract_index \<Rightarrow> abstract_index" where
  "abs_connect c a = a\<lparr>connected := insert c (connected a)\<rparr>"

definition abs_disconnect :: "Client \<Rightarrow> abstract_index \<Rightarrow> abstract_index" where
  "abs_disconnect c a =
     \<lparr>connected = connected a - {c}, holds = {(n, d) \<in> holds a. d \<noteq> c}\<rparr>"

definition abs_offer :: "u32 \<Rightarrow> Client \<Rightarrow> abstract_index \<Rightarrow> abstract_index" where
  "abs_offer n c a = (if c \<in> connected a then a\<lparr>holds := insert (n, c) (holds a)\<rparr> else a)"

lemma abs_index_mem_iff: "(n, c) \<in> holds (abs_index ci) \<longleftrightarrow> \<lparr>rfc = n, peer = c\<rparr> \<in> set (rfcs ci)"
proof
  assume "(n, c) \<in> holds (abs_index ci)"
  then obtain r where r: "r \<in> set (rfcs ci)" "n = rfc r" "c = peer r"
    by (auto simp: abs_index_def)
  then have eq: "\<lparr>rfc = n, peer = c\<rparr> = r" by simp
  show "\<lparr>rfc = n, peer = c\<rparr> \<in> set (rfcs ci)" unfolding eq by (rule r(1))
qed (force simp: abs_index_def)

lemma abs_index_add_client:
  "abs_index (snd (add_client h p ci)) = abs_connect \<lparr>host = h, port = p\<rparr> (abs_index ci)"
  by (auto simp: abs_index_def add_client_def abs_connect_def index_simps)

lemma abs_index_add_rfc:
  "abs_index (snd (add_rfc h p n ci)) = abs_offer n \<lparr>host = h, port = p\<rparr> (abs_index ci)"
proof (cases "\<lparr>rfc = n, peer = \<lparr>host = h, port = p\<rparr>\<rparr> \<in> set (rfcs ci)")
  case True
  then have "(n, \<lparr>host = h, port = p\<rparr>) \<in> holds (abs_index ci)" by (simp add: abs_index_mem_iff)
  then have "abs_offer n \<lparr>host = h, port = p\<rparr> (abs_index ci) = abs_index ci"
    by (simp add: abs_offer_def insert_absorb)
  with True show ?thesis by (simp add: add_rfc_def index_simps)
next
  case False
  then show ?thesis
    by (auto simp: add_rfc_def index_simps Let_def abs_index_def abs_offer_def)
qed

lemma abs_index_remove_client:
  assumes "distinct (clients ci)"
  shows "abs_index (snd (remove_client h p ci)) = abs_disconnect \<lparr>host = h, port = p\<rparr> (abs_index ci)"
  using assms
  by (auto simp: abs_index_def remove_client_def Let_def remove_client_rfcs_def
      remove_client_entry_def abs_disconnect_def index_simps)

lemma add_client_result: "fst (add_client h p ci) \<longleftrightarrow> \<lparr>host = h, port = p\<rparr> \<notin> connected (abs_index ci)"
  by (simp add: add_client_def index_simps abs_index_def)

lemma add_rfc_result:
  "fst (add_rfc h p n ci) \<longleftrightarrow>
     (n, \<lparr>host = h, port = p\<rparr>) \<notin> holds (abs_index ci) \<and> \<lparr>host = h, port = p\<rparr> \<in> connected (abs_index ci)"
  by (simp add: add_rfc_def index_simps abs_index_mem_iff Let_def) (simp add: abs_index_def)

lemma set_find_rfcs: "set (find_rfcs n ci) = {c. (n, c) \<in> holds (abs_index ci)}"
  by (force simp: find_rfcs_def index_simps abs_index_def)

lemma set_all_rfcs: "(\<lambda>r. (rfc r, peer r)) ` set (all_rfcs ci) = holds (abs_index ci)"
  by (simp add: all_rfcs_def abs_index_def)

lemma find_rfcs_sorted:
  assumes "lists_wf ci"
  shows "sorted_wrt (<) (find_rfcs n ci)"
proof -
  have "sorted_wrt (<) (filter (\<lambda>r. rfc r = n) (rfcs ci))"
    using assms by (simp add: lists_wf_def compare_rfc_holders_eq sorted_wrt_filter_keep)
  then have "sorted_wrt (\<lambda>a b. peer a < peer b) (filter (\<lambda>r. rfc r = n) (rfcs ci))"
    by (rule sorted_wrt_mono_rel [rotated]) (auto simp: RFCHolder_less_iff)
  then show ?thesis by (simp add: find_rfcs_def index_simps sorted_wrt_map)
qed

text \<open>What a lookup returns depends on the relation only.\<close>

lemma find_rfcs_determined:
  assumes "lists_wf ci" "lists_wf ci'"
    and "\<And>c. (n, c) \<in> holds (abs_index ci) \<longleftrightarrow> (n, c) \<in> holds (abs_index ci')"
  shows "find_rfcs n ci = find_rfcs n ci'"
  using assms(3) by (intro strict_sorted_equal find_rfcs_sorted assms(1,2)) (simp add: set_find_rfcs)

section \<open>Properties\<close>

definition demo_index :: CentralIndex where
  "demo_index =
     \<lparr>clients = [\<lparr>host = ''b'', port = 2\<rparr>, \<lparr>host = ''a'', port = 1\<rparr>],
      rfcs = [\<lparr>rfc = 791, peer = \<lparr>host = ''b'', port = 2\<rparr>\<rparr>]\<rparr>"

lemma index_wf_demo: "index_wf demo_index"
  by (simp add: index_wf_def lists_wf_def holders_connected_def demo_index_def)

text \<open>
  Every operation keeps the index well-formed: no client and no holder listed twice, the holders
  strictly sorted, every holder's peer a connected client.
\<close>

lemma index_operations_preserve_wf:
  assumes "index_wf ci"
  shows "index_wf (snd (add_client h p ci)) \<and> index_wf (snd (add_rfc h p n ci)) \<and>
    index_wf (snd (remove_client h p ci))"
  using assms by (simp add: index_wf_add_client index_wf_add_rfc index_wf_remove_client)

lemma index_operations_preserve_wf_witness:
  "index_wf (snd (add_rfc ''a'' 1 791 demo_index)) \<and> index_wf (snd (remove_client ''b'' 2 demo_index))"
  using index_operations_preserve_wf [OF index_wf_demo] by blast

text \<open>
  C4. On well-formed indexes the lists refine a set of connected clients and a relation between
  numbers and clients: connecting inserts, offering adds a pair exactly for a connected client and
  reports whether it was new, disconnecting removes the client with all its pairs, and a lookup
  returns exactly the peers that hold the number, each once, in increasing order.
\<close>

theorem index_refines_relation:
  assumes "index_wf ci"
  shows "abs_index (snd (add_client h p ci)) = abs_connect \<lparr>host = h, port = p\<rparr> (abs_index ci) \<and>
    abs_index (snd (add_rfc h p n ci)) = abs_offer n \<lparr>host = h, port = p\<rparr> (abs_index ci) \<and>
    fst (add_rfc h p n ci) = ((n, \<lparr>host = h, port = p\<rparr>) \<notin> holds (abs_index ci) \<and>
      \<lparr>host = h, port = p\<rparr> \<in> connected (abs_index ci)) \<and>
    abs_index (snd (remove_client h p ci)) = abs_disconnect \<lparr>host = h, port = p\<rparr> (abs_index ci) \<and>
    set (find_rfcs n ci) = {c. (n, c) \<in> holds (abs_index ci)} \<and> sorted_wrt (<) (find_rfcs n ci)"
  using assms abs_index_remove_client [of ci h p] find_rfcs_sorted [of ci n]
  by (simp add: abs_index_add_client abs_index_add_rfc add_rfc_result set_find_rfcs
      index_wf_def lists_wf_def)

theorem index_refines_relation_witness:
  "abs_index (snd (add_rfc ''a'' 1 791 demo_index)) =
     abs_offer 791 \<lparr>host = ''a'', port = 1\<rparr> (abs_index demo_index) \<and>
   abs_index (snd (remove_client ''b'' 2 demo_index)) =
     abs_disconnect \<lparr>host = ''b'', port = 2\<rparr> (abs_index demo_index)"
  using index_refines_relation [OF index_wf_demo, of "''a''" 1 791]
    index_refines_relation [OF index_wf_demo, of "''b''" 2 791] by blast

end
