(* ===== verification/Message_Codec.thy ===== *)
theory Message_Codec
  imports Common_Types
begin

text \<open>
  The contract of \<open>AbstMessage\<close> (\<open>include/abst_msg.hpp\<close>): a message type offers \<open>is_valid\<close>,
  \<open>message_size\<close>, \<open>from_bytes\<close> and \<open>to_bytes\<close>.  What the two ends of a connection rely on is
  stated here once, and every message class of the program is an interpretation:
  \<^item> an invalid message is not encoded (\<open>to_bytes\<close> returns \<open>nullptr\<close>);
  \<^item> a valid one is encoded without leaving its buffer, into exactly \<open>message_size\<close> bytes,
    whatever the fresh buffer held;
  \<^item> decoding those bytes into a default-constructed object gives the message back.

  \<open>representable\<close> is the set of messages for which that holds: each class says what it needs
  (sizes below the range of the integers that carry them, strings without NUL).
\<close>

text \<open>The exception the interface declares; nothing in the program throws it.\<close>

definition MessageParseException_what :: string where
  "MessageParseException_what = ''error parsing message from byte sequence''"

locale message_codec =
  fixes is_valid :: "'m \<Rightarrow> bool"
    and message_size :: "'m \<Rightarrow> u32"
    and from_bytes :: "byte list \<Rightarrow> 'm \<Rightarrow> 'm result"
    and to_bytes :: "(nat \<Rightarrow> byte) \<Rightarrow> 'm \<Rightarrow> bytes_ptr result"
    and init :: 'm
    and representable :: "'m \<Rightarrow> bool"
  assumes to_bytes_invalid: "\<not> is_valid m \<Longrightarrow> to_bytes g m = Inr Null"
    and to_bytes_valid: "is_valid m \<Longrightarrow> representable m \<Longrightarrow>
      \<exists>buf. to_bytes g m = Inr (Bytes buf) \<and> length buf = unat (message_size m) \<and>
        from_bytes buf init = Inr m"
begin

lemma to_bytes_Null_iff:
  "representable m \<Longrightarrow> to_bytes g m = Inr Null \<longleftrightarrow> \<not> is_valid m"
  using to_bytes_invalid to_bytes_valid by (metis Inr_inject bytes_ptr.distinct(1))

lemma to_bytes_defined: "representable m \<Longrightarrow> \<exists>p. to_bytes g m = Inr p"
  using to_bytes_invalid to_bytes_valid by blast

lemma roundtrip:
  "representable m \<Longrightarrow> to_bytes g m = Inr (Bytes buf) \<Longrightarrow> from_bytes buf init = Inr m"
  using to_bytes_invalid to_bytes_valid by (metis Inr_inject bytes_ptr.distinct(1) bytes_ptr.inject)

lemma encoding_length:
  "representable m \<Longrightarrow> to_bytes g m = Inr (Bytes buf) \<Longrightarrow> length buf = unat (message_size m)"
  using to_bytes_invalid to_bytes_valid by (metis Inr_inject bytes_ptr.distinct(1) bytes_ptr.inject)

text \<open>Two messages with the same bytes are the same message.\<close>

lemma encoding_injective:
  assumes "representable m" "representable m'"
    and "to_bytes g m = Inr (Bytes buf)" "to_bytes g' m' = Inr (Bytes buf)"
  shows "m = m'"
  using roundtrip [OF assms(1,3)] roundtrip [OF assms(2,4)] by simp

end

section \<open>Status codes\<close>

text \<open>The codes every response class accepts.\<close>

definition known_code :: "u32 \<Rightarrow> bool" where
  "known_code c \<longleftrightarrow> c = 200 \<or> c = 400 \<or> c = 404 \<or> c = 505"

lemma known_code_positive: "known_code c \<Longrightarrow> 0 < sint c"
  by (auto simp: known_code_def)

end
