(* ===== verification/Messages_Fixed.thy ===== *)
theory Messages_Fixed
  imports Message_Codec
begin

text \<open>
  The messages of fixed size: \<open>AddRFCMessage\<close>, \<open>AddRFCResponse\<close>, \<open>LookupRFCMessage\<close> (four bytes
  each) and \<open>GetRFCMessage\<close> (two bytes).  Each class is a record with the class's operations in
  the order of its source file, then its interpretation of the message contract.
\<close>

section \<open>AddRFCMessage\<close>

record AddRFCMessage =
  am_number :: u32

definition AddRFCMessage_init :: AddRFCMessage where
  "AddRFCMessage_init = \<lparr>am_number = 0\<rparr>"

definition AddRFCMessage_new :: "u32 \<Rightarrow> AddRFCMessage" where
  "AddRFCMessage_new number = \<lparr>am_number = number\<rparr>"

definition AddRFCMessage_get_number :: "AddRFCMessage \<Rightarrow> u32" where
  "AddRFCMessage_get_number m = am_number m"

definition AddRFCMessage_set_number :: "u32 \<Rightarrow> AddRFCMessage \<Rightarrow> AddRFCMessage" where
  "AddRFCMessage_set_number number m = m\<lparr>am_number := number\<rparr>"

definition AddRFCMessage_is_valid :: "AddRFCMessage \<Rightarrow> bool" where
  "AddRFCMessage_is_valid m \<longleftrightarrow> 0 < sint (am_number m)"

definition AddRFCMessage_message_size :: "AddRFCMessage \<Rightarrow> u32" where
  "AddRFCMessage_message_size m = 4"

definition AddRFCMessage_from_bytes :: "byte list \<Rightarrow> AddRFCMessage \<Rightarrow> AddRFCMessage result" where
  "AddRFCMessage_from_bytes bytes m =
     bnd (memcpy_from bytes 0 4) (\<lambda>b.
     let m = m\<lparr>am_number := load32 b\<rparr> in
     Inr (m\<lparr>am_number := ntohl (am_number m)\<rparr>))"

definition AddRFCMessage_to_bytes :: "(nat \<Rightarrow> byte) \<Rightarrow> AddRFCMessage \<Rightarrow> bytes_ptr result" where
  "AddRFCMessage_to_bytes g m =
     (if \<not> AddRFCMessage_is_valid m then Inr Null
      else
        let buf = fresh_bytes g (unat (AddRFCMessage_message_size m));
            tmp = htonl (am_number m)
        in bnd (memcpy_to buf 0 (store32 tmp)) (\<lambda>buf. Inr (Bytes buf)))"

section \<open>AddRFCResponse\<close>

record AddRFCResponse =
  ar_code :: u32

definition AddRFCResponse_init :: AddRFCResponse where
  "AddRFCResponse_init = \<lparr>ar_code = 0\<rparr>"

definition AddRFCResponse_new :: "u32 \<Rightarrow> AddRFCResponse" where
  "AddRFCResponse_new code = \<lparr>ar_code = code\<rparr>"

definition AddRFCResponse_get_code :: "AddRFCResponse \<Rightarrow> u32" where
  "AddRFCResponse_get_code m = ar_code m"

definition AddRFCResponse_set_code :: "u32 \<Rightarrow> AddRFCResponse \<Rightarrow> AddRFCResponse" where
  "AddRFCResponse_set_code code m = m\<lparr>ar_code := code\<rparr>"

definition AddRFCResponse_is_valid :: "AddRFCResponse \<Rightarrow> bool" where
  "AddRFCResponse_is_valid m \<longleftrightarrow>
     \<not> (ar_code m \<noteq> 200 \<and> ar_code m \<noteq> 400 \<and> ar_code m \<noteq> 404 \<and> ar_code m \<noteq> 505)"

definition AddRFCResponse_message_size :: "AddRFCResponse \<Rightarrow> u32" where
  "AddRFCResponse_message_size m = 4"

definition AddRFCResponse_from_bytes :: "byte list \<Rightarrow> AddRFCResponse \<Rightarrow> AddRFCResponse result" where
  "AddRFCResponse_from_bytes bytes m =
     bnd (memcpy_from bytes 0 4) (\<lambda>b.
     let m = m\<lparr>ar_code := load32 b\<rparr> in
     Inr (m\<lparr>ar_code := ntohl (ar_code m)\<rparr>))"

definition AddRFCResponse_to_bytes :: "(nat \<Rightarrow> byte) \<Rightarrow> AddRFCResponse \<Rightarrow> bytes_ptr result" where
  "AddRFCResponse_to_bytes g m =
     (if \<not> AddRFCResponse_is_valid m then Inr Null
      else
        let buf = fresh_bytes g (unat (AddRFCResponse_message_size m));
            tmp = htonl (ar_code m)
        in bnd (memcpy_to buf 0 (store32 tmp)) (\<lambda>buf. Inr (Bytes buf)))"

section \<open>LookupRFCMessage\<close>

record LookupRFCMessage =
  lm_number :: u32

definition LookupRFCMessage_init :: LookupRFCMessage where
  "LookupRFCMessage_init = \<lparr>lm_number = 0\<rparr>"

definition LookupRFCMessage_new :: "u32 \<Rightarrow> LookupRFCMessage" where
  "LookupRFCMessage_new number = \<lparr>lm_number = number\<rparr>"

definition LookupRFCMessage_get_number :: "LookupRFCMessage \<Rightarrow> u32" where
  "LookupRFCMessage_get_number m = lm_number m"

definition LookupRFCMessage_set_number :: "u32 \<Rightarrow> LookupRFCMessage \<Rightarrow> LookupRFCMessage" where
  "LookupRFCMessage_set_number number m = m\<lparr>lm_number := number\<rparr>"

definition LookupRFCMessage_is_valid :: "LookupRFCMessage \<Rightarrow> bool" where
  "LookupRFCMessage_is_valid m \<longleftrightarrow> 0 < sint (lm_number m)"

definition LookupRFCMessage_message_size :: "LookupRFCMessage \<Rightarrow> u32" where
  "LookupRFCMessage_message_size m = 4"

definition LookupRFCMessage_from_bytes ::
    "byte list \<Rightarrow> LookupRFCMessage \<Rightarrow> LookupRFCMessage result" where
  "LookupRFCMessage_from_bytes bytes m =
     bnd (memcpy_from bytes 0 4) (\<lambda>b.
     let m = m\<lparr>lm_number := load32 b\<rparr> in
     Inr (m\<lparr>lm_number := ntohl (lm_number m)\<rparr>))"

definition LookupRFCMessage_to_bytes :: "(nat \<Rightarrow> byte) \<Rightarrow> LookupRFCMessage \<Rightarrow> bytes_ptr result" where
  "LookupRFCMessage_to_bytes g m =
     (if \<not> LookupRFCMessage_is_valid m then Inr Null
      else
        let buf = fresh_bytes g (unat (LookupRFCMessage_message_size m));
            tmp = htonl (lm_number m)
        in bnd (memcpy_to buf 0 (store32 tmp)) (\<lambda>buf. Inr (Bytes buf)))"

section \<open>GetRFCMessage\<close>

text \<open>The number of this message is a \<open>short\<close>.\<close>

record GetRFCMessage =
  gm_number :: u16

definition GetRFCMessage_init :: GetRFCMessage where
  "GetRFCMessage_init = \<lparr>gm_number = 0\<rparr>"

definition GetRFCMessage_new :: "u16 \<Rightarrow> GetRFCMessage" where
  "GetRFCMessage_new number = \<lparr>gm_number = number\<rparr>"

definition GetRFCMessage_get_number :: "GetRFCMessage \<Rightarrow> u16" where
  "GetRFCMessage_get_number m = gm_number m"

definition GetRFCMessage_set_number :: "u16 \<Rightarrow> GetRFCMessage \<Rightarrow> GetRFCMessage" where
  "GetRFCMessage_set_number number m = m\<lparr>gm_number := number\<rparr>"

definition GetRFCMessage_is_valid :: "GetRFCMessage \<Rightarrow> bool" where
  "GetRFCMessage_is_valid m \<longleftrightarrow> 0 < sint (gm_number m)"

definition GetRFCMessage_message_size :: "GetRFCMessage \<Rightarrow> u32" where
  "GetRFCMessage_message_size m = 2"

definition GetRFCMessage_from_bytes :: "byte list \<Rightarrow> GetRFCMessage \<Rightarrow> GetRFCMessage result" where
  "GetRFCMessage_from_bytes bytes m =
     bnd (memcpy_from bytes 0 2) (\<lambda>b.
     let m = m\<lparr>gm_number := load16 b\<rparr> in
     Inr (m\<lparr>gm_number := ntohs (gm_number m)\<rparr>))"

definition GetRFCMessage_to_bytes :: "(nat \<Rightarrow> byte) \<Rightarrow> GetRFCMessage \<Rightarrow> bytes_ptr result" where
  "GetRFCMessage_to_bytes g m =
     (if \<not> GetRFCMessage_is_valid m then Inr Null
      else
        let buf = fresh_bytes g (unat (GetRFCMessage_message_size m));
            tmp = htons (gm_number m)
        in bnd (memcpy_to buf 0 (store16 tmp)) (\<lambda>buf. Inr (Bytes buf)))"

section \<open>What the operations compute\<close>

lemma AddRFCMessage_to_bytes_eq [codec_simps]:
  "AddRFCMessage_to_bytes g m =
     Inr (if AddRFCMessage_is_valid m then Bytes (wire32 (am_number m)) else Null)"
  by (simp add: AddRFCMessage_to_bytes_def AddRFCMessage_message_size_def codec_simps wire32_def)

lemma AddRFCMessage_from_bytes_wire [codec_simps]:
  "AddRFCMessage_from_bytes (wire32 n) m = Inr (m\<lparr>am_number := n\<rparr>)"
  by (simp add: AddRFCMessage_from_bytes_def codec_simps)

lemma AddRFCResponse_to_bytes_eq [codec_simps]:
  "AddRFCResponse_to_bytes g m =
     Inr (if AddRFCResponse_is_valid m then Bytes (wire32 (ar_code m)) else Null)"
  by (simp add: AddRFCResponse_to_bytes_def AddRFCResponse_message_size_def codec_simps wire32_def)

lemma AddRFCResponse_from_bytes_wire [codec_simps]:
  "AddRFCResponse_from_bytes (wire32 n) m = Inr (m\<lparr>ar_code := n\<rparr>)"
  by (simp add: AddRFCResponse_from_bytes_def codec_simps)

lemma LookupRFCMessage_to_bytes_eq [codec_simps]:
  "LookupRFCMessage_to_bytes g m =
     Inr (if LookupRFCMessage_is_valid m then Bytes (wire32 (lm_number m)) else Null)"
  by (simp add: LookupRFCMessage_to_bytes_def LookupRFCMessage_message_size_def codec_simps
      wire32_def)

lemma LookupRFCMessage_from_bytes_wire [codec_simps]:
  "LookupRFCMessage_from_bytes (wire32 n) m = Inr (m\<lparr>lm_number := n\<rparr>)"
  by (simp add: LookupRFCMessage_from_bytes_def codec_simps)

lemma GetRFCMessage_to_bytes_eq [codec_simps]:
  "GetRFCMessage_to_bytes g m =
     Inr (if GetRFCMessage_is_valid m then Bytes (wire16 (gm_number m)) else Null)"
  by (simp add: GetRFCMessage_to_bytes_def GetRFCMessage_message_size_def codec_simps wire16_def)

lemma GetRFCMessage_from_bytes_wire [codec_simps]:
  "GetRFCMessage_from_bytes (wire16 n) m = Inr (m\<lparr>gm_number := n\<rparr>)"
  by (simp add: GetRFCMessage_from_bytes_def codec_simps)

section \<open>The message contract\<close>

interpretation add_msg: message_codec AddRFCMessage_is_valid AddRFCMessage_message_size
    AddRFCMessage_from_bytes AddRFCMessage_to_bytes AddRFCMessage_init "\<lambda>m. True"
  by unfold_locales
    (simp_all add: codec_simps AddRFCMessage_message_size_def AddRFCMessage_init_def)

interpretation add_res: message_codec AddRFCResponse_is_valid AddRFCResponse_message_size
    AddRFCResponse_from_bytes AddRFCResponse_to_bytes AddRFCResponse_init "\<lambda>m. True"
  by unfold_locales
    (simp_all add: codec_simps AddRFCResponse_message_size_def AddRFCResponse_init_def)

interpretation lookup_msg: message_codec LookupRFCMessage_is_valid LookupRFCMessage_message_size
    LookupRFCMessage_from_bytes LookupRFCMessage_to_bytes LookupRFCMessage_init "\<lambda>m. True"
  by unfold_locales
    (simp_all add: codec_simps LookupRFCMessage_message_size_def LookupRFCMessage_init_def)

interpretation get_msg: message_codec GetRFCMessage_is_valid GetRFCMessage_message_size
    GetRFCMessage_from_bytes GetRFCMessage_to_bytes GetRFCMessage_init "\<lambda>m. True"
  by unfold_locales
    (simp_all add: codec_simps GetRFCMessage_message_size_def GetRFCMessage_init_def)

section \<open>Properties\<close>

text \<open>
  C25. The messages of fixed size are encoded exactly when their field is acceptable (a positive
  number, a known status code), as the field in network byte order, whatever the fresh buffer held,
  and decoding those bytes sets the field of any object to that value.
\<close>

theorem fixed_messages_wire:
  "AddRFCMessage_to_bytes g a =
     Inr (if 0 < sint (am_number a) then Bytes (wire32 (am_number a)) else Null) \<and>
   AddRFCMessage_from_bytes (wire32 n) a0 = Inr \<lparr>am_number = n\<rparr> \<and>
   AddRFCResponse_to_bytes g r = Inr (if known_code (ar_code r) then Bytes (wire32 (ar_code r)) else Null) \<and>
   AddRFCResponse_from_bytes (wire32 n) r0 = Inr \<lparr>ar_code = n\<rparr> \<and>
   LookupRFCMessage_to_bytes g l =
     Inr (if 0 < sint (lm_number l) then Bytes (wire32 (lm_number l)) else Null) \<and>
   LookupRFCMessage_from_bytes (wire32 n) l0 = Inr \<lparr>lm_number = n\<rparr> \<and>
   GetRFCMessage_to_bytes g q =
     Inr (if 0 < sint (gm_number q) then Bytes (wire16 (gm_number q)) else Null) \<and>
   GetRFCMessage_from_bytes (wire16 k) q0 = Inr \<lparr>gm_number = k\<rparr>"
  by (simp add: codec_simps AddRFCMessage_is_valid_def AddRFCResponse_is_valid_def known_code_def
      LookupRFCMessage_is_valid_def GetRFCMessage_is_valid_def)

end
