(* ===== verification/List_RFC_Response.thy ===== *)
theory List_RFC_Response
  imports Message_Codec
begin

text \<open>
  \<open>ListRFCResponse\<close> (\<open>src/list_rfc_res.cpp\<close>): the whole index as the server sends it, a status
  code and, for status 200, the number of holders and each holder as RFC number, length of the
  host, host, port.  \<open>from_bytes\<close> appends to the holders the object already has (the sibling
  class \<open>LookupRFCResponse\<close> clears its list first).
\<close>

section \<open>The class\<close>

record ListRFCResponse =
  lr_code :: u32
  lr_holders :: "RFCHolder list"

definition ListRFCResponse_init :: ListRFCResponse where
  "ListRFCResponse_init = \<lparr>lr_code = 0, lr_holders = []\<rparr>"

definition ListRFCResponse_new :: "u32 \<Rightarrow> RFCHolder list \<Rightarrow> ListRFCResponse" where
  "ListRFCResponse_new code holders = \<lparr>lr_code = code, lr_holders = holders\<rparr>"

definition ListRFCResponse_get_code :: "ListRFCResponse \<Rightarrow> u32" where
  "ListRFCResponse_get_code m = lr_code m"

definition ListRFCResponse_set_code :: "u32 \<Rightarrow> ListRFCResponse \<Rightarrow> ListRFCResponse" where
  "ListRFCResponse_set_code code m = m\<lparr>lr_code := code\<rparr>"

definition ListRFCResponse_get_holders :: "ListRFCResponse \<Rightarrow> RFCHolder list" where
  "ListRFCResponse_get_holders m = lr_holders m"

definition ListRFCResponse_set_holders :: "RFCHolder list \<Rightarrow> ListRFCResponse \<Rightarrow> ListRFCResponse" where
  "ListRFCResponse_set_holders holders m = m\<lparr>lr_holders := holders\<rparr>"

fun holders_ok :: "RFCHolder list \<Rightarrow> bool" where
  "holders_ok [] = True"
| "holders_ok (it # its) =
     (if length (host (peer it)) = 0 \<or> sint (port (peer it)) \<le> 0 then False else holders_ok its)"

definition ListRFCResponse_is_valid :: "ListRFCResponse \<Rightarrow> bool" where
  "ListRFCResponse_is_valid m =
     (if 0 < sint (lr_code m) then
        if lr_code m \<noteq> 200 \<and> lr_code m \<noteq> 400 \<and> lr_code m \<noteq> 404 \<and> lr_code m \<noteq> 505 then False
        else if lr_code m = 200 then holders_ok (lr_holders m)
        else True
      else False)"

fun holders_size :: "u32 \<Rightarrow> RFCHolder list \<Rightarrow> u32" where
  "holders_size sz [] = sz"
| "holders_size sz (it # its) = holders_size (sz + (4 + 4 + ulen (host (peer it)) + 4)) its"

definition ListRFCResponse_message_size :: "ListRFCResponse \<Rightarrow> u32" where
  "ListRFCResponse_message_size m = holders_size (4 + 4) (lr_holders m)"

text \<open>The body of the loop \<open>for (int i = 0; i < len_list; i++)\<close>, run for the given count.\<close>

fun decode_holders :: "nat \<Rightarrow> byte list \<Rightarrow> u32 \<Rightarrow> RFCHolder list \<Rightarrow> RFCHolder list result" where
  "decode_holders 0 bytes pos holders = Inr holders"
| "decode_holders (Suc i) bytes pos holders =
     bnd (memcpy_from bytes pos 4) (\<lambda>b.
     let rfc_num = ntohl (load32 b); pos = pos + 4 in
     bnd (memcpy_from bytes pos 4) (\<lambda>b.
     let len_host = ntohl (load32 b); pos = pos + 4 in
     bnd (int_inc len_host) (\<lambda>n.
     bnd (new_array n) (\<lambda>_.
     bnd (memcpy_from bytes pos (size_of_int len_host)) (\<lambda>cs.
     let pos = pos + len_host in
     bnd (memcpy_from bytes pos 4) (\<lambda>b.
     let var_port = ntohl (load32 b);
         pos = pos + 4;
         h = \<lparr>rfc = rfc_num, peer = \<lparr>host = c_string (bytes_string cs), port = var_port\<rparr>\<rparr>
     in decode_holders i bytes pos (holders @ [h])))))))"

definition ListRFCResponse_from_bytes ::
    "byte list \<Rightarrow> ListRFCResponse \<Rightarrow> ListRFCResponse result" where
  "ListRFCResponse_from_bytes bytes m =
     (let pos = 0 in
      bnd (memcpy_from bytes pos 4) (\<lambda>b.
      let m = m\<lparr>lr_code := ntohl (load32 b)\<rparr> in
      if lr_code m = 200 then
        let pos = pos + 4 in
        bnd (memcpy_from bytes pos 4) (\<lambda>b.
        let len_list = ntohl (load32 b); pos = pos + 4 in
        bnd (decode_holders (nat (sint len_list)) bytes pos (lr_holders m)) (\<lambda>hs.
        Inr (m\<lparr>lr_holders := hs\<rparr>)))
      else Inr m))"

fun encode_holders :: "byte list \<Rightarrow> u32 \<Rightarrow> RFCHolder list \<Rightarrow> byte list result" where
  "encode_holders buf pos [] = Inr buf"
| "encode_holders buf pos (it # its) =
     bnd (memcpy_to buf pos (store32 (htonl (rfc it)))) (\<lambda>buf.
     let pos = pos + 4 in
     bnd (memcpy_to buf pos (store32 (htonl (ulen (host (peer it)))))) (\<lambda>buf.
     let pos = pos + 4 in
     bnd (memcpy_to buf pos (string_bytes (host (peer it)))) (\<lambda>buf.
     let pos = pos + ulen (host (peer it)) in
     bnd (memcpy_to buf pos (store32 (htonl (port (peer it))))) (\<lambda>buf.
     let pos = pos + 4 in
     encode_holders buf pos its))))"

definition ListRFCResponse_to_bytes :: "(nat \<Rightarrow> byte) \<Rightarrow> ListRFCResponse \<Rightarrow> bytes_ptr result" where
  "ListRFCResponse_to_bytes g m =
     (if \<not> ListRFCResponse_is_valid m then Inr Null
      else
        let buf = fresh_bytes g (unat (ListRFCResponse_message_size m));
            pos = 0;
            tmp = htonl (lr_code m)
        in bnd (memcpy_to buf pos (store32 tmp)) (\<lambda>buf.
           if lr_code m = 200 then
             let pos = pos + 4;
                 tmp = htonl (ulen (lr_holders m))
             in bnd (memcpy_to buf pos (store32 tmp)) (\<lambda>buf.
                let pos = pos + 4 in
                bnd (encode_holders buf pos (lr_holders m)) (\<lambda>buf.
                Inr (Bytes buf)))
           else Inr (Bytes buf)))"

section \<open>One holder on the wire\<close>

definition holder_wire :: "RFCHolder \<Rightarrow> byte list" where
  "holder_wire h =
     wire32 (rfc h) @ wire32 (ulen (host (peer h))) @ string_bytes (host (peer h)) @
     wire32 (port (peer h))"

definition holders_wire :: "RFCHolder list \<Rightarrow> byte list" where
  "holders_wire hs = concat (map holder_wire hs)"

lemma length_holder_wire: "length (holder_wire h) = length (host (peer h)) + 12"
  by (simp add: holder_wire_def)

lemma holders_wire_Nil [simp]: "holders_wire [] = []"
  by (simp add: holders_wire_def)

lemma holders_wire_Cons [simp]: "holders_wire (h # hs) = holder_wire h @ holders_wire hs"
  by (simp add: holders_wire_def)

lemma holders_ok_iff:
  "holders_ok hs \<longleftrightarrow> (\<forall>h \<in> set hs. host (peer h) \<noteq> [] \<and> 0 < sint (port (peer h)))"
  by (induction hs) auto

lemma holders_size_eq: "holders_size n hs = n + of_nat (length (holders_wire hs))"
  by (induction n hs rule: holders_size.induct) (simp_all add: length_holder_wire ulen_def)

lemma encode_holders_eq:
  assumes "unat pos = length done" and "length (done @ rest) < 2 ^ 32"
    and "length (holders_wire hs) \<le> length rest"
  shows "encode_holders (done @ rest) pos hs =
    Inr (done @ holders_wire hs @ drop (length (holders_wire hs)) rest)"
  using assms
proof (induction hs arbitrary: pos "done" rest)
  case Nil
  then show ?case by simp
next
  case (Cons h hs)
  let ?w1 = "wire32 (rfc h)" and ?w2 = "wire32 (ulen (host (peer h)))"
    and ?w3 = "string_bytes (host (peer h))" and ?w4 = "wire32 (port (peer h))"
  let ?n = "length (host (peer h))"
  have room: "?n + 12 + length (holders_wire hs) \<le> length rest"
    using Cons.prems(3) by (simp add: length_holder_wire)
  have p1: "unat (pos + 4) = length done + 4"
    using Cons.prems room by (subst unat_pos_add4) simp_all
  have p2: "unat (pos + 8) = length done + 8"
    using Cons.prems room by (subst unat_pos_add8) simp_all
  then have p3: "unat (pos + 8 + ulen (host (peer h))) = length done + 8 + ?n"
    using Cons.prems room unat_pos_add [of "pos + 8" ?n] by (simp add: ulen_def)
  then have p4: "unat (pos + 8 + ulen (host (peer h)) + 4) = length (done @ holder_wire h)"
    using Cons.prems room by (subst unat_pos_add4) (simp_all add: length_holder_wire)
  have 1: "memcpy_to (done @ rest) pos ?w1 = Inr (done @ ?w1 @ drop 4 rest)"
    using Cons.prems room by (subst memcpy_to_at) simp_all
  have 2: "memcpy_to (done @ ?w1 @ drop 4 rest) (pos + 4) ?w2 =
      Inr (done @ ?w1 @ ?w2 @ drop 8 rest)"
    using memcpy_to_at [of "pos + 4" "done @ ?w1" ?w2 "drop 4 rest"] p1 room by simp
  have 3: "memcpy_to (done @ ?w1 @ ?w2 @ drop 8 rest) (pos + 8) ?w3 =
      Inr (done @ ?w1 @ ?w2 @ ?w3 @ drop (?n + 8) rest)"
    using memcpy_to_at [of "pos + 8" "done @ ?w1 @ ?w2" ?w3 "drop 8 rest"] p2 room by simp
  have 4: "memcpy_to (done @ ?w1 @ ?w2 @ ?w3 @ drop (?n + 8) rest)
        (pos + 8 + ulen (host (peer h))) ?w4 =
      Inr ((done @ holder_wire h) @ drop (12 + ?n) rest)"
    using memcpy_to_at [of "pos + 8 + ulen (host (peer h))" "done @ ?w1 @ ?w2 @ ?w3" ?w4
        "drop (?n + 8) rest"] p3 room
    by (simp add: holder_wire_def)
  have IH: "encode_holders ((done @ holder_wire h) @ drop (12 + ?n) rest)
      (pos + 8 + ulen (host (peer h)) + 4) hs =
    Inr (done @ holders_wire (h # hs) @ drop (length (holders_wire (h # hs))) rest)"
    using Cons.IH [OF p4] Cons.prems(2) room
    by (simp add: length_holder_wire algebra_simps)
  have pos: "pos + 4 + 4 = pos + 8" by simp
  show ?case
    using IH by (simp add: Let_def pos 1 2 3 4 flip: wire32_def)
qed

text \<open>The host is read back as a C string: what follows a NUL is lost.\<close>

definition holder_read :: "RFCHolder \<Rightarrow> RFCHolder" where
  "holder_read h = h\<lparr>peer := (peer h)\<lparr>host := c_string (host (peer h))\<rparr>\<rparr>"

definition holder_representable :: "RFCHolder \<Rightarrow> bool" where
  "holder_representable h \<longleftrightarrow> nul \<notin> set (host (peer h))"

lemma holder_read_eq: "\<lparr>rfc = rfc h, peer = \<lparr>host = c_string (host (peer h)), port = port (peer h)\<rparr>\<rparr> = holder_read h"
  by (intro RFCHolder.equality Client.equality) (simp_all add: holder_read_def)

lemma holder_read_same [simp]: "holder_read h = h \<longleftrightarrow> holder_representable h"
proof -
  have "peer (holder_read h) = peer h \<longleftrightarrow> c_string (host (peer h)) = host (peer h)"
    by (cases "peer h") (simp add: holder_read_def)
  moreover have "holder_read h = h \<longleftrightarrow> peer (holder_read h) = peer h"
    by (cases h) (auto simp: holder_read_def)
  ultimately show ?thesis by (simp add: holder_representable_def c_string_same)
qed

lemma decode_holders_eq:
  assumes "unat pos = length done" and "length (done @ holders_wire hs) < 2 ^ 31"
  shows "decode_holders (length hs) (done @ holders_wire hs @ rest) pos acc = Inr (acc @ map holder_read hs)"
  using assms
proof (induction hs arbitrary: pos "done" acc)
  case Nil
  then show ?case by simp
next
  case (Cons h hs)
  let ?w1 = "wire32 (rfc h)" and ?w2 = "wire32 (ulen (host (peer h)))"
    and ?w3 = "string_bytes (host (peer h))" and ?w4 = "wire32 (port (peer h))"
  let ?n = "length (host (peer h))"
  let ?buf = "done @ holders_wire (h # hs) @ rest"
  have room: "length done + ?n + 12 + length (holders_wire hs) < 2 ^ 31"
    using Cons.prems(2) by (simp add: length_holder_wire)
  have p1: "unat (pos + 4) = length done + 4"
    using Cons.prems room by (subst unat_pos_add4) simp_all
  have p2: "unat (pos + 8) = length done + 8"
    using Cons.prems room by (subst unat_pos_add8) simp_all
  then have p3: "unat (pos + 8 + ulen (host (peer h))) = length done + 8 + ?n"
    using Cons.prems room unat_pos_add [of "pos + 8" ?n] by (simp add: ulen_def)
  then have p4: "unat (pos + 8 + ulen (host (peer h)) + 4) = length (done @ holder_wire h)"
    using Cons.prems room by (subst unat_pos_add4) (simp_all add: length_holder_wire)
  have 1: "memcpy_from ?buf pos 4 = Inr ?w1"
    using memcpy_from_at [of pos "done" ?w1 4] Cons.prems(1) by (simp add: holder_wire_def)
  have 2: "memcpy_from ?buf (pos + 4) 4 = Inr ?w2"
    using memcpy_from_at [of "pos + 4" "done @ ?w1" ?w2 4] p1 by (simp add: holder_wire_def)
  have 3: "memcpy_from ?buf (pos + 8) ?n = Inr ?w3"
    using memcpy_from_at [of "pos + 8" "done @ ?w1 @ ?w2" ?w3] p2 by (simp add: holder_wire_def)
  have 4: "memcpy_from ?buf (pos + 8 + ulen (host (peer h))) 4 = Inr ?w4"
    using memcpy_from_at [of "pos + 8 + ulen (host (peer h))" "done @ ?w1 @ ?w2 @ ?w3" ?w4 4] p3
    by (simp add: holder_wire_def)
  have IH: "decode_holders (length hs) ?buf (pos + 8 + ulen (host (peer h)) + 4) (acc @ [holder_read h]) =
      Inr (acc @ map holder_read (h # hs))"
    using Cons.IH [OF p4, of "acc @ [holder_read h]"] room by (simp add: length_holder_wire)
  have len: "?n + 1 < 2 ^ 31" using room by simp
  have pos: "pos + 4 + 4 = pos + 8" by simp
  show ?case
    using IH 1 2 3 4 by (simp add: Let_def pos holder_read_eq length_steps [OF len] del: holders_wire_Cons)
qed

section \<open>Messages on the wire\<close>

definition ListRFCResponse_representable :: "ListRFCResponse \<Rightarrow> bool" where
  "ListRFCResponse_representable m \<longleftrightarrow>
     length (holders_wire (lr_holders m)) + 8 < 2 ^ 31 \<and>
     (\<forall>h \<in> set (lr_holders m). holder_representable h) \<and>
     (lr_code m \<noteq> 200 \<longrightarrow> lr_holders m = [])"

lemma length_holders_wire_ge: "length hs \<le> length (holders_wire hs)"
  by (induction hs) (simp_all add: length_holder_wire)

lemma ListRFCResponse_is_valid_iff:
  "ListRFCResponse_is_valid m \<longleftrightarrow>
     known_code (lr_code m) \<and> (lr_code m = 200 \<longrightarrow> holders_ok (lr_holders m))"
  using known_code_positive [of "lr_code m"]
  by (auto simp: ListRFCResponse_is_valid_def known_code_def)

lemma unat_ListRFCResponse_message_size:
  assumes "length (holders_wire (lr_holders m)) + 8 < 2 ^ 32"
  shows "unat (ListRFCResponse_message_size m) = length (holders_wire (lr_holders m)) + 8"
proof -
  have "ListRFCResponse_message_size m = of_nat (length (holders_wire (lr_holders m)) + 8)"
    by (simp add: ListRFCResponse_message_size_def holders_size_eq)
  then show ?thesis using assms by (simp only: unat32_of_nat)
qed

lemma ListRFCResponse_to_bytes_200:
  assumes "lr_code m = 200" and "holders_ok (lr_holders m)"
    and "length (holders_wire (lr_holders m)) + 8 < 2 ^ 32"
  shows "ListRFCResponse_to_bytes g m =
    Inr (Bytes (wire32 200 @ wire32 (ulen (lr_holders m)) @ holders_wire (lr_holders m)))"
proof -
  let ?hs = "lr_holders m" and ?L = "ulen (lr_holders m)"
  let ?buf = "fresh_bytes g (length (holders_wire ?hs) + 8)"
  have valid: "ListRFCResponse_is_valid m"
    using assms by (simp add: ListRFCResponse_is_valid_iff known_code_def)
  have 1: "memcpy_to ?buf 0 (wire32 200) = Inr (wire32 200 @ drop 4 ?buf)"
    using memcpy_to_at [of 0 "[]" "wire32 200" ?buf] by simp
  have 2: "memcpy_to (wire32 200 @ drop 4 ?buf) 4 (wire32 ?L) =
      Inr (wire32 200 @ wire32 ?L @ drop 8 ?buf)"
    using memcpy_to_at [of 4 "wire32 200" "wire32 ?L" "drop 4 ?buf"] by simp
  have 3: "encode_holders (wire32 200 @ wire32 ?L @ drop 8 ?buf) 8 ?hs =
      Inr (wire32 200 @ wire32 ?L @ holders_wire ?hs)"
    using encode_holders_eq [of 8 "wire32 200 @ wire32 ?L" "drop 8 ?buf" ?hs] assms(3) by simp
  show ?thesis
    using valid assms(1,3) 1 2 3
    by (simp add: ListRFCResponse_to_bytes_def unat_ListRFCResponse_message_size Let_def
        flip: wire32_def)
qed

text \<open>For the other codes only the code is written; the rest of the array stays as it was.\<close>

lemma ListRFCResponse_to_bytes_code:
  assumes "known_code (lr_code m)" and "lr_code m \<noteq> 200" and "length (holders_wire (lr_holders m)) + 8 < 2 ^ 32"
  shows "ListRFCResponse_to_bytes g m =
    Inr (Bytes (wire32 (lr_code m) @ map g [4..<length (holders_wire (lr_holders m)) + 8]))"
proof -
  let ?n = "length (holders_wire (lr_holders m)) + 8"
  have valid: "ListRFCResponse_is_valid m"
    using assms by (simp add: ListRFCResponse_is_valid_iff)
  have 1: "memcpy_to (fresh_bytes g ?n) 0 (wire32 (lr_code m)) =
      Inr (wire32 (lr_code m) @ drop 4 (fresh_bytes g ?n))"
    using memcpy_to_at [of 0 "[]" "wire32 (lr_code m)" "fresh_bytes g ?n"] by simp
  have 2: "drop 4 (fresh_bytes g ?n) = map g [4..<?n]" by (simp add: fresh_bytes_def drop_map)
  show ?thesis
    using valid assms(2) 1 2 unat_ListRFCResponse_message_size [OF assms(3)]
    by (simp add: ListRFCResponse_to_bytes_def Let_def flip: wire32_def)
qed

lemma ListRFCResponse_to_bytes_error:
  assumes "known_code (lr_code m)" and "lr_code m \<noteq> 200" and "lr_holders m = []"
  shows "ListRFCResponse_to_bytes g m = Inr (Bytes (wire32 (lr_code m) @ map g [4..<8]))"
  using ListRFCResponse_to_bytes_code [OF assms(1,2), of g] assms(3) by simp

lemma ListRFCResponse_from_bytes_read:
  assumes "length (holders_wire hs) + 8 < 2 ^ 31"
  shows "ListRFCResponse_from_bytes (wire32 200 @ wire32 (ulen hs) @ holders_wire hs @ rest) m =
    Inr (m\<lparr>lr_code := 200, lr_holders := lr_holders m @ map holder_read hs\<rparr>)"
proof -
  let ?buf = "wire32 200 @ wire32 (ulen hs) @ holders_wire hs @ rest"
  have 1: "memcpy_from ?buf 0 4 = Inr (wire32 200)"
    using memcpy_from_at [of 0 "[]" "wire32 200" 4] by simp
  have 2: "memcpy_from ?buf 4 4 = Inr (wire32 (ulen hs))"
    using memcpy_from_at [of 4 "wire32 200" "wire32 (ulen hs)" 4] by simp
  have 3: "decode_holders (length hs) ?buf 8 (lr_holders m) = Inr (lr_holders m @ map holder_read hs)"
    using decode_holders_eq [of 8 "wire32 200 @ wire32 (ulen hs)" hs rest] assms by simp
  have "sint (ulen hs) = int (length hs)"
    using length_holders_wire_ge [of hs] assms(1) by (intro length_steps(1)) simp
  then show ?thesis
    using 1 2 3 by (simp add: ListRFCResponse_from_bytes_def Let_def)
qed

lemma ListRFCResponse_from_bytes_200:
  assumes "length (holders_wire hs) + 8 < 2 ^ 31" and "\<forall>h \<in> set hs. holder_representable h"
  shows "ListRFCResponse_from_bytes (wire32 200 @ wire32 (ulen hs) @ holders_wire hs @ rest) m =
    Inr (m\<lparr>lr_code := 200, lr_holders := lr_holders m @ hs\<rparr>)"
proof -
  have "map holder_read hs = hs" using assms(2) by (intro map_idI) simp
  with ListRFCResponse_from_bytes_read [OF assms(1)] show ?thesis by simp
qed

lemma ListRFCResponse_from_bytes_error:
  assumes "c \<noteq> 200"
  shows "ListRFCResponse_from_bytes (wire32 c @ rest) m = Inr (m\<lparr>lr_code := c\<rparr>)"
  using assms by (simp add: ListRFCResponse_from_bytes_def codec_simps)

section \<open>The message contract\<close>

interpretation list_res: message_codec ListRFCResponse_is_valid ListRFCResponse_message_size
    ListRFCResponse_from_bytes ListRFCResponse_to_bytes ListRFCResponse_init
    ListRFCResponse_representable
proof unfold_locales
  fix g m
  assume "\<not> ListRFCResponse_is_valid m"
  then show "ListRFCResponse_to_bytes g m = Inr Null" by (simp add: ListRFCResponse_to_bytes_def)
next
  fix g m
  assume v: "ListRFCResponse_is_valid m" and r: "ListRFCResponse_representable m"
  then have size: "unat (ListRFCResponse_message_size m) = length (holders_wire (lr_holders m)) + 8"
    by (simp add: ListRFCResponse_representable_def unat_ListRFCResponse_message_size)
  show "\<exists>buf. ListRFCResponse_to_bytes g m = Inr (Bytes buf) \<and>
      length buf = unat (ListRFCResponse_message_size m) \<and>
      ListRFCResponse_from_bytes buf ListRFCResponse_init = Inr m"
  proof (cases "lr_code m = 200")
    case True
    with v r show ?thesis
      using ListRFCResponse_to_bytes_200 [of m g]
        ListRFCResponse_from_bytes_200 [of "lr_holders m" "[]"]
      by (simp add: ListRFCResponse_is_valid_iff ListRFCResponse_representable_def size
          ListRFCResponse_init_def)
  next
    case False
    with v r show ?thesis
      using ListRFCResponse_to_bytes_error [of m g]
      by (simp add: ListRFCResponse_is_valid_iff ListRFCResponse_representable_def size
          ListRFCResponse_from_bytes_error ListRFCResponse_init_def)
  qed
qed

section \<open>Properties\<close>

definition demo_holders :: "RFCHolder list" where
  "demo_holders =
     [\<lparr>rfc = 791, peer = \<lparr>host = ''10.0.0.1'', port = 9000\<rparr>\<rparr>,
      \<lparr>rfc = 793, peer = \<lparr>host = ''10.0.0.2'', port = 9001\<rparr>\<rparr>]"

lemma length_holders_wire: "length (holders_wire hs) = (\<Sum>h \<leftarrow> hs. length (host (peer h)) + 12)"
  by (induction hs) (simp_all add: length_holder_wire)

text \<open>
  C11. Every valid response of fewer than 2^31 bytes is encoded into exactly \<open>message_size\<close> bytes, and
  decoding them into any object sets its code and, for code 200, appends the holders in the same order
  to those the object had, each host up to its first NUL; for the other codes, which may be valid with
  holders, the holders are not encoded and the object keeps its own.  So a new object decodes a valid
  response as it was exactly when no host has a NUL and a code other than 200 has no holders.
\<close>

theorem ListRFCResponse_roundtrip:
  assumes "ListRFCResponse_is_valid m" "8 + (\<Sum>h \<leftarrow> lr_holders m. length (host (peer h)) + 12) < 2 ^ 31"
  shows "\<exists>buf. ListRFCResponse_to_bytes g m = Inr (Bytes buf) \<and>
    length buf = unat (ListRFCResponse_message_size m) \<and>
    ListRFCResponse_from_bytes buf m0 = Inr \<lparr>lr_code = lr_code m, lr_holders = lr_holders m0 @
      (if lr_code m = 200 then map (\<lambda>h. h\<lparr>peer := (peer h)\<lparr>host := c_string (host (peer h))\<rparr>\<rparr>) (lr_holders m) else [])\<rparr> \<and>
    (ListRFCResponse_from_bytes buf ListRFCResponse_init = Inr m \<longleftrightarrow>
      (\<forall>h \<in> set (lr_holders m). nul \<notin> set (host (peer h))) \<and> (lr_code m = 200 \<or> lr_holders m = []))"
proof -
  have len: "length (holders_wire (lr_holders m)) + 8 < 2 ^ 31" using assms(2) by (simp add: length_holders_wire)
  have valid: "known_code (lr_code m)" "lr_code m = 200 \<Longrightarrow> holders_ok (lr_holders m)"
    using assms(1) by (simp_all add: ListRFCResponse_is_valid_iff)
  have size: "unat (ListRFCResponse_message_size m) = length (holders_wire (lr_holders m)) + 8"
    using len by (simp add: unat_ListRFCResponse_message_size)
  let ?hs = "if lr_code m = 200 then map holder_read (lr_holders m) else []"
  have "map holder_read hs = hs \<longleftrightarrow> (\<forall>h \<in> set hs. nul \<notin> set (host (peer h)))" for hs
    by (induction hs) (simp_all add: holder_representable_def)
  then have same: "\<lparr>lr_code = lr_code m, lr_holders = ?hs\<rparr> = m \<longleftrightarrow>
      (\<forall>h \<in> set (lr_holders m). nul \<notin> set (host (peer h))) \<and> (lr_code m = 200 \<or> lr_holders m = [])"
    by (cases m) auto
  obtain buf where "ListRFCResponse_to_bytes g m = Inr (Bytes buf)" "length buf = length (holders_wire (lr_holders m)) + 8"
      "\<And>m0. ListRFCResponse_from_bytes buf m0 = Inr \<lparr>lr_code = lr_code m, lr_holders = lr_holders m0 @ ?hs\<rparr>"
  proof (cases "lr_code m = 200")
    case True
    let ?buf = "wire32 200 @ wire32 (ulen (lr_holders m)) @ holders_wire (lr_holders m)"
    have "ListRFCResponse_from_bytes ?buf m0 = Inr \<lparr>lr_code = lr_code m, lr_holders = lr_holders m0 @ ?hs\<rparr>" for m0
      using ListRFCResponse_from_bytes_read [of "lr_holders m" "[]" m0] True len by (cases m0) simp
    with ListRFCResponse_to_bytes_200 [OF True valid(2), of g] True len show ?thesis by (intro that [of ?buf]) simp_all
  next
    case False
    let ?buf = "wire32 (lr_code m) @ map g [4..<length (holders_wire (lr_holders m)) + 8]"
    have "ListRFCResponse_from_bytes ?buf m0 = Inr \<lparr>lr_code = lr_code m, lr_holders = lr_holders m0 @ ?hs\<rparr>" for m0
      using False by (cases m0) (simp add: ListRFCResponse_from_bytes_error)
    with ListRFCResponse_to_bytes_code [OF valid(1) False, of g] len show ?thesis by (intro that [of ?buf]) simp_all
  qed
  with size same show ?thesis by (intro exI [of _ buf]) (simp add: holder_read_def [abs_def] ListRFCResponse_init_def)
qed

theorem ListRFCResponse_roundtrip_witness:
  "(\<exists>buf. ListRFCResponse_to_bytes (\<lambda>_. 7) (ListRFCResponse_new 200 demo_holders) = Inr (Bytes buf) \<and>
     length buf = unat (ListRFCResponse_message_size (ListRFCResponse_new 200 demo_holders)) \<and>
     ListRFCResponse_from_bytes buf ListRFCResponse_init = Inr (ListRFCResponse_new 200 demo_holders)) \<and>
   (\<exists>buf. ListRFCResponse_to_bytes (\<lambda>_. 7) (ListRFCResponse_new 404 demo_holders) = Inr (Bytes buf) \<and>
     ListRFCResponse_from_bytes buf ListRFCResponse_init = Inr (ListRFCResponse_new 404 []))"
  using ListRFCResponse_roundtrip [of "ListRFCResponse_new 200 demo_holders" "\<lambda>_. 7" ListRFCResponse_init]
    ListRFCResponse_roundtrip [of "ListRFCResponse_new 404 demo_holders" "\<lambda>_. 7" ListRFCResponse_init]
  by (auto simp: ListRFCResponse_new_def demo_holders_def nul_def ListRFCResponse_is_valid_def ListRFCResponse_init_def)

end
