(* ===== verification/Lookup_RFC_Response.thy ===== *)
theory Lookup_RFC_Response
  imports Message_Codec
begin

text \<open>
  \<open>LookupRFCResponse\<close> (\<open>src/lookup_rfc_res.cpp\<close>): the clients that hold one RFC, a status code
  and, for status 200, the number of clients and each client as length of the host, host, port.
  Unlike \<open>ListRFCResponse\<close>, decoding clears the object's list first, and the host is read into a
  variable-length array on the stack instead of one from \<open>new\<close>.
\<close>

section \<open>The class\<close>

record LookupRFCResponse =
  kr_code :: u32
  kr_hosts :: "Client list"

definition LookupRFCResponse_init :: LookupRFCResponse where
  "LookupRFCResponse_init = \<lparr>kr_code = 0, kr_hosts = []\<rparr>"

definition LookupRFCResponse_new :: "u32 \<Rightarrow> Client list \<Rightarrow> LookupRFCResponse" where
  "LookupRFCResponse_new code hosts = \<lparr>kr_code = code, kr_hosts = hosts\<rparr>"

definition LookupRFCResponse_get_code :: "LookupRFCResponse \<Rightarrow> u32" where
  "LookupRFCResponse_get_code m = kr_code m"

definition LookupRFCResponse_set_code :: "u32 \<Rightarrow> LookupRFCResponse \<Rightarrow> LookupRFCResponse" where
  "LookupRFCResponse_set_code code m = m\<lparr>kr_code := code\<rparr>"

definition LookupRFCResponse_get_hosts :: "LookupRFCResponse \<Rightarrow> Client list" where
  "LookupRFCResponse_get_hosts m = kr_hosts m"

definition LookupRFCResponse_set_hosts :: "Client list \<Rightarrow> LookupRFCResponse \<Rightarrow> LookupRFCResponse" where
  "LookupRFCResponse_set_hosts hosts m = m\<lparr>kr_hosts := hosts\<rparr>"

fun hosts_ok :: "Client list \<Rightarrow> bool" where
  "hosts_ok [] = True"
| "hosts_ok (it # its) =
     (if length (host it) = 0 \<or> sint (port it) \<le> 0 then False else hosts_ok its)"

definition LookupRFCResponse_is_valid :: "LookupRFCResponse \<Rightarrow> bool" where
  "LookupRFCResponse_is_valid m =
     (if 0 < sint (kr_code m) then
        if kr_code m \<noteq> 200 \<and> kr_code m \<noteq> 400 \<and> kr_code m \<noteq> 404 \<and> kr_code m \<noteq> 505 then False
        else if kr_code m = 200 then hosts_ok (kr_hosts m)
        else True
      else False)"

fun hosts_size :: "u32 \<Rightarrow> Client list \<Rightarrow> u32" where
  "hosts_size sz [] = sz"
| "hosts_size sz (it # its) = hosts_size (sz + (4 + ulen (host it) + 4)) its"

definition LookupRFCResponse_message_size :: "LookupRFCResponse \<Rightarrow> u32" where
  "LookupRFCResponse_message_size m = hosts_size (4 + 4) (kr_hosts m)"

text \<open>The body of the loop \<open>for (int i = 0; i < len_list; i++)\<close>, run for the given count.\<close>

fun decode_hosts :: "nat \<Rightarrow> byte list \<Rightarrow> u32 \<Rightarrow> Client list \<Rightarrow> Client list result" where
  "decode_hosts 0 bytes pos hosts = Inr hosts"
| "decode_hosts (Suc i) bytes pos hosts =
     bnd (memcpy_from bytes pos 4) (\<lambda>b.
     let len_host = ntohl (load32 b); pos = pos + 4 in
     bnd (int_inc len_host) (\<lambda>n.
     bnd (vla_int n) (\<lambda>_.
     bnd (memcpy_from bytes pos (size_of_int len_host)) (\<lambda>cs.
     let pos = pos + len_host in
     bnd (memcpy_from bytes pos 4) (\<lambda>b.
     let var_port = ntohl (load32 b);
         pos = pos + 4;
         c = \<lparr>host = c_string (bytes_string cs), port = var_port\<rparr>
     in decode_hosts i bytes pos (hosts @ [c]))))))"

definition LookupRFCResponse_from_bytes ::
    "byte list \<Rightarrow> LookupRFCResponse \<Rightarrow> LookupRFCResponse result" where
  "LookupRFCResponse_from_bytes bytes m =
     (let m = m\<lparr>kr_hosts := []\<rparr>; pos = 0 in
      bnd (memcpy_from bytes pos 4) (\<lambda>b.
      let m = m\<lparr>kr_code := ntohl (load32 b)\<rparr> in
      if kr_code m = 200 then
        let pos = pos + 4 in
        bnd (memcpy_from bytes pos 4) (\<lambda>b.
        let len_list = ntohl (load32 b); pos = pos + 4 in
        bnd (decode_hosts (nat (sint len_list)) bytes pos (kr_hosts m)) (\<lambda>hs.
        Inr (m\<lparr>kr_hosts := hs\<rparr>)))
      else Inr m))"

fun encode_hosts :: "byte list \<Rightarrow> u32 \<Rightarrow> Client list \<Rightarrow> byte list result" where
  "encode_hosts buf pos [] = Inr buf"
| "encode_hosts buf pos (it # its) =
     bnd (memcpy_to buf pos (store32 (htonl (ulen (host it))))) (\<lambda>buf.
     let pos = pos + 4 in
     bnd (memcpy_to buf pos (string_bytes (host it))) (\<lambda>buf.
     let pos = pos + ulen (host it) in
     bnd (memcpy_to buf pos (store32 (htonl (port it)))) (\<lambda>buf.
     let pos = pos + 4 in
     encode_hosts buf pos its)))"

definition LookupRFCResponse_to_bytes :: "(nat \<Rightarrow> byte) \<Rightarrow> LookupRFCResponse \<Rightarrow> bytes_ptr result" where
  "LookupRFCResponse_to_bytes g m =
     (if \<not> LookupRFCResponse_is_valid m then Inr Null
      else
        let buf = fresh_bytes g (unat (LookupRFCResponse_message_size m));
            pos = 0;
            tmp = htonl (kr_code m)
        in bnd (memcpy_to buf pos (store32 tmp)) (\<lambda>buf.
           if kr_code m = 200 then
             let pos = pos + 4;
                 tmp = htonl (ulen (kr_hosts m))
             in bnd (memcpy_to buf pos (store32 tmp)) (\<lambda>buf.
                let pos = pos + 4 in
                bnd (encode_hosts buf pos (kr_hosts m)) (\<lambda>buf.
                Inr (Bytes buf)))
           else Inr (Bytes buf)))"

section \<open>One client on the wire\<close>

definition client_wire :: "Client \<Rightarrow> byte list" where
  "client_wire c = wire32 (ulen (host c)) @ string_bytes (host c) @ wire32 (port c)"

definition clients_wire :: "Client list \<Rightarrow> byte list" where
  "clients_wire hs = concat (map client_wire hs)"

lemma length_client_wire: "length (client_wire c) = length (host c) + 8"
  by (simp add: client_wire_def)

lemma clients_wire_Nil [simp]: "clients_wire [] = []"
  by (simp add: clients_wire_def)

lemma clients_wire_Cons [simp]: "clients_wire (h # hs) = client_wire h @ clients_wire hs"
  by (simp add: clients_wire_def)

lemma hosts_ok_iff: "hosts_ok hs \<longleftrightarrow> (\<forall>c \<in> set hs. host c \<noteq> [] \<and> 0 < sint (port c))"
  by (induction hs) auto

lemma hosts_size_eq: "hosts_size n hs = n + of_nat (length (clients_wire hs))"
  by (induction n hs rule: hosts_size.induct) (simp_all add: length_client_wire ulen_def)

lemma encode_hosts_eq:
  assumes "unat pos = length done" and "length (done @ rest) < 2 ^ 32"
    and "length (clients_wire hs) \<le> length rest"
  shows "encode_hosts (done @ rest) pos hs =
    Inr (done @ clients_wire hs @ drop (length (clients_wire hs)) rest)"
  using assms
proof (induction hs arbitrary: pos "done" rest)
  case Nil
  then show ?case by simp
next
  case (Cons h hs)
  let ?w2 = "wire32 (ulen (host h))" and ?w3 = "string_bytes (host h)" and ?w4 = "wire32 (port h)"
  let ?n = "length (host h)"
  have room: "?n + 8 + length (clients_wire hs) \<le> length rest"
    using Cons.prems(3) by (simp add: length_client_wire)
  have p2: "unat (pos + 4) = length done + 4"
    using Cons.prems room by (subst unat_pos_add4) simp_all
  then have p3: "unat (pos + 4 + ulen (host h)) = length done + 4 + ?n"
    using Cons.prems room unat_pos_add [of "pos + 4" ?n] by (simp add: ulen_def)
  then have p4: "unat (pos + 4 + ulen (host h) + 4) = length (done @ client_wire h)"
    using Cons.prems room by (subst unat_pos_add4) (simp_all add: length_client_wire)
  have 2: "memcpy_to (done @ rest) pos ?w2 = Inr (done @ ?w2 @ drop 4 rest)"
    using Cons.prems room by (subst memcpy_to_at) simp_all
  have 3: "memcpy_to (done @ ?w2 @ drop 4 rest) (pos + 4) ?w3 =
      Inr (done @ ?w2 @ ?w3 @ drop (?n + 4) rest)"
    using memcpy_to_at [of "pos + 4" "done @ ?w2" ?w3 "drop 4 rest"] p2 room by simp
  have 4: "memcpy_to (done @ ?w2 @ ?w3 @ drop (?n + 4) rest) (pos + 4 + ulen (host h)) ?w4 =
      Inr ((done @ client_wire h) @ drop (8 + ?n) rest)"
    using memcpy_to_at [of "pos + 4 + ulen (host h)" "done @ ?w2 @ ?w3" ?w4
        "drop (?n + 4) rest"] p3 room
    by (simp add: client_wire_def)
  have IH: "encode_hosts ((done @ client_wire h) @ drop (8 + ?n) rest)
      (pos + 4 + ulen (host h) + 4) hs =
    Inr (done @ clients_wire (h # hs) @ drop (length (clients_wire (h # hs))) rest)"
    using Cons.IH [OF p4] Cons.prems(2) room
    by (simp add: length_client_wire algebra_simps)
  show ?case
    using IH by (simp add: Let_def 2 3 4 flip: wire32_def)
qed

text \<open>The host is read back as a C string: what follows a NUL is lost.\<close>

definition client_read :: "Client \<Rightarrow> Client" where
  "client_read c = c\<lparr>host := c_string (host c)\<rparr>"

definition client_representable :: "Client \<Rightarrow> bool" where
  "client_representable c \<longleftrightarrow> nul \<notin> set (host c)"

lemma client_read_same [simp]: "client_read c = c \<longleftrightarrow> client_representable c"
  by (cases c) (simp add: client_read_def client_representable_def c_string_same)

lemma decode_hosts_eq:
  assumes "unat pos = length done" and "length (done @ clients_wire hs) < 2 ^ 31"
  shows "decode_hosts (length hs) (done @ clients_wire hs @ rest) pos acc = Inr (acc @ map client_read hs)"
  using assms
proof (induction hs arbitrary: pos "done" acc)
  case Nil
  then show ?case by simp
next
  case (Cons h hs)
  let ?w2 = "wire32 (ulen (host h))" and ?w3 = "string_bytes (host h)" and ?w4 = "wire32 (port h)"
  let ?n = "length (host h)"
  let ?buf = "done @ clients_wire (h # hs) @ rest"
  have room: "length done + ?n + 8 + length (clients_wire hs) < 2 ^ 31"
    using Cons.prems(2) by (simp add: length_client_wire)
  have p2: "unat (pos + 4) = length done + 4"
    using Cons.prems room by (subst unat_pos_add4) simp_all
  then have p3: "unat (pos + 4 + ulen (host h)) = length done + 4 + ?n"
    using Cons.prems room unat_pos_add [of "pos + 4" ?n] by (simp add: ulen_def)
  then have p4: "unat (pos + 4 + ulen (host h) + 4) = length (done @ client_wire h)"
    using Cons.prems room by (subst unat_pos_add4) (simp_all add: length_client_wire)
  have 2: "memcpy_from ?buf pos 4 = Inr ?w2"
    using memcpy_from_at [of pos "done" ?w2 4] Cons.prems(1) by (simp add: client_wire_def)
  have 3: "memcpy_from ?buf (pos + 4) ?n = Inr ?w3"
    using memcpy_from_at [of "pos + 4" "done @ ?w2" ?w3] p2 by (simp add: client_wire_def)
  have 4: "memcpy_from ?buf (pos + 4 + ulen (host h)) 4 = Inr ?w4"
    using memcpy_from_at [of "pos + 4 + ulen (host h)" "done @ ?w2 @ ?w3" ?w4 4] p3
    by (simp add: client_wire_def)
  have IH: "decode_hosts (length hs) ?buf (pos + 4 + ulen (host h) + 4) (acc @ [client_read h]) =
      Inr (acc @ map client_read (h # hs))"
    using Cons.IH [OF p4, of "acc @ [client_read h]"] room by (simp add: length_client_wire)
  have len: "?n + 1 < 2 ^ 31" using room by simp
  have h: "\<lparr>host = c_string (host h), port = port h\<rparr> = client_read h"
    by (cases h) (simp add: client_read_def)
  show ?case
    using IH 2 3 4 by (simp add: Let_def h length_steps [OF len] del: clients_wire_Cons)
qed

section \<open>Messages on the wire\<close>

definition LookupRFCResponse_representable :: "LookupRFCResponse \<Rightarrow> bool" where
  "LookupRFCResponse_representable m \<longleftrightarrow>
     length (clients_wire (kr_hosts m)) + 8 < 2 ^ 31 \<and>
     (\<forall>c \<in> set (kr_hosts m). client_representable c) \<and>
     (kr_code m \<noteq> 200 \<longrightarrow> kr_hosts m = [])"

lemma length_clients_wire_ge: "length hs \<le> length (clients_wire hs)"
  by (induction hs) (simp_all add: length_client_wire)

lemma LookupRFCResponse_is_valid_iff:
  "LookupRFCResponse_is_valid m \<longleftrightarrow>
     known_code (kr_code m) \<and> (kr_code m = 200 \<longrightarrow> hosts_ok (kr_hosts m))"
  using known_code_positive [of "kr_code m"]
  by (auto simp: LookupRFCResponse_is_valid_def known_code_def)

lemma unat_LookupRFCResponse_message_size:
  assumes "length (clients_wire (kr_hosts m)) + 8 < 2 ^ 32"
  shows "unat (LookupRFCResponse_message_size m) = length (clients_wire (kr_hosts m)) + 8"
proof -
  have "LookupRFCResponse_message_size m = of_nat (length (clients_wire (kr_hosts m)) + 8)"
    by (simp add: LookupRFCResponse_message_size_def hosts_size_eq)
  then show ?thesis using assms by (simp only: unat32_of_nat)
qed

lemma LookupRFCResponse_to_bytes_200:
  assumes "kr_code m = 200" and "hosts_ok (kr_hosts m)"
    and "length (clients_wire (kr_hosts m)) + 8 < 2 ^ 32"
  shows "LookupRFCResponse_to_bytes g m =
    Inr (Bytes (wire32 200 @ wire32 (ulen (kr_hosts m)) @ clients_wire (kr_hosts m)))"
proof -
  let ?hs = "kr_hosts m" and ?L = "ulen (kr_hosts m)"
  let ?buf = "fresh_bytes g (length (clients_wire ?hs) + 8)"
  have valid: "LookupRFCResponse_is_valid m"
    using assms by (simp add: LookupRFCResponse_is_valid_iff known_code_def)
  have 1: "memcpy_to ?buf 0 (wire32 200) = Inr (wire32 200 @ drop 4 ?buf)"
    using memcpy_to_at [of 0 "[]" "wire32 200" ?buf] by simp
  have 2: "memcpy_to (wire32 200 @ drop 4 ?buf) 4 (wire32 ?L) =
      Inr (wire32 200 @ wire32 ?L @ drop 8 ?buf)"
    using memcpy_to_at [of 4 "wire32 200" "wire32 ?L" "drop 4 ?buf"] by simp
  have 3: "encode_hosts (wire32 200 @ wire32 ?L @ drop 8 ?buf) 8 ?hs =
      Inr (wire32 200 @ wire32 ?L @ clients_wire ?hs)"
    using encode_hosts_eq [of 8 "wire32 200 @ wire32 ?L" "drop 8 ?buf" ?hs] assms(3) by simp
  show ?thesis
    using valid assms(1,3) 1 2 3
    by (simp add: LookupRFCResponse_to_bytes_def unat_LookupRFCResponse_message_size Let_def
        flip: wire32_def)
qed

text \<open>For the other codes only the code is written; the rest of the array stays as it was.\<close>

lemma LookupRFCResponse_to_bytes_code:
  assumes "known_code (kr_code m)" and "kr_code m \<noteq> 200" and "length (clients_wire (kr_hosts m)) + 8 < 2 ^ 32"
  shows "LookupRFCResponse_to_bytes g m =
    Inr (Bytes (wire32 (kr_code m) @ map g [4..<length (clients_wire (kr_hosts m)) + 8]))"
proof -
  let ?n = "length (clients_wire (kr_hosts m)) + 8"
  have valid: "LookupRFCResponse_is_valid m"
    using assms by (simp add: LookupRFCResponse_is_valid_iff)
  have 1: "memcpy_to (fresh_bytes g ?n) 0 (wire32 (kr_code m)) =
      Inr (wire32 (kr_code m) @ drop 4 (fresh_bytes g ?n))"
    using memcpy_to_at [of 0 "[]" "wire32 (kr_code m)" "fresh_bytes g ?n"] by simp
  have 2: "drop 4 (fresh_bytes g ?n) = map g [4..<?n]" by (simp add: fresh_bytes_def drop_map)
  show ?thesis
    using valid assms(2) 1 2 unat_LookupRFCResponse_message_size [OF assms(3)]
    by (simp add: LookupRFCResponse_to_bytes_def Let_def flip: wire32_def)
qed

lemma LookupRFCResponse_to_bytes_error:
  assumes "known_code (kr_code m)" and "kr_code m \<noteq> 200" and "kr_hosts m = []"
  shows "LookupRFCResponse_to_bytes g m = Inr (Bytes (wire32 (kr_code m) @ map g [4..<8]))"
  using LookupRFCResponse_to_bytes_code [OF assms(1,2), of g] assms(3) by simp

lemma LookupRFCResponse_from_bytes_read:
  assumes "length (clients_wire hs) + 8 < 2 ^ 31"
  shows "LookupRFCResponse_from_bytes (wire32 200 @ wire32 (ulen hs) @ clients_wire hs @ rest) m =
    Inr (m\<lparr>kr_code := 200, kr_hosts := map client_read hs\<rparr>)"
proof -
  let ?buf = "wire32 200 @ wire32 (ulen hs) @ clients_wire hs @ rest"
  have 1: "memcpy_from ?buf 0 4 = Inr (wire32 200)"
    using memcpy_from_at [of 0 "[]" "wire32 200" 4] by simp
  have 2: "memcpy_from ?buf 4 4 = Inr (wire32 (ulen hs))"
    using memcpy_from_at [of 4 "wire32 200" "wire32 (ulen hs)" 4] by simp
  have 3: "decode_hosts (length hs) ?buf 8 [] = Inr (map client_read hs)"
    using decode_hosts_eq [of 8 "wire32 200 @ wire32 (ulen hs)" hs rest] assms by simp
  have "sint (ulen hs) = int (length hs)"
    using length_clients_wire_ge [of hs] assms(1) by (intro length_steps(1)) simp
  then show ?thesis
    using 1 2 3 by (simp add: LookupRFCResponse_from_bytes_def Let_def)
qed

lemma LookupRFCResponse_from_bytes_200:
  assumes "length (clients_wire hs) + 8 < 2 ^ 31" and "\<forall>c \<in> set hs. client_representable c"
  shows "LookupRFCResponse_from_bytes (wire32 200 @ wire32 (ulen hs) @ clients_wire hs @ rest) m =
    Inr (m\<lparr>kr_code := 200, kr_hosts := hs\<rparr>)"
proof -
  have "map client_read hs = hs" using assms(2) by (intro map_idI) simp
  with LookupRFCResponse_from_bytes_read [OF assms(1)] show ?thesis by simp
qed

lemma LookupRFCResponse_from_bytes_error:
  assumes "c \<noteq> 200"
  shows "LookupRFCResponse_from_bytes (wire32 c @ rest) m = Inr (m\<lparr>kr_code := c, kr_hosts := []\<rparr>)"
  using assms by (simp add: LookupRFCResponse_from_bytes_def codec_simps)

section \<open>The message contract\<close>

interpretation lookup_res: message_codec LookupRFCResponse_is_valid LookupRFCResponse_message_size
    LookupRFCResponse_from_bytes LookupRFCResponse_to_bytes LookupRFCResponse_init
    LookupRFCResponse_representable
proof unfold_locales
  fix g m
  assume "\<not> LookupRFCResponse_is_valid m"
  then show "LookupRFCResponse_to_bytes g m = Inr Null" by (simp add: LookupRFCResponse_to_bytes_def)
next
  fix g m
  assume v: "LookupRFCResponse_is_valid m" and r: "LookupRFCResponse_representable m"
  then have size: "unat (LookupRFCResponse_message_size m) = length (clients_wire (kr_hosts m)) + 8"
    by (simp add: LookupRFCResponse_representable_def unat_LookupRFCResponse_message_size)
  show "\<exists>buf. LookupRFCResponse_to_bytes g m = Inr (Bytes buf) \<and>
      length buf = unat (LookupRFCResponse_message_size m) \<and>
      LookupRFCResponse_from_bytes buf LookupRFCResponse_init = Inr m"
  proof (cases "kr_code m = 200")
    case True
    with v r show ?thesis
      using LookupRFCResponse_to_bytes_200 [of m g]
        LookupRFCResponse_from_bytes_200 [of "kr_hosts m" "[]"]
      by (simp add: LookupRFCResponse_is_valid_iff LookupRFCResponse_representable_def size
          LookupRFCResponse_init_def)
  next
    case False
    with v r show ?thesis
      using LookupRFCResponse_to_bytes_error [of m g]
      by (simp add: LookupRFCResponse_is_valid_iff LookupRFCResponse_representable_def size
          LookupRFCResponse_from_bytes_error LookupRFCResponse_init_def)
  qed
qed

section \<open>Properties\<close>

definition demo_hosts :: "Client list" where
  "demo_hosts = [\<lparr>host = ''10.0.0.1'', port = 9000\<rparr>, \<lparr>host = ''10.0.0.2'', port = 9001\<rparr>]"

lemma length_clients_wire: "length (clients_wire hs) = (\<Sum>c \<leftarrow> hs. length (host c) + 8)"
  by (induction hs) (simp_all add: length_client_wire)

text \<open>
  C12. Every valid response of fewer than 2^31 bytes is encoded into exactly \<open>message_size\<close> bytes, and
  decoding them into any object gives its code, and for code 200 its peers in the same order, each host up
  to its first NUL; for the other codes, which may be valid with peers, the peers are not encoded and the
  decoded list is empty.  So a valid response comes back as it was exactly when no host has a NUL and a
  code other than 200 has no peers.
\<close>

theorem LookupRFCResponse_roundtrip:
  assumes "LookupRFCResponse_is_valid m" "8 + (\<Sum>c \<leftarrow> kr_hosts m. length (host c) + 8) < 2 ^ 31"
  shows "\<exists>buf. LookupRFCResponse_to_bytes g m = Inr (Bytes buf) \<and>
    length buf = unat (LookupRFCResponse_message_size m) \<and>
    LookupRFCResponse_from_bytes buf m0 =
      Inr (m\<lparr>kr_hosts := if kr_code m = 200 then map (\<lambda>c. c\<lparr>host := c_string (host c)\<rparr>) (kr_hosts m) else []\<rparr>) \<and>
    (LookupRFCResponse_from_bytes buf m0 = Inr m \<longleftrightarrow>
      (\<forall>c \<in> set (kr_hosts m). nul \<notin> set (host c)) \<and> (kr_code m = 200 \<or> kr_hosts m = []))"
proof -
  have len: "length (clients_wire (kr_hosts m)) + 8 < 2 ^ 31" using assms(2) by (simp add: length_clients_wire)
  have valid: "known_code (kr_code m)" "kr_code m = 200 \<Longrightarrow> hosts_ok (kr_hosts m)"
    using assms(1) by (simp_all add: LookupRFCResponse_is_valid_iff)
  have size: "unat (LookupRFCResponse_message_size m) = length (clients_wire (kr_hosts m)) + 8"
    using len by (simp add: unat_LookupRFCResponse_message_size)
  let ?m = "m\<lparr>kr_hosts := if kr_code m = 200 then map client_read (kr_hosts m) else []\<rparr>"
  have "map client_read hs = hs \<longleftrightarrow> (\<forall>c \<in> set hs. nul \<notin> set (host c))" for hs
    by (induction hs) (simp_all add: client_representable_def)
  then have same: "?m = m \<longleftrightarrow> (\<forall>c \<in> set (kr_hosts m). nul \<notin> set (host c)) \<and> (kr_code m = 200 \<or> kr_hosts m = [])"
    by (cases m) auto
  obtain buf where "LookupRFCResponse_to_bytes g m = Inr (Bytes buf)" "length buf = length (clients_wire (kr_hosts m)) + 8"
      "LookupRFCResponse_from_bytes buf m0 = Inr ?m"
  proof (cases "kr_code m = 200")
    case True
    let ?buf = "wire32 200 @ wire32 (ulen (kr_hosts m)) @ clients_wire (kr_hosts m)"
    have "LookupRFCResponse_from_bytes ?buf m0 = Inr ?m"
      using LookupRFCResponse_from_bytes_read [of "kr_hosts m" "[]" m0] True len by (cases m0; cases m) simp
    with LookupRFCResponse_to_bytes_200 [OF True valid(2), of g] True len show ?thesis by (intro that [of ?buf]) simp_all
  next
    case False
    let ?buf = "wire32 (kr_code m) @ map g [4..<length (clients_wire (kr_hosts m)) + 8]"
    have "LookupRFCResponse_from_bytes ?buf m0 = Inr ?m"
      using False by (cases m0; cases m) (simp add: LookupRFCResponse_from_bytes_error)
    with LookupRFCResponse_to_bytes_code [OF valid(1) False, of g] len show ?thesis by (intro that [of ?buf]) simp_all
  qed
  with size same show ?thesis by (intro exI [of _ buf]) (simp add: client_read_def)
qed

theorem LookupRFCResponse_roundtrip_witness:
  "(\<exists>buf. LookupRFCResponse_to_bytes (\<lambda>_. 7) (LookupRFCResponse_new 200 demo_hosts) = Inr (Bytes buf) \<and>
     length buf = unat (LookupRFCResponse_message_size (LookupRFCResponse_new 200 demo_hosts)) \<and>
     LookupRFCResponse_from_bytes buf LookupRFCResponse_init = Inr (LookupRFCResponse_new 200 demo_hosts)) \<and>
   (\<exists>buf. LookupRFCResponse_to_bytes (\<lambda>_. 7) (LookupRFCResponse_new 404 demo_hosts) = Inr (Bytes buf) \<and>
     LookupRFCResponse_from_bytes buf LookupRFCResponse_init = Inr (LookupRFCResponse_new 404 []))"
  using LookupRFCResponse_roundtrip [of "LookupRFCResponse_new 200 demo_hosts" "\<lambda>_. 7" LookupRFCResponse_init]
    LookupRFCResponse_roundtrip [of "LookupRFCResponse_new 404 demo_hosts" "\<lambda>_. 7" LookupRFCResponse_init]
  by (auto simp: LookupRFCResponse_new_def demo_hosts_def nul_def LookupRFCResponse_is_valid_def)

end
