(* ===== verification/Server.thy ===== *)
theory Server
  imports Handler_Common Central_Index Messages_Fixed List_RFC_Response Lookup_RFC_Response
begin

text \<open>
  The index server (\<open>src/server.cpp\<close>): the handler of one connection, from the exchange of versions
  to the disconnect, over any socket class.  The index is part of the state; the handler is run here
  with no other session in between (\<open>Server_Threads\<close> interleaves it with others).  What the server
  prints is the log.  \<open>g\<close> is the memory that fresh arrays and uninitialised variables are made of.

  A session is a list of requests.  \<open>answer\<close> says what each one must get back and what it does to
  the index, without sockets, buffers or encodings; the handler refines it.
\<close>

section \<open>The program\<close>

record server_state =
  sv_index :: CentralIndex
  sv_log :: "string list"

definition show_client :: "string \<Rightarrow> u32 \<Rightarrow> string" where
  "show_client h p = h @ '' ('' @ dec_int (sint p) @ '')''"

definition server_add_rfc ::
    "'s sock_ops \<Rightarrow> (nat \<Rightarrow> byte) \<Rightarrow> string \<Rightarrow> u32 \<Rightarrow> server_state \<times> 's \<Rightarrow> (server_state \<times> 's) result" where
  "server_add_rfc ops g hostname upload_port = (\<lambda>(st, s).
     bnd (recv_bytes ops (fresh_bytes g 4) s) (\<lambda>(buf, s).
     bnd (AddRFCMessage_from_bytes buf AddRFCMessage_init) (\<lambda>msg.
     let rfc_num = AddRFCMessage_get_number msg;
         (added, ci) = add_rfc hostname upload_port rfc_num (sv_index st);
         code = (if \<not> added then 400 else 200);
         res = AddRFCResponse_new code
     in bnd (AddRFCResponse_to_bytes g res) (\<lambda>buf.
        bnd (send_ptr ops buf (unat (AddRFCResponse_message_size res)) s) (\<lambda>s.
        Inr (\<lparr>sv_index = ci, sv_log = sv_log st @ [''       ADD - '' @ show_client hostname upload_port @
               '' RFC'' @ dec_int (sint rfc_num)]\<rparr>, s))))))"

definition server_list_rfcs ::
    "'s sock_ops \<Rightarrow> (nat \<Rightarrow> byte) \<Rightarrow> string \<Rightarrow> u32 \<Rightarrow> server_state \<times> 's \<Rightarrow> (server_state \<times> 's) result" where
  "server_list_rfcs ops g hostname upload_port = (\<lambda>(st, s).
     let holders = all_rfcs (sv_index st);
         code = (if length holders \<noteq> 0 then 200 else 404);
         res = ListRFCResponse_new code holders
     in bnd (ListRFCResponse_to_bytes g res) (\<lambda>buf.
        bnd (send_with_size ops (ListRFCResponse_message_size res) buf s) (\<lambda>s.
        Inr (st\<lparr>sv_log := sv_log st @ [''      LIST - '' @ show_client hostname upload_port]\<rparr>, s))))"

definition server_lookup_rfc ::
    "'s sock_ops \<Rightarrow> (nat \<Rightarrow> byte) \<Rightarrow> string \<Rightarrow> u32 \<Rightarrow> server_state \<times> 's \<Rightarrow> (server_state \<times> 's) result" where
  "server_lookup_rfc ops g hostname upload_port = (\<lambda>(st, s).
     bnd (recv_bytes ops (fresh_bytes g 4) s) (\<lambda>(buf, s).
     bnd (LookupRFCMessage_from_bytes buf LookupRFCMessage_init) (\<lambda>msg.
     let rfc_num = LookupRFCMessage_get_number msg;
         clients = find_rfcs rfc_num (sv_index st);
         code = (if length clients = 0 then 404 else 200);
         res = LookupRFCResponse_new code clients
     in bnd (LookupRFCResponse_to_bytes g res) (\<lambda>buf.
        bnd (send_with_size ops (LookupRFCResponse_message_size res) buf s) (\<lambda>s.
        Inr (st\<lparr>sv_log := sv_log st @ [''    LOOKUP - '' @ show_client hostname upload_port @
               '' RFC'' @ dec_int (sint rfc_num)]\<rparr>, s))))))"

text \<open>
  One round of the loop: a failing \<open>recv\<close> leaves the variable \<open>message\<close> as it is, and \<open>ntohl\<close> is
  applied to it all the same.
\<close>

definition serve_message ::
    "'s sock_ops \<Rightarrow> (nat \<Rightarrow> byte) \<Rightarrow> string \<Rightarrow> u32 \<Rightarrow> u32 \<Rightarrow> server_state \<times> 's \<Rightarrow>
     (u32 \<times> server_state \<times> 's) result" where
  "serve_message ops g hostname upload_port message = (\<lambda>(st, s).
     bnd (recv_int ops message s) (\<lambda>(message, s).
     let message = ntohl message
     in bnd (if message = P2SMessage_int P2S_ADD then server_add_rfc ops g hostname upload_port (st, s)
             else if message = P2SMessage_int P2S_LIST then server_list_rfcs ops g hostname upload_port (st, s)
             else if message = P2SMessage_int P2S_LOOKUP then server_lookup_rfc ops g hostname upload_port (st, s)
             else Inr (st, s))
          (\<lambda>(st, s). Inr (message, st, s))))"

partial_function (option) serve_loop ::
    "'s sock_ops \<Rightarrow> (nat \<Rightarrow> byte) \<Rightarrow> string \<Rightarrow> u32 \<Rightarrow> u32 \<Rightarrow> server_state \<times> 's \<Rightarrow>
     (server_state \<times> 's) result option" where
  "serve_loop ops g hostname upload_port message sts =
     (case serve_message ops g hostname upload_port message sts of
        Inl e \<Rightarrow> Some (Inl e)
      | Inr (message, sts) \<Rightarrow>
          if message \<noteq> P2SMessage_int P2S_DISCONNECT
          then serve_loop ops g hostname upload_port message sts
          else Some (Inr sts))"

text \<open>
  After the loop; the first component of the result is \<open>*is_finished\<close>, which the caller has set to
  false.
\<close>

definition server_leave ::
    "'s sock_ops \<Rightarrow> string \<Rightarrow> u32 \<Rightarrow> server_state \<times> 's \<Rightarrow> (bool \<times> server_state \<times> 's) result" where
  "server_leave ops hostname upload_port = (\<lambda>(st, s).
     let (_, ci) = remove_client hostname upload_port (sv_index st);
         st = \<lparr>sv_index = ci, sv_log = sv_log st @ [''DISCONNECT - '' @ show_client hostname upload_port]\<rparr>;
         s = vclose ops s
     in Inr (True, st, s))"

definition server_client_handler ::
    "'s sock_ops \<Rightarrow> (nat \<Rightarrow> byte) \<Rightarrow> server_state \<Rightarrow> 's \<Rightarrow> (bool \<times> server_state \<times> 's) result" where
  "server_client_handler ops g st s =
     (let server_version = htonl PROTOCOL_VERSION
      in bnd (send_int ops server_version s) (\<lambda>s.
         let server_version = ntohl server_version in
         bnd (recv_int ops (load32 (fresh_bytes g 4)) s) (\<lambda>(client_version, s).
         let client_version = ntohl client_version in
         if server_version \<noteq> client_version
         then Inr (False, st\<lparr>sv_log := sv_log st @
                [''Client tried connecting, but uses unsupported protocol version'']\<rparr>, s)
         else
           bnd (recv_identity ops g s) (\<lambda>(hostname, upload_port, s).
           let st = st\<lparr>sv_log := sv_log st @ [''   CONNECT - '' @ show_client hostname upload_port]\<rparr>;
               (_, ci) = add_client hostname upload_port (sv_index st);
               st = st\<lparr>sv_index := ci\<rparr>
           in bnd (run_loop (serve_loop ops g hostname upload_port (load32 (fresh_bytes g 4)) (st, s)))
                (server_leave ops hostname upload_port)))))"

section \<open>What the requests must get back\<close>

datatype request =
    Ask_add u32
  | Ask_list
  | Ask_lookup u32
  | Ask_other u32  \<comment> \<open>a message word the handler ignores\<close>

fun request_blocks :: "request \<Rightarrow> byte list list" where
  "request_blocks (Ask_add n) = [wire32 1, wire32 n]"
| "request_blocks Ask_list = [wire32 2]"
| "request_blocks (Ask_lookup n) = [wire32 3, wire32 n]"
| "request_blocks (Ask_other m) = [wire32 m]"

text \<open>What a client sends: its version, its host and port, its requests.\<close>

definition session_blocks :: "string \<Rightarrow> u32 \<Rightarrow> request list \<Rightarrow> byte list list" where
  "session_blocks h p rs =
     wire32 PROTOCOL_VERSION # identity_blocks h p @ concat (map request_blocks rs)"

fun proper :: "request \<Rightarrow> bool" where
  "proper (Ask_other m) \<longleftrightarrow> m \<notin> {1, 2, 3, 4}"
| "proper _ \<longleftrightarrow> True"

definition list_wire :: "(nat \<Rightarrow> byte) \<Rightarrow> RFCHolder list \<Rightarrow> byte list" where
  "list_wire g hs =
     (if hs = [] then wire32 404 @ map g [4..<8] else wire32 200 @ wire32 (ulen hs) @ holders_wire hs)"

definition lookup_wire :: "(nat \<Rightarrow> byte) \<Rightarrow> Client list \<Rightarrow> byte list" where
  "lookup_wire g cs =
     (if cs = [] then wire32 404 @ map g [4..<8] else wire32 200 @ wire32 (ulen cs) @ clients_wire cs)"

fun answer :: "(nat \<Rightarrow> byte) \<Rightarrow> string \<Rightarrow> u32 \<Rightarrow> request \<Rightarrow> CentralIndex \<Rightarrow> byte list list \<times> CentralIndex" where
  "answer g h p (Ask_add n) ci =
     ([wire32 (if fst (add_rfc h p n ci) then 200 else 400)], snd (add_rfc h p n ci))"
| "answer g h p Ask_list ci = ([wire32 (ulen (list_wire g (rfcs ci))), list_wire g (rfcs ci)], ci)"
| "answer g h p (Ask_lookup n) ci =
     ([wire32 (ulen (lookup_wire g (find_rfcs n ci))), lookup_wire g (find_rfcs n ci)], ci)"
| "answer g h p (Ask_other m) ci = ([], ci)"

fun answers :: "(nat \<Rightarrow> byte) \<Rightarrow> string \<Rightarrow> u32 \<Rightarrow> request list \<Rightarrow> CentralIndex \<Rightarrow> byte list list \<times> CentralIndex" where
  "answers g h p [] ci = ([], ci)"
| "answers g h p (r # rs) ci =
     (let (a, ci) = answer g h p r ci; (as, ci) = answers g h p rs ci in (a @ as, ci))"

text \<open>What the server prints of a request, and of a whole session.\<close>

fun request_log :: "string \<Rightarrow> u32 \<Rightarrow> request \<Rightarrow> string list" where
  "request_log h p (Ask_add n) = [''       ADD - '' @ show_client h p @ '' RFC'' @ dec_int (sint n)]"
| "request_log h p Ask_list = [''      LIST - '' @ show_client h p]"
| "request_log h p (Ask_lookup n) = [''    LOOKUP - '' @ show_client h p @ '' RFC'' @ dec_int (sint n)]"
| "request_log h p (Ask_other m) = []"

definition session_log :: "string \<Rightarrow> u32 \<Rightarrow> request list \<Rightarrow> string list" where
  "session_log h p rs =
     (''   CONNECT - '' @ show_client h p) # concat (map (request_log h p) rs) @ [''DISCONNECT - '' @ show_client h p]"

text \<open>An index whose holders can be sent: hosts not empty, ports positive, everything in an \<open>int\<close>.\<close>

definition sendable :: "CentralIndex \<Rightarrow> bool" where
  "sendable ci \<longleftrightarrow> holders_ok (rfcs ci) \<and> length (holders_wire (rfcs ci)) + 9 < 2 ^ 31"

text \<open>Only the requests that send holders or peers need it.\<close>

fun request_sendable :: "request \<Rightarrow> CentralIndex \<Rightarrow> bool" where
  "request_sendable Ask_list ci \<longleftrightarrow> sendable ci"
| "request_sendable (Ask_lookup n) ci \<longleftrightarrow> sendable ci"
| "request_sendable _ ci \<longleftrightarrow> True"

fun all_sendable :: "(nat \<Rightarrow> byte) \<Rightarrow> string \<Rightarrow> u32 \<Rightarrow> request list \<Rightarrow> CentralIndex \<Rightarrow> bool" where
  "all_sendable g h p [] ci \<longleftrightarrow> True"
| "all_sendable g h p (r # rs) ci \<longleftrightarrow> request_sendable r ci \<and> all_sendable g h p rs (snd (answer g h p r ci))"

section \<open>Lookups of a sendable index\<close>

lemma clients_wire_collect_le: "length (clients_wire (collect_peers n rs)) \<le> length (holders_wire rs)"
  by (induction rs) (auto simp: length_client_wire length_holder_wire)

lemma hosts_ok_collect: "holders_ok rs \<Longrightarrow> hosts_ok (collect_peers n rs)"
  by (induction rs) (auto split: if_splits)

lemma sendable_lookup:
  assumes "sendable ci"
  shows "hosts_ok (find_rfcs n ci)" "length (clients_wire (find_rfcs n ci)) + 9 < 2 ^ 31"
proof -
  show "hosts_ok (find_rfcs n ci)"
    using assms by (simp add: sendable_def find_rfcs_def hosts_ok_collect)
  show "length (clients_wire (find_rfcs n ci)) + 9 < 2 ^ 31"
    using assms clients_wire_collect_le [of n "rfcs ci"] unfolding sendable_def find_rfcs_def by linarith
qed

text \<open>The encoded answers.\<close>

lemma list_answer_bytes:
  assumes "sendable ci" "res = ListRFCResponse_new (if rfcs ci = [] then 404 else 200) (rfcs ci)"
  shows "ListRFCResponse_to_bytes g res = Inr (Bytes (list_wire g (rfcs ci)))"
    and "ListRFCResponse_message_size res = ulen (list_wire g (rfcs ci))"
    and "length (list_wire g (rfcs ci)) + 1 < 2 ^ 31"
proof -
  show "length (list_wire g (rfcs ci)) + 1 < 2 ^ 31"
    using assms(1) by (simp add: list_wire_def sendable_def)
  show "ListRFCResponse_message_size res = ulen (list_wire g (rfcs ci))"
    using assms(2) by (simp add: ListRFCResponse_message_size_def ListRFCResponse_new_def
        holders_size_eq list_wire_def ulen_def)
  show "ListRFCResponse_to_bytes g res = Inr (Bytes (list_wire g (rfcs ci)))"
    using assms ListRFCResponse_to_bytes_200 [of res g] ListRFCResponse_to_bytes_error [of res g]
    by (simp add: list_wire_def ListRFCResponse_new_def sendable_def known_code_def)
qed

lemma lookup_answer_bytes:
  assumes "hosts_ok cs" "length (clients_wire cs) + 9 < 2 ^ 31"
    and "res = LookupRFCResponse_new (if cs = [] then 404 else 200) cs"
  shows "LookupRFCResponse_to_bytes g res = Inr (Bytes (lookup_wire g cs))"
    and "LookupRFCResponse_message_size res = ulen (lookup_wire g cs)"
    and "length (lookup_wire g cs) + 1 < 2 ^ 31"
proof -
  show "length (lookup_wire g cs) + 1 < 2 ^ 31"
    using assms(2) by (simp add: lookup_wire_def)
  show "LookupRFCResponse_message_size res = ulen (lookup_wire g cs)"
    using assms(3) by (simp add: LookupRFCResponse_message_size_def LookupRFCResponse_new_def
        hosts_size_eq lookup_wire_def ulen_def)
  show "LookupRFCResponse_to_bytes g res = Inr (Bytes (lookup_wire g cs))"
    using assms LookupRFCResponse_to_bytes_200 [of res g] LookupRFCResponse_to_bytes_error [of res g]
    by (simp add: lookup_wire_def LookupRFCResponse_new_def known_code_def)
qed

end
