(* ===== verification/Server_Sessions.thy ===== *)
theory Server_Sessions
  imports Server
begin

text \<open>
  Sessions of the server, proved in the contract of sockets and then stated for the encrypted
  sockets the server runs on: a complete session is answered request by request as \<open>answer\<close> says and
  leaves the index as if the client had never been there, except for what others hold; a session
  without the disconnect never ends; and the inputs that end in undefined behaviour.
\<close>

section \<open>Requests over a socket\<close>

fun request_word :: "request \<Rightarrow> u32" where
  "request_word (Ask_add n) = 1"
| "request_word Ask_list = 2"
| "request_word (Ask_lookup n) = 3"
| "request_word (Ask_other m) = m"

lemma request_word_proper: "proper r \<Longrightarrow> request_word r \<noteq> 4"
  by (cases r) auto

text \<open>What the handler of a request sends, and what it leaves, once it has read the number.\<close>

lemma server_add_rfc_eq:
  assumes "recv_bytes ops (fresh_bytes g 4) s = Inr (wire32 n, s1)"
  shows "server_add_rfc ops g h p (st, s) =
    bnd (send_bytes ops (wire32 (if fst (add_rfc h p n (sv_index st)) then 200 else 400)) s1) (\<lambda>s.
    Inr (\<lparr>sv_index = snd (add_rfc h p n (sv_index st)), sv_log = sv_log st @ request_log h p (Ask_add n)\<rparr>, s))"
proof -
  let ?code = "if fst (add_rfc h p n (sv_index st)) then 200 else 400 :: u32"
  have enc: "AddRFCResponse_to_bytes g (AddRFCResponse_new ?code) = Inr (Bytes (wire32 ?code))"
    by (simp add: codec_simps AddRFCResponse_is_valid_def AddRFCResponse_new_def)
  have size: "unat (AddRFCResponse_message_size (AddRFCResponse_new ?code)) = length (wire32 ?code)"
    by (simp add: AddRFCResponse_message_size_def)
  show ?thesis
    using assms enc size
    by (cases "fst (add_rfc h p n (sv_index st))")
      (simp_all add: server_add_rfc_def codec_simps AddRFCMessage_get_number_def case_prod_beta AddRFCMessage_init_def)
qed

lemma server_list_rfcs_eq:
  assumes "sendable (sv_index st)" "w = list_wire g (rfcs (sv_index st))"
  shows "server_list_rfcs ops g h p (st, s) = bnd (send_with_size ops (ulen w) (Bytes w) s) (\<lambda>s.
    Inr (st\<lparr>sv_log := sv_log st @ request_log h p Ask_list\<rparr>, s))"
  using list_answer_bytes [OF assms(1) refl, of g] assms(2)
  by (cases "rfcs (sv_index st) = []") (simp_all add: server_list_rfcs_def all_rfcs_def Let_def)

lemma server_lookup_rfc_eq:
  assumes "recv_bytes ops (fresh_bytes g 4) s = Inr (wire32 n, s1)" "sendable (sv_index st)"
    and "w = lookup_wire g (find_rfcs n (sv_index st))"
  shows "server_lookup_rfc ops g h p (st, s) = bnd (send_with_size ops (ulen w) (Bytes w) s1) (\<lambda>s.
    Inr (st\<lparr>sv_log := sv_log st @ request_log h p (Ask_lookup n)\<rparr>, s))"
  using lookup_answer_bytes [OF sendable_lookup [OF assms(2), of n] refl, of g] assms(1,3)
  by (cases "find_rfcs n (sv_index st) = []") (simp_all add: server_lookup_rfc_def codec_simps
        LookupRFCMessage_get_number_def LookupRFCMessage_init_def Let_def)

context frame_socket
begin

lemma server_add_rfc_after:
  assumes "recv_bytes ops (fresh_bytes g 4) s = Inr (wire32 n, s1)" "conn s1 ins outs"
  shows "\<exists>st' s'. server_add_rfc ops g h p (st, s) = Inr (st', s') \<and>
    sv_index st' = snd (answer g h p (Ask_add n) (sv_index st)) \<and>
    sv_log st' = sv_log st @ request_log h p (Ask_add n) \<and>
    conn s' ins (outs @ fst (answer g h p (Ask_add n) (sv_index st)))"
  using send_bytes_conn [OF assms(2), of "wire32 (if fst (add_rfc h p n (sv_index st)) then 200 else 400)"]
  by (auto simp: server_add_rfc_eq [OF assms(1)])

lemma server_add_rfc_conn:
  assumes "conn s (wire32 n # ins) outs"
  shows "\<exists>st' s'. server_add_rfc ops g h p (st, s) = Inr (st', s') \<and>
    sv_index st' = snd (answer g h p (Ask_add n) (sv_index st)) \<and>
    sv_log st' = sv_log st @ request_log h p (Ask_add n) \<and>
    conn s' ins (outs @ fst (answer g h p (Ask_add n) (sv_index st)))"
  using recv_bytes_conn [OF assms, of "fresh_bytes g 4"] server_add_rfc_after by fastforce

lemma server_list_rfcs_conn:
  assumes "conn s ins outs" "sendable (sv_index st)"
  shows "\<exists>st' s'. server_list_rfcs ops g h p (st, s) = Inr (st', s') \<and> sv_index st' = sv_index st \<and>
    sv_log st' = sv_log st @ request_log h p Ask_list \<and> conn s' ins (outs @ fst (answer g h p Ask_list (sv_index st)))"
  using send_with_size_conn [OF assms(1) list_answer_bytes(3) [OF assms(2) refl, of g]]
  by (auto simp: server_list_rfcs_eq [OF assms(2) refl])

lemma server_lookup_rfc_after:
  assumes "recv_bytes ops (fresh_bytes g 4) s = Inr (wire32 n, s1)" "conn s1 ins outs" "sendable (sv_index st)"
  shows "\<exists>st' s'. server_lookup_rfc ops g h p (st, s) = Inr (st', s') \<and> sv_index st' = sv_index st \<and>
    sv_log st' = sv_log st @ request_log h p (Ask_lookup n) \<and>
    conn s' ins (outs @ fst (answer g h p (Ask_lookup n) (sv_index st)))"
  using send_with_size_conn [OF assms(2) lookup_answer_bytes(3) [OF sendable_lookup [OF assms(3), of n] refl, of g]]
  by (auto simp: server_lookup_rfc_eq [OF assms(1,3) refl])

lemma server_lookup_rfc_conn:
  assumes "conn s (wire32 n # ins) outs" "sendable (sv_index st)"
  shows "\<exists>st' s'. server_lookup_rfc ops g h p (st, s) = Inr (st', s') \<and> sv_index st' = sv_index st \<and>
    sv_log st' = sv_log st @ request_log h p (Ask_lookup n) \<and>
    conn s' ins (outs @ fst (answer g h p (Ask_lookup n) (sv_index st)))"
  using recv_bytes_conn [OF assms(1), of "fresh_bytes g 4"] server_lookup_rfc_after [OF _ _ assms(2)]
  by fastforce

lemma serve_message_conn:
  assumes "conn s (request_blocks r @ ins) outs" "proper r" "request_sendable r (sv_index st)"
  shows "\<exists>st' s'. serve_message ops g h p m (st, s) = Inr (request_word r, st', s') \<and>
    sv_index st' = snd (answer g h p r (sv_index st)) \<and> sv_log st' = sv_log st @ request_log h p r \<and>
    conn s' ins (outs @ fst (answer g h p r (sv_index st)))"
proof (cases r)
  case (Ask_add n)
  obtain s1 where s1: "recv_int ops m s = Inr (htonl 1, s1)" "conn s1 (wire32 n # ins) outs"
    using recv_int_conn [of s 1 "wire32 n # ins" outs m] assms(1) Ask_add by auto
  from server_add_rfc_conn [OF s1(2), of g h p st] s1(1) Ask_add show ?thesis
    by (auto simp: serve_message_def)
next
  case Ask_list
  obtain s1 where s1: "recv_int ops m s = Inr (htonl 2, s1)" "conn s1 ins outs"
    using recv_int_conn [of s 2 ins outs m] assms(1) Ask_list by auto
  have "sendable (sv_index st)" using assms(3) Ask_list by simp
  from server_list_rfcs_conn [OF s1(2) this, of g h p] s1(1) Ask_list show ?thesis
    by (auto simp: serve_message_def)
next
  case (Ask_lookup n)
  obtain s1 where s1: "recv_int ops m s = Inr (htonl 3, s1)" "conn s1 (wire32 n # ins) outs"
    using recv_int_conn [of s 3 "wire32 n # ins" outs m] assms(1) Ask_lookup by auto
  have "sendable (sv_index st)" using assms(3) Ask_lookup by simp
  from server_lookup_rfc_conn [OF s1(2) this, of g h p] s1(1) Ask_lookup show ?thesis
    by (auto simp: serve_message_def)
next
  case (Ask_other w)
  obtain s1 where s1: "recv_int ops m s = Inr (htonl w, s1)" "conn s1 ins outs"
    using recv_int_conn [of s w ins outs m] assms(1) Ask_other by auto
  with Ask_other assms(2) show ?thesis by (auto simp: serve_message_def)
qed

lemma serve_loop_step:
  assumes "serve_message ops g h p m sts = Inr (w, sts')" "w \<noteq> 4"
  shows "serve_loop ops g h p m sts = serve_loop ops g h p w sts'"
  using assms by (subst serve_loop.simps) simp

text \<open>Any list of requests, whatever comes after them.\<close>

lemma serve_loop_requests:
  assumes "conn s (concat (map request_blocks rs) @ ins) outs" "list_all proper rs"
    and "all_sendable g h p rs (sv_index st)"
  shows "\<exists>w st' s'. serve_loop ops g h p m (st, s) = serve_loop ops g h p w (st', s') \<and>
    w = (if rs = [] then m else request_word (last rs)) \<and>
    sv_index st' = snd (answers g h p rs (sv_index st)) \<and>
    sv_log st' = sv_log st @ concat (map (request_log h p) rs) \<and>
    conn s' ins (outs @ fst (answers g h p rs (sv_index st)))"
  using assms
proof (induction rs arbitrary: m st s outs)
  case Nil
  then show ?case by auto
next
  case (Cons r rs)
  obtain st1 s1 where 1: "serve_message ops g h p m (st, s) = Inr (request_word r, st1, s1)"
      "sv_index st1 = snd (answer g h p r (sv_index st))" "sv_log st1 = sv_log st @ request_log h p r"
      "conn s1 (concat (map request_blocks rs) @ ins) (outs @ fst (answer g h p r (sv_index st)))"
    using serve_message_conn [of s r "concat (map request_blocks rs) @ ins" outs st g h p m] Cons.prems
    by auto
  then have eq: "serve_loop ops g h p m (st, s) = serve_loop ops g h p (request_word r) (st1, s1)"
    using serve_loop_step request_word_proper Cons.prems(2) by simp
  have "all_sendable g h p rs (sv_index st1)" "list_all proper rs"
    using Cons.prems 1(2) by simp_all
  from Cons.IH [OF 1(4) this(2,1), of "request_word r"]
  show ?case
    using eq 1(2,3) by (fastforce simp: case_prod_beta)
qed

lemma serve_loop_disconnect:
  assumes "conn s (wire32 4 # ins) outs"
  shows "\<exists>s'. serve_loop ops g h p m (st, s) = Some (Inr (st, s')) \<and> conn s' ins outs"
proof -
  obtain s1 where "recv_int ops m s = Inr (htonl 4, s1)" "conn s1 ins outs"
    using recv_int_conn [OF assms] by blast
  then show ?thesis
    by (intro exI [of _ s1]) (subst serve_loop.simps, simp add: serve_message_def)
qed

section \<open>The whole handler\<close>

lemma handler_start:
  assumes "conn s (wire32 v # ins) outs"
  shows "\<exists>s1 s2. send_int ops (htonl PROTOCOL_VERSION) s = Inr s1 \<and>
    recv_int ops (load32 (fresh_bytes g 4)) s1 = Inr (htonl v, s2) \<and>
    conn s2 ins (outs @ [wire32 PROTOCOL_VERSION])"
  using send_int_conn [OF assms, of PROTOCOL_VERSION] recv_int_conn by blast

lemma handler_mismatch:
  assumes "conn s (wire32 v # ins) outs" "v \<noteq> PROTOCOL_VERSION"
  shows "\<exists>st' s'. server_client_handler ops g st s = Inr (False, st', s') \<and>
    sv_index st' = sv_index st \<and> conn s' ins (outs @ [wire32 PROTOCOL_VERSION])"
  using handler_start [OF assms(1), of g] assms(2) by (auto simp: server_client_handler_def)

text \<open>The handler up to the loop, and up to any point of its requests.\<close>

lemma handler_enter:
  assumes "conn s (wire32 PROTOCOL_VERSION # identity_blocks h p @ ins) outs"
    and "nul \<notin> set h" "length h + 1 < 2 ^ 31"
  shows "\<exists>st' s'. server_client_handler ops g st s =
      bnd (run_loop (serve_loop ops g h p (load32 (fresh_bytes g 4)) (st', s'))) (server_leave ops h p) \<and>
    sv_index st' = snd (add_client h p (sv_index st)) \<and>
    sv_log st' = sv_log st @ [''   CONNECT - '' @ show_client h p] \<and>
    conn s' ins (outs @ [wire32 PROTOCOL_VERSION])"
proof -
  from handler_start [OF assms(1), of g]
  obtain s1 s2 where 1: "send_int ops (htonl PROTOCOL_VERSION) s = Inr s1"
      "recv_int ops (load32 (fresh_bytes g 4)) s1 = Inr (htonl PROTOCOL_VERSION, s2)"
      "conn s2 (identity_blocks h p @ ins) (outs @ [wire32 PROTOCOL_VERSION])" by blast
  from 1(3) have "conn s2 (wire32 (ulen h) # string_bytes h # wire32 p # ins) (outs @ [wire32 PROTOCOL_VERSION])"
    by (simp add: identity_blocks_def)
  from recv_identity_conn [OF this assms(2,3), of g]
  obtain s3 where 2: "recv_identity ops g s2 = Inr (h, p, s3)" "conn s3 ins (outs @ [wire32 PROTOCOL_VERSION])"
    by blast
  show ?thesis
    using 1(1,2) 2
    by (intro exI [of _ "st\<lparr>sv_log := sv_log st @ [''   CONNECT - '' @ show_client h p],
          sv_index := snd (add_client h p (sv_index st))\<rparr>"] exI [of _ s3])
      (simp add: server_client_handler_def case_prod_beta Let_def)
qed

lemma handler_requests:
  assumes "conn s (session_blocks h p rs @ ins) outs" "nul \<notin> set h" "length h + 1 < 2 ^ 31"
    and "list_all proper rs" "all_sendable g h p rs (snd (add_client h p (sv_index st)))"
  shows "\<exists>w st' s'. server_client_handler ops g st s =
      bnd (run_loop (serve_loop ops g h p w (st', s'))) (server_leave ops h p) \<and>
    w = (if rs = [] then load32 (fresh_bytes g 4) else request_word (last rs)) \<and>
    sv_index st' = snd (answers g h p rs (snd (add_client h p (sv_index st)))) \<and>
    sv_log st' @ [''DISCONNECT - '' @ show_client h p] = sv_log st @ session_log h p rs \<and>
    conn s' ins (outs @ wire32 PROTOCOL_VERSION # fst (answers g h p rs (snd (add_client h p (sv_index st)))))"
proof -
  have "conn s (wire32 PROTOCOL_VERSION # identity_blocks h p @ concat (map request_blocks rs) @ ins) outs"
    using assms(1) by (simp add: session_blocks_def)
  from handler_enter [OF this assms(2,3), of g st]
  obtain st1 s1 where 1: "server_client_handler ops g st s =
      bnd (run_loop (serve_loop ops g h p (load32 (fresh_bytes g 4)) (st1, s1))) (server_leave ops h p)"
      "sv_index st1 = snd (add_client h p (sv_index st))"
      "sv_log st1 = sv_log st @ [''   CONNECT - '' @ show_client h p]"
      "conn s1 (concat (map request_blocks rs) @ ins) (outs @ [wire32 PROTOCOL_VERSION])" by blast
  have "all_sendable g h p rs (sv_index st1)" using assms(5) 1(2) by simp
  from serve_loop_requests [OF 1(4) assms(4) this, of "load32 (fresh_bytes g 4)"]
  obtain w st2 s2 where "serve_loop ops g h p (load32 (fresh_bytes g 4)) (st1, s1) = serve_loop ops g h p w (st2, s2)"
      "w = (if rs = [] then load32 (fresh_bytes g 4) else request_word (last rs))"
      "sv_index st2 = snd (answers g h p rs (sv_index st1))"
      "sv_log st2 = sv_log st1 @ concat (map (request_log h p) rs)"
      "conn s2 ins ((outs @ [wire32 PROTOCOL_VERSION]) @ fst (answers g h p rs (sv_index st1)))"
    by blast
  with 1(1-3) show ?thesis
    by (intro exI [of _ w] exI [of _ st2] exI [of _ s2]) (simp add: session_log_def)
qed

lemma handler_session:
  assumes "conn s (session_blocks h p rs @ wire32 4 # ins) outs" "nul \<notin> set h" "length h + 1 < 2 ^ 31"
    and "list_all proper rs" "all_sendable g h p rs (snd (add_client h p (sv_index st)))"
  shows "\<exists>st' s'. server_client_handler ops g st s = Inr (True, st', vclose ops s') \<and>
    sv_index st' = snd (remove_client h p (snd (answers g h p rs (snd (add_client h p (sv_index st)))))) \<and>
    sv_log st' = sv_log st @ session_log h p rs \<and>
    conn s' ins (outs @ wire32 PROTOCOL_VERSION # fst (answers g h p rs (snd (add_client h p (sv_index st)))))"
proof -
  from handler_requests [OF assms]
  obtain w st2 s2 where 1: "server_client_handler ops g st s =
        bnd (run_loop (serve_loop ops g h p w (st2, s2))) (server_leave ops h p)"
      "sv_index st2 = snd (answers g h p rs (snd (add_client h p (sv_index st))))"
      "sv_log st2 @ [''DISCONNECT - '' @ show_client h p] = sv_log st @ session_log h p rs"
      "conn s2 (wire32 4 # ins)
        (outs @ wire32 PROTOCOL_VERSION # fst (answers g h p rs (snd (add_client h p (sv_index st)))))" by blast
  from serve_loop_disconnect [OF 1(4), of g h p w st2] 1(1-3) show ?thesis
    by (auto simp: run_loop_def server_leave_def case_prod_beta Let_def)
qed

text \<open>A host length below zero.\<close>

lemma handler_negative_length:
  assumes "conn s (wire32 PROTOCOL_VERSION # wire32 n # ins) outs" "sint n < 0"
  shows "server_client_handler ops g st s = Inl Undefined_Behaviour"
proof -
  from handler_start [OF assms(1), of g]
  obtain s1 s2 where 1: "send_int ops (htonl PROTOCOL_VERSION) s = Inr s1"
      "recv_int ops (load32 (fresh_bytes g 4)) s1 = Inr (htonl PROTOCOL_VERSION, s2)"
      "conn s2 (wire32 n # ins) (outs @ [wire32 PROTOCOL_VERSION])" by blast
  from recv_identity_negative [OF 1(3) assms(2)]
  have "recv_identity ops g s2 = Inl Undefined_Behaviour" .
  with 1(1,2) show ?thesis by (simp add: server_client_handler_def)
qed

text \<open>A LIST while some holder cannot be encoded.\<close>

lemma handler_poisoned:
  assumes "conn s (session_blocks h p rs @ wire32 2 # ins) outs" "nul \<notin> set h" "length h + 1 < 2 ^ 31"
    and "list_all proper rs" "all_sendable g h p rs (snd (add_client h p (sv_index st)))"
    and "\<not> holders_ok (rfcs (snd (answers g h p rs (snd (add_client h p (sv_index st))))))"
    and "length (holders_wire (rfcs (snd (answers g h p rs (snd (add_client h p (sv_index st))))))) + 9 < 2 ^ 31"
  shows "server_client_handler ops g st s = Inl Undefined_Behaviour"
proof -
  let ?ci = "snd (answers g h p rs (snd (add_client h p (sv_index st))))"
  from handler_requests [OF assms(1-5)]
  obtain w st2 s2 where 2: "server_client_handler ops g st s =
        bnd (run_loop (serve_loop ops g h p w (st2, s2))) (server_leave ops h p)"
      "sv_index st2 = ?ci"
      "conn s2 (wire32 2 # ins)
        (outs @ wire32 PROTOCOL_VERSION # fst (answers g h p rs (snd (add_client h p (sv_index st)))))" by blast
  let ?hs = "rfcs ?ci" and ?sz = "holders_size 8 (rfcs ?ci)"
  have ne: "?hs \<noteq> []" using assms(6) by auto
  have enc: "ListRFCResponse_to_bytes g (ListRFCResponse_new 200 ?hs) = Inr Null"
    using assms(6) by (simp add: ListRFCResponse_to_bytes_def ListRFCResponse_is_valid_iff
        ListRFCResponse_new_def)
  obtain s3 where 3: "recv_int ops w s2 = Inr (htonl 2, s3)"
      "conn s3 ins
        (outs @ wire32 PROTOCOL_VERSION # fst (answers g h p rs (snd (add_client h p (sv_index st)))))"
    using recv_int_conn [OF 2(3)] by blast
  obtain s4 where 4: "send_int ops (htonl ?sz) s3 = Inr s4"
    using send_int_conn [OF 3(2)] by blast
  have "0 < size_of_int ?sz"
    using assms(7) size_of_int_small [of "8 + length (holders_wire ?hs)"]
    by (simp add: holders_size_eq)
  then have "serve_message ops g h p w (st2, s2) = Inl Undefined_Behaviour"
    using 2(2) 3(1) 4 ne enc
    by (simp add: serve_message_def server_list_rfcs_def all_rfcs_def send_with_size_def
        ListRFCResponse_message_size_def ListRFCResponse_new_def)
  then have "serve_loop ops g h p w (st2, s2) = Some (Inl Undefined_Behaviour)"
    by (subst serve_loop.simps) simp
  with 2(1) show ?thesis by (simp add: run_loop_def)
qed

end

end
