(* ===== verification/Vanished_Clients.thy ===== *)
theory Vanished_Clients
  imports Server_Sessions
begin

text \<open>
  A client whose connection ends without DISCONNECT.  Every further \<open>recv\<close> of the handler fails
  and its result is ignored: the variable \<open>message\<close> keeps the last word, with its bytes swapped once
  per round, and \<open>ADD\<close> and \<open>LOOKUP\<close> read their number from memory nobody wrote.  As neither the last
  word nor its swap is DISCONNECT, the loop never ends and the client is never removed.  This is so
  for a client that has ended its own side only, so that the kernel accepts what the handler sends; for
  a connection that is closed altogether see \<open>Closed_Clients\<close>.
\<close>

section \<open>One round\<close>

lemma ntohl_ntohl [simp]: "ntohl (ntohl w) = w"
  by (simp add: ntohl_def store32_load32)

text \<open>The number the handler reads from a fresh array.\<close>

definition garbage_number :: "(nat \<Rightarrow> byte) \<Rightarrow> u32" where
  "garbage_number g = ntohl (load32 (fresh_bytes g 4))"

lemma fresh_bytes_garbage: "fresh_bytes g 4 = wire32 (garbage_number g)"
  by (simp add: garbage_number_def wire32_def store32_load32)

lemma add_rfc_twice: "snd (add_rfc h p n (snd (add_rfc h p n ci))) = snd (add_rfc h p n ci)"
proof (cases "fst (add_rfc h p n ci)")
  case True
  then show ?thesis by (simp add: add_rfc_def index_simps Let_def split: if_splits)
next
  case False
  then have "snd (add_rfc h p n ci) = ci" by (simp add: add_rfc_def Let_def split: if_splits option.splits)
  then show ?thesis by simp
qed

context eof_socket
begin

lemma serve_message_eof:
  assumes "conn s [] outs" "sendable (sv_index st)"
  shows "\<exists>st' s' outs'. serve_message ops g h p m (st, s) = Inr (ntohl m, st', s') \<and> conn s' [] outs' \<and>
    (sv_index st' = sv_index st \<or> sv_index st' = snd (add_rfc h p (garbage_number g) (sv_index st)))"
proof -
  have m: "recv_int ops m s = Inr (m, s)" using recv_int_eof [OF assms(1)] .
  have "fresh_bytes g 4 \<noteq> []" by (simp flip: length_greater_0_conv)
  then have f: "recv_bytes ops (fresh_bytes g 4) s = Inr (wire32 (garbage_number g), s)"
    using recv_bytes_eof [OF assms(1)] by (simp add: fresh_bytes_garbage)
  consider "ntohl m = 1" | "ntohl m = 2" | "ntohl m = 3" | "ntohl m \<notin> {1, 2, 3}" by auto
  then show ?thesis
  proof cases
    case 1
    from server_add_rfc_after [OF f assms(1), of h p st] show ?thesis
      by (clarsimp simp: serve_message_def m 1) blast
  next
    case 2
    from server_list_rfcs_conn [OF assms(1,2), of g h p] show ?thesis
      by (clarsimp simp: serve_message_def m 2) blast
  next
    case 3
    from server_lookup_rfc_after [OF f assms(1,2), of h p] show ?thesis
      by (clarsimp simp: serve_message_def m 3) blast
  next
    case 4
    then show ?thesis using assms(1) by (auto simp: serve_message_def m)
  qed
qed

definition stuck :: "(nat \<Rightarrow> byte) \<Rightarrow> string \<Rightarrow> u32 \<Rightarrow> CentralIndex \<Rightarrow> u32 \<Rightarrow> server_state \<times> 's \<Rightarrow> bool" where
  "stuck g h p ci m sts \<longleftrightarrow>
     m \<noteq> 4 \<and> ntohl m \<noteq> 4 \<and> (\<exists>outs. conn (snd sts) [] outs) \<and>
     (sv_index (fst sts) = ci \<or> sv_index (fst sts) = snd (add_rfc h p (garbage_number g) ci))"

lemma stuck_step:
  assumes "stuck g h p ci m sts" "sendable ci" "sendable (snd (add_rfc h p (garbage_number g) ci))"
  shows "\<exists>sts'. serve_message ops g h p m sts = Inr (ntohl m, sts') \<and> stuck g h p ci (ntohl m) sts'"
proof -
  obtain st s outs where sts: "sts = (st, s)" "conn s [] outs"
      "sv_index st = ci \<or> sv_index st = snd (add_rfc h p (garbage_number g) ci)" "m \<noteq> 4" "ntohl m \<noteq> 4"
    using assms(1) by (cases sts) (auto simp: stuck_def)
  then have "sendable (sv_index st)" using assms(2,3) by auto
  from serve_message_eof [OF sts(2) this, of g h p m]
  obtain st' s' outs' where 1: "serve_message ops g h p m (st, s) = Inr (ntohl m, st', s')" "conn s' [] outs'"
      "sv_index st' = sv_index st \<or> sv_index st' = snd (add_rfc h p (garbage_number g) (sv_index st))"
    by blast
  then have "sv_index st' = ci \<or> sv_index st' = snd (add_rfc h p (garbage_number g) ci)"
    using sts(3) by (auto simp: add_rfc_twice)
  then show ?thesis using 1 sts by (auto simp: stuck_def)
qed

lemma serve_loop_stuck:
  assumes "stuck g h p ci m sts" "sendable ci" "sendable (snd (add_rfc h p (garbage_number g) ci))"
  shows "serve_loop ops g h p m sts = None"
proof (rule ccontr)
  assume "serve_loop ops g h p m sts \<noteq> None"
  then obtain res where "serve_loop ops g h p m sts = Some res" by blast
  then have "\<not> stuck g h p ci m sts"
  proof (rule serve_loop.raw_induct [where P = "\<lambda>ops' g' h' p' m sts res.
      ops' = ops \<longrightarrow> g' = g \<longrightarrow> h' = h \<longrightarrow> p' = p \<longrightarrow> \<not> stuck g h p ci m sts", rotated, THEN mp, THEN mp, THEN mp, THEN mp])
    fix f :: "'s sock_ops \<Rightarrow> (nat \<Rightarrow> byte) \<Rightarrow> string \<Rightarrow> u32 \<Rightarrow> u32 \<Rightarrow> server_state \<times> 's \<Rightarrow>
        (server_state \<times> 's) result option"
      and ops' g' h' p' m sts res
    assume IH: "\<And>ops' g' h' p' m sts res. f ops' g' h' p' m sts = Some res \<Longrightarrow>
        ops' = ops \<longrightarrow> g' = g \<longrightarrow> h' = h \<longrightarrow> p' = p \<longrightarrow> \<not> stuck g h p ci m sts"
      and eq: "(case serve_message ops' g' h' p' m sts of
          Inl e \<Rightarrow> Some (Inl e)
        | Inr (message, sts) \<Rightarrow>
            if message \<noteq> P2SMessage_int P2S_DISCONNECT then f ops' g' h' p' message sts
            else Some (Inr sts)) = Some res"
    show "ops' = ops \<longrightarrow> g' = g \<longrightarrow> h' = h \<longrightarrow> p' = p \<longrightarrow> \<not> stuck g h p ci m sts"
    proof (intro impI notI)
      assume same: "ops' = ops" "g' = g" "h' = h" "p' = p" and s: "stuck g h p ci m sts"
      from stuck_step [OF s assms(2,3)]
      obtain sts' where 1: "serve_message ops g h p m sts = Inr (ntohl m, sts')" "stuck g h p ci (ntohl m) sts'"
        by blast
      then have "f ops g h p (ntohl m) sts' = Some res"
        using eq same by (simp add: stuck_def)
      from IH [OF this] 1(2) show False by simp
    qed
  qed simp_all
  with assms(1) show False by simp
qed

lemma handler_vanished:
  assumes "conn s (session_blocks h p rs) outs" "nul \<notin> set h" "length h + 1 < 2 ^ 31"
    and "list_all proper rs" "all_sendable g h p rs (snd (add_client h p (sv_index st)))"
    and "ci = snd (answers g h p rs (snd (add_client h p (sv_index st))))"
    and "sendable ci" "sendable (snd (add_rfc h p (garbage_number g) ci))"
    and "w = (if rs = [] then load32 (fresh_bytes g 4) else request_word (last rs))" "w \<noteq> 4" "ntohl w \<noteq> 4"
  shows "server_client_handler ops g st s = Inl Diverges"
proof -
  have "conn s (session_blocks h p rs @ []) outs" using assms(1) by simp
  from handler_requests [OF this assms(2-5)]
  obtain w' st2 s2 outs2 where 1: "server_client_handler ops g st s =
        bnd (run_loop (serve_loop ops g h p w' (st2, s2))) (server_leave ops h p)"
      "w' = (if rs = [] then load32 (fresh_bytes g 4) else request_word (last rs))"
      "sv_index st2 = ci" "conn s2 [] outs2"
    using assms(6) by metis
  have "stuck g h p ci w' (st2, s2)"
    using 1(2-4) assms(9-11) by (auto simp: stuck_def)
  from serve_loop_stuck [OF this assms(7,8)] 1(1) show ?thesis by (simp add: run_loop_def)
qed

end

end
