(* ===== verification/Server_Safety.thy ===== *)
theory Server_Safety
  imports Server
begin

text \<open>
  What no client can do to the index.  The handler of a connection is run here over any socket class
  and any socket, so over whatever a client may send, however the kernel splits or loses it: the
  index stays well-formed, and every host in it is free of NUL, so that it can be sent as a C string.
\<close>

section \<open>The invariant\<close>

definition index_typed :: "CentralIndex \<Rightarrow> bool" where
  "index_typed ci \<longleftrightarrow> index_wf ci \<and> (\<forall>c \<in> set (clients ci). nul \<notin> set (host c))"

lemma index_typed_empty: "index_typed CentralIndex_empty"
  using index_wf_empty by (simp add: index_typed_def CentralIndex_empty_def)

lemma index_typed_add_client: "index_typed ci \<Longrightarrow> nul \<notin> set h \<Longrightarrow> index_typed (snd (add_client h p ci))"
  using index_wf_add_client [of ci h p] by (auto simp: index_typed_def add_client_def)

lemma index_typed_add_rfc: "index_typed ci \<Longrightarrow> index_typed (snd (add_rfc h p n ci))"
  using index_wf_add_rfc [of ci h p n]
  by (auto simp: index_typed_def add_rfc_def Let_def split: option.splits)

lemma index_typed_remove_client: "index_typed ci \<Longrightarrow> index_typed (snd (remove_client h p ci))"
  using index_wf_remove_client [of ci h p]
  by (auto simp: index_typed_def remove_client_def Let_def remove_client_rfcs_def remove_client_entry_def
      index_simps dest: notin_set_remove1)

text \<open>The holders too.\<close>

lemma index_typed_holders: "index_typed ci \<Longrightarrow> r \<in> set (rfcs ci) \<Longrightarrow> nul \<notin> set (host (peer r))"
  by (force simp: index_typed_def index_wf_def holders_connected_def)

section \<open>One round\<close>

lemma server_add_rfc_index:
  "server_add_rfc ops g h p (st, s) = Inr (st', s') \<Longrightarrow> \<exists>n. sv_index st' = snd (add_rfc h p n (sv_index st))"
  by (auto simp: server_add_rfc_def bnd_eq_Inr_iff case_prod_beta Let_def)

lemma server_list_rfcs_index:
  "server_list_rfcs ops g h p (st, s) = Inr (st', s') \<Longrightarrow> sv_index st' = sv_index st"
  by (auto simp: server_list_rfcs_def bnd_eq_Inr_iff Let_def)

lemma server_lookup_rfc_index:
  "server_lookup_rfc ops g h p (st, s) = Inr (st', s') \<Longrightarrow> sv_index st' = sv_index st"
  by (auto simp: server_lookup_rfc_def bnd_eq_Inr_iff case_prod_beta Let_def)

lemma serve_message_typed:
  assumes "serve_message ops g h p m (st, s) = Inr (w, st', s')" "index_typed (sv_index st)"
  shows "index_typed (sv_index st')"
  using assms
  by (auto simp: serve_message_def bnd_eq_Inr_iff case_prod_beta Let_def index_typed_add_rfc split: if_splits
      dest!: server_add_rfc_index server_list_rfcs_index server_lookup_rfc_index)

lemma recv_identity_text: "recv_identity ops g s = Inr (h, p, s') \<Longrightarrow> nul \<notin> set h"
  by (auto simp: recv_identity_def bnd_eq_Inr_iff case_prod_beta Let_def)

section \<open>The loop and the handler\<close>

text \<open>Induction over the rounds of a loop that returns.\<close>

lemma serve_loop_induct [consumes 1, case_names round]:
  fixes ops :: "'s sock_ops"
  assumes run: "serve_loop ops g h p m sts = Some (Inr (st', s'))"
    and round: "\<And>m st s w st1 s1. serve_message ops g h p m (st, s) = Inr (w, st1, s1) \<Longrightarrow>
      (w = 4 \<Longrightarrow> st1 = st' \<and> s1 = s') \<Longrightarrow> (w \<noteq> 4 \<Longrightarrow> P w st1 s1) \<Longrightarrow> P m st s"
  shows "P m (fst sts) (snd sts)"
proof -
  let ?Q = "\<lambda>(ops :: 's sock_ops) g h p m sts res. \<forall>st' s' P. res = Inr (st', s') \<longrightarrow>
    (\<forall>m st s w st1 s1. serve_message ops g h p m (st, s) = Inr (w, st1, s1) \<longrightarrow>
      (w = 4 \<longrightarrow> st1 = st' \<and> s1 = s') \<longrightarrow> (w \<noteq> 4 \<longrightarrow> P w st1 s1) \<longrightarrow> P m st s) \<longrightarrow> P m (fst sts) (snd sts)"
  have "?Q ops g h p m sts res" if "serve_loop ops g h p m sts = Some res" for res
    using that
  proof (rule serve_loop.raw_induct [where P = ?Q, rotated])
    fix f :: "'s sock_ops \<Rightarrow> (nat \<Rightarrow> byte) \<Rightarrow> string \<Rightarrow> u32 \<Rightarrow> u32 \<Rightarrow> server_state \<times> 's \<Rightarrow> (server_state \<times> 's) result option"
      and ops g h p m sts res
    assume IH: "\<And>ops g h p m sts res. f ops g h p m sts = Some res \<Longrightarrow> ?Q ops g h p m sts res"
      and eq: "(case serve_message ops g h p m sts of Inl e \<Rightarrow> Some (Inl e)
        | Inr (message, sts) \<Rightarrow> if message \<noteq> P2SMessage_int P2S_DISCONNECT then f ops g h p message sts
            else Some (Inr sts)) = Some res"
    show "?Q ops g h p m sts res"
    proof (intro allI impI)
      fix st' s' P
      assume res: "res = Inr (st', s')" and round: "\<forall>m st s w st1 s1. serve_message ops g h p m (st, s) = Inr (w, st1, s1) \<longrightarrow>
        (w = 4 \<longrightarrow> st1 = st' \<and> s1 = s') \<longrightarrow> (w \<noteq> 4 \<longrightarrow> P w st1 s1) \<longrightarrow> P m st s"
      from eq res obtain w st1 s1 where 1: "serve_message ops g h p m (fst sts, snd sts) = Inr (w, st1, s1)"
        by (auto split: sum.splits)
      have "w = 4 \<longrightarrow> st1 = st' \<and> s1 = s'" using eq 1 res by auto
      moreover have "w \<noteq> 4 \<longrightarrow> P w st1 s1"
      proof
        assume "w \<noteq> 4"
        then have "f ops g h p w (st1, s1) = Some res" using eq 1 by simp
        from spec [OF spec [OF spec [OF IH [OF this], of st'], of s'], of P] res round show "P w st1 s1" by simp
      qed
      ultimately show "P m (fst sts) (snd sts)" using round 1 by blast
    qed
  qed
  from this [OF run] show ?thesis using round by blast
qed

lemma serve_loop_typed:
  assumes "serve_loop ops g h p m sts = Some (Inr (st', s'))" "index_typed (sv_index (fst sts))"
  shows "index_typed (sv_index st')"
proof -
  from assms(1) have "index_typed (sv_index (fst sts)) \<longrightarrow> index_typed (sv_index st')"
  proof (induction rule: serve_loop_induct)
    case (round m st s w st1 s1)
    then show ?case using serve_message_typed [OF round(1)] by (cases "w = 4") auto
  qed
  with assms(2) show ?thesis by blast
qed

lemma handler_typed:
  assumes "server_client_handler ops g st s = Inr (fin, st', s')" "index_typed (sv_index st)"
  shows "index_typed (sv_index st')"
  using assms index_typed_remove_client
  by (auto simp: server_client_handler_def bnd_eq_Inr_iff Let_def case_prod_beta server_leave_def run_loop_def
      split: if_splits option.splits
      intro!: index_typed_remove_client index_typed_add_client
      dest!: serve_loop_typed recv_identity_text)

end
