(* ===== verification/Secure_Channel.thy ===== *)
theory Secure_Channel
  imports Encrypted_Sockets
begin

text \<open>
  What the handshake and the sealed blocks give the two ends of a connection, and what they do not:
  agreement on the key, exact delivery, and the consequences of one key and one IV for every block
  in both directions.

  The witnesses run on \<open>demo_crypto\<close>, a library that satisfies \<open>crypto_ok\<close> and \<open>key_block_ok\<close> and
  can be evaluated: keys add up, sealing is an exclusive or with one byte, the tag a sum.
\<close>

unbundle bit_operations_syntax

section \<open>A library to evaluate\<close>

definition demo_seal ::
    "byte list \<Rightarrow> byte list \<Rightarrow> byte list \<Rightarrow> byte list \<Rightarrow> byte list \<times> byte list" where
  "demo_seal k iv h pt = (map (\<lambda>b. b XOR (hd k + hd iv)) pt, replicate 16 (sum_list pt + hd k))"

definition demo_unseal ::
    "byte list \<Rightarrow> byte list \<Rightarrow> byte list \<Rightarrow> byte list \<Rightarrow> byte list \<Rightarrow> bool \<times> byte list" where
  "demo_unseal k iv h ct mac =
     (let pt = map (\<lambda>b. b XOR (hd k + hd iv)) ct in (mac = snd (demo_seal k iv h pt), pt))"

definition demo_crypto :: crypto where
  "demo_crypto =
     \<lparr>public_len = 1, agree = (\<lambda>x y. Some [hd x + hd y]),
      hkdf = (\<lambda>n sec salt info. replicate n (hd sec)),
      seal = demo_seal, unseal = demo_unseal, usable = (\<lambda>n. max n 24), sizeof_block = 32\<rparr>"

lemma crypto_ok_demo: "crypto_ok demo_crypto"
  by (simp add: crypto_ok_def demo_crypto_def demo_seal_def demo_unseal_def MAC_LEN_def comp_def
      xor.assoc)

lemma key_block_ok_demo: "key_block_ok demo_crypto"
  by (simp add: key_block_ok_def demo_crypto_def KEY_LEN_def)

definition demo_draws :: "byte \<Rightarrow> draws" where
  "demo_draws b = \<lparr>drawn_private = [b], drawn_public = [b], drawn_iv = replicate 12 5\<rparr>"

lemma draws_ok_demo: "draws_ok demo_crypto (demo_draws b)"
  by (simp add: draws_ok_def demo_draws_def demo_crypto_def IV_LEN_def)

text \<open>A kernel that has so many bytes for the program and takes all it is given.\<close>

definition kern_with :: "byte list \<Rightarrow> kern" where
  "kern_with bs = \<lparr>rx = (if bs = [] then [] else [Arrived bs]), txq = [], sent = [], fd_open = True,
     peer_end = Stays, killed = False\<rparr>"

lemma kern_conn_kern_with: "kern_conn (kern_with bs) bs []"
  by (simp add: kern_link_def kern_with_def gone_def)

definition demo_server :: "byte list \<Rightarrow> EncryptedServerSocket" where
  "demo_server bs =
     \<lparr>es_base = ServerSocket_new (kern_with bs), es_iv = replicate 12 5, es_key = replicate 32 7\<rparr>"

lemma demo_server_simps [simp]:
  "ss_kern (es_base (demo_server bs)) = kern_with bs"
  "es_iv (demo_server bs) = replicate 12 5" "es_key (demo_server bs) = replicate 32 7"
  by (simp_all add: demo_server_def ServerSocket_new_def)

section \<open>The handshake\<close>

text \<open>What each end puts on the wire during the handshake.\<close>

definition server_hello :: "crypto \<Rightarrow> draws \<Rightarrow> byte list \<Rightarrow> byte list" where
  "server_hello cr rs sh =
     wire32 (ulen (drawn_public rs)) @ drawn_public rs @ drawn_iv rs @
     sealed cr (session_key cr sh) (drawn_iv rs) (string_bytes CONFIRM_PHRASE)"

definition client_hello :: "crypto \<Rightarrow> draws \<Rightarrow> draws \<Rightarrow> byte list \<Rightarrow> byte list" where
  "client_hello cr rs rc sh =
     wire32 (ulen (drawn_public rc)) @ drawn_public rc @
     sealed cr (session_key cr sh) (drawn_iv rs) (string_bytes CONFIRM_PHRASE)"

text \<open>\<open>env\<close> accepts the connection and gives it the kernel state \<open>k\<close>.\<close>

definition accepts :: "conn_env \<Rightarrow> string \<Rightarrow> u16 \<Rightarrow> kern \<Rightarrow> bool" where
  "accepts env addr prt k \<longleftrightarrow> 0 < ce_pton env addr \<and> ce_connect env addr (htons prt) = (0, k)"

lemma EncryptedServerSocket_new_kern:
  assumes "crypto_ok cr" "key_block_ok cr" "draws_ok cr rs" "length (drawn_public rc) = public_len cr"
    and "agree cr (drawn_private rs) (drawn_public rc) = Some sh"
    and "kern_link e k (client_hello cr rs rc sh @ i) []"
  shows "\<exists>s. EncryptedServerSocket_new cr g rs k = Inr s \<and> es_key s = session_key cr sh \<and>
    es_iv s = drawn_iv rs \<and> kern_link e (ss_kern (es_base s)) i (server_hello cr rs sh)"
proof -
  have "server_link e (ServerSocket_new k) (wire32 (ulen (drawn_public rc)) # drawn_public rc #
      confirmation cr (session_key cr sh) (drawn_iv rs) @ [i]) []"
    using assms(6) by (simp add: server_link_def ServerSocket_new_def client_hello_def
        confirmation_def sealed_def)
  from frame_socket.handshake_server_conn [OF server_link_frame this assms(1-5), of g "fresh_bytes g IV_LEN"]
  show ?thesis
    by (auto simp: EncryptedServerSocket_new_def server_link_def server_hello_def key_blocks_def
        confirmation_def sealed_def)
qed

lemma EncryptedClientSocket_connect_kern:
  assumes "crypto_ok cr" "key_block_ok cr" "draws_ok cr rs" "draws_ok cr rc"
    and "agree cr (drawn_private rc) (drawn_public rs) = Some sh"
    and "kern_conn k (server_hello cr rs sh @ i) []" "accepts env addr prt k"
  shows "\<exists>s. EncryptedClientSocket_connect cr g rc env (EncryptedClientSocket_new g addr prt) = Inr s \<and>
    ec_key s = Some (session_key cr sh) \<and> ec_iv s = drawn_iv rs \<and>
    kern_conn (cs_kern (ec_base s)) i (client_hello cr rs rc sh)"
proof -
  let ?c = "ClientSocket_connect env (ClientSocket_new addr prt)"
  have c: "ClientSocket_is_connected ?c" "cs_kern ?c = k"
    using assms(7) by (simp_all add: ClientSocket_connect_def ClientSocket_new_def accepts_def
        ClientSocket_is_connected_def)
  have conn: "client_conn ?c (wire32 (ulen (drawn_public rs)) # drawn_public rs # drawn_iv rs #
      confirmation cr (session_key cr sh) (drawn_iv rs) @ [i]) []"
    using assms(6) by (simp add: client_link_def c server_hello_def confirmation_def sealed_def)
  have len: "length (drawn_public rs) = public_len cr" "length (drawn_iv rs) = IV_LEN"
    using assms(3) by (simp_all add: draws_ok_def)
  from client_sock.handshake_client_conn [OF conn assms(1,2,4) len(1) assms(5) _ len(2),
      of "fresh_bytes g IV_LEN" env g]
  show ?thesis
    using c(1)
    by (auto simp: EncryptedClientSocket_connect_def EncryptedClientSocket_new_def client_link_def
        client_hello_def key_blocks_def confirmation_def sealed_def)
qed

section \<open>Stream ciphers\<close>

text \<open>As documented, ChaCha20 adds the bytes of a stream that depends on key and IV only.\<close>

definition stream_cipher :: "crypto \<Rightarrow> (byte list \<Rightarrow> byte list \<Rightarrow> nat \<Rightarrow> byte) \<Rightarrow> bool" where
  "stream_cipher cr ks \<longleftrightarrow>
     (\<forall>k iv h d. fst (seal cr k iv h d) = map (\<lambda>j. d ! j XOR ks k iv j) [0..<length d])"

lemma stream_cipherD:
  "stream_cipher cr ks \<Longrightarrow>
    fst (seal cr k iv h d) = map (\<lambda>j. d ! j XOR ks k iv j) [0..<length d]"
  by (simp add: stream_cipher_def)

lemma xor_common: "(a XOR c) XOR (b XOR c) = a XOR (b :: byte)"
  by (simp add: xor.assoc xor.left_commute xor.commute)

lemma stream_cipher_demo: "stream_cipher demo_crypto (\<lambda>k iv j. hd k + hd iv)"
  by (auto simp: stream_cipher_def demo_crypto_def demo_seal_def intro: nth_equalityI)

section \<open>Properties\<close>

text \<open>
  C10. The handshake agrees.  If the key agreement is symmetric for the two drawn key pairs, and each
  end receives what the other sends, then the constructor of \<open>EncryptedServerSocket\<close> and
  \<open>EncryptedClientSocket::connect\<close> both return, with the same key and the same IV, and what each
  has sent is what the other has received.
\<close>

theorem handshake_agrees:
  assumes "crypto_ok cr" "key_block_ok cr" "draws_ok cr rs" "draws_ok cr rc"
    and "agree cr (drawn_private rs) (drawn_public rc) = Some sh"
    and "agree cr (drawn_private rc) (drawn_public rs) = Some sh"
    and "kern_conn ks (client_hello cr rs rc sh) []" "kern_conn kc (server_hello cr rs sh) []"
    and "accepts env addr prt kc"
  shows "\<exists>s c. EncryptedServerSocket_new cr g rs ks = Inr s \<and>
    EncryptedClientSocket_connect cr g' rc env (EncryptedClientSocket_new g' addr prt) = Inr c \<and>
    ec_key c = Some (es_key s) \<and> ec_iv c = es_iv s \<and>
    sent (ss_kern (es_base s)) = rx_bytes (rx kc) \<and> sent (cs_kern (ec_base c)) = rx_bytes (rx ks)"
proof -
  have len: "length (drawn_public rc) = public_len cr" using assms(4) by (simp add: draws_ok_def)
  show ?thesis
    using EncryptedServerSocket_new_kern [OF assms(1,2,3) len assms(5), where k = ks and i = "[]" and g = g]
      EncryptedClientSocket_connect_kern [OF assms(1,2,3,4,6), of kc "[]" env addr prt g'] assms(7-9)
    by (auto simp: kern_link_def)
qed

definition demo_env :: "kern \<Rightarrow> conn_env" where
  "demo_env k =
     \<lparr>ce_socket = 3, ce_pton = (\<lambda>_. 1), ce_connect = (\<lambda>_ _. (0, k)), ce_close = 0\<rparr>"

theorem handshake_agrees_witness:
  "\<exists>s c. EncryptedServerSocket_new demo_crypto (\<lambda>_. 0) (demo_draws 3)
       (kern_with (client_hello demo_crypto (demo_draws 3) (demo_draws 4) [7])) = Inr s \<and>
     EncryptedClientSocket_connect demo_crypto (\<lambda>_. 1) (demo_draws 4)
       (demo_env (kern_with (server_hello demo_crypto (demo_draws 3) [7])))
       (EncryptedClientSocket_new (\<lambda>_. 1) ''127.0.0.1'' 8080) = Inr c \<and>
     ec_key c = Some (es_key s) \<and> ec_iv c = es_iv s"
proof -
  have "agree demo_crypto (drawn_private (demo_draws 3)) (drawn_public (demo_draws 4)) = Some [7]"
    "agree demo_crypto (drawn_private (demo_draws 4)) (drawn_public (demo_draws 3)) = Some [7]"
    by (simp_all add: demo_crypto_def demo_draws_def)
  moreover have "accepts (demo_env k) ''127.0.0.1'' 8080 k" for k
    by (simp add: accepts_def demo_env_def)
  ultimately show ?thesis
    using handshake_agrees [OF crypto_ok_demo key_block_ok_demo draws_ok_demo draws_ok_demo _ _
        kern_conn_kern_with kern_conn_kern_with] by blast
qed

text \<open>
  What an encrypted socket sends arrives: after the handshake, a block sent by the server end is
  put on the wire in one piece and the client end, reading these bytes with the same key and IV and
  a buffer of the same length, gets exactly the block.
\<close>

lemma encrypted_delivery:
  assumes "crypto_ok cr" "kern_conn (ss_kern (es_base s)) i p" "length d < 2 ^ 64"
    and "16 \<le> usable cr (length d)"
    and "ec_key c = Some (es_key s)" "ec_iv c = es_iv s" "length buf = length d"
    and "kern_conn (cs_kern (ec_base c))
      (drop (length p) (sent (ss_kern (es_base (snd (EncryptedServerSocket_send cr d s)))))) q"
  shows "fst (EncryptedServerSocket_send cr d s) \<and>
    (\<exists>c'. EncryptedClientSocket_recv cr g buf c = Inr (True, d, c'))"
proof -
  obtain b where b: "EncryptedServerSocket_send cr d s = (True, s\<lparr>es_base := b\<rparr>)"
      "kern_conn (ss_kern b) i (p @ sealed cr (es_key s) (es_iv s) d)"
    using EncryptedServerSocket_send_kern [OF assms(1-3)] by blast
  then have "kern_conn (cs_kern (ec_base c)) (sealed cr (es_key s) (ec_iv c) d @ []) q"
    using assms(6,8) by (simp add: kern_link_def)
  from EncryptedClientSocket_recv_kern [OF assms(1,5) this assms(3,7), of g] assms(4) b(1)
  show ?thesis by (auto simp: MAC_LEN_def)
qed

lemma encrypted_delivery_witness:
  "\<exists>c'. EncryptedClientSocket_recv demo_crypto (\<lambda>_. 0) [0, 0, 0, 0]
     \<lparr>ec_base = (ClientSocket_new ''127.0.0.1'' 8080)\<lparr>cs_kern := kern_with
        (sent (ss_kern (es_base (snd (EncryptedServerSocket_send demo_crypto [0, 0, 0, 1] (demo_server []))))))\<rparr>,
      ec_iv = replicate 12 5, ec_key = Some (replicate 32 7)\<rparr> = Inr (True, [0, 0, 0, 1], c')"
  by (rule conjunct2 [OF encrypted_delivery [OF crypto_ok_demo, where s = "demo_server []" and p = "[]"
        and i = "[]" and q = "[]"]])
    (simp_all add: kern_conn_kern_with, simp add: demo_crypto_def)

text \<open>
  C37. Every block is sealed with the same key stream, because key and IV never change: with a stream
  cipher, the exclusive or of two ciphertexts of equal length on the wire is the exclusive or of the
  two plaintexts.
\<close>

theorem keystream_reuse:
  assumes "crypto_ok cr" "stream_cipher cr ks"
    and "kern_conn (ss_kern (es_base s)) i p" "length d = length e" "length d < 2 ^ 64"
  shows "\<exists>c1 t1 c2 t2.
    sent (ss_kern (es_base (snd (EncryptedServerSocket_send cr e (snd (EncryptedServerSocket_send cr d s)))))) =
      p @ c1 @ t1 @ c2 @ t2 \<and>
    length c1 = length d \<and> length c2 = length e \<and> map2 (XOR) c1 c2 = map2 (XOR) d e"
proof -
  let ?seal = "seal cr (es_key s) (es_iv s) CIP_HEADER"
  have small: "length d < 2 ^ 64" "length e < 2 ^ 64" using assms(4,5) by simp_all
  obtain b1 where b1: "EncryptedServerSocket_send cr d s = (True, s\<lparr>es_base := b1\<rparr>)"
      "kern_conn (ss_kern b1) i (p @ sealed cr (es_key s) (es_iv s) d)"
    using EncryptedServerSocket_send_kern [OF assms(1,3) small(1)] by blast
  then have "kern_conn (ss_kern (es_base (s\<lparr>es_base := b1\<rparr>))) i (p @ sealed cr (es_key s) (es_iv s) d)"
    by simp
  from EncryptedServerSocket_send_kern [OF assms(1) this small(2)]
  obtain b2 where b2: "EncryptedServerSocket_send cr e (s\<lparr>es_base := b1\<rparr>) = (True, s\<lparr>es_base := b2\<rparr>)"
      "kern_conn (ss_kern b2) i (p @ sealed cr (es_key s) (es_iv s) d @ sealed cr (es_key s) (es_iv s) e)"
    by auto
  have "map2 (XOR) (fst (?seal d)) (fst (?seal e)) = map2 (XOR) d e"
  proof (rule nth_equalityI)
    fix j assume "j < length (map2 (XOR) (fst (?seal d)) (fst (?seal e)))"
    then have "j < length d" "j < length e" using assms(4) by (simp_all add: crypto_okD [OF assms(1)])
    then show "map2 (XOR) (fst (?seal d)) (fst (?seal e)) ! j = map2 (XOR) d e ! j"
      using stream_cipherD [OF assms(2)] by (simp add: xor_common)
  qed (simp add: crypto_okD [OF assms(1)])
  then show ?thesis
    using b1(1) b2 assms(4) crypto_okD [OF assms(1)]
    by (intro exI [of _ "fst (?seal d)"] exI [of _ "snd (?seal d)"] exI [of _ "fst (?seal e)"]
        exI [of _ "snd (?seal e)"]) (simp add: kern_link_def sealed_def)
qed

theorem keystream_reuse_witness:
  "\<exists>c1 t1 c2 t2. sent (ss_kern (es_base (snd (EncryptedServerSocket_send demo_crypto [0, 0, 0, 2]
      (snd (EncryptedServerSocket_send demo_crypto [0, 0, 0, 1] (demo_server []))))))) =
      [] @ c1 @ t1 @ c2 @ t2 \<and>
    length c1 = length [0, 0, 0, 1 :: byte] \<and> length c2 = length [0, 0, 0, 2 :: byte] \<and>
    map2 (XOR) c1 c2 = map2 (XOR) [0, 0, 0, 1] [0, 0, 0, 2]"
  by (rule keystream_reuse [OF crypto_ok_demo stream_cipher_demo, where i = "[]"])
    (simp_all add: kern_conn_kern_with)

text \<open>
  C38. A sealed block carries no position and no direction: bytes the server end has sent are accepted
  when they come back to it, and accepted again when they come back a second time.
\<close>

theorem replay_and_reflection_accepted:
  assumes "crypto_ok cr" "kern_conn (ss_kern (es_base s)) i p" "length d < 2 ^ 64"
    and "16 \<le> usable cr (length d)" "length buf = length d"
    and "w = drop (length p) (sent (ss_kern (es_base (snd (EncryptedServerSocket_send cr d s)))))"
    and "kern_conn k (w @ w) q"
  shows "\<exists>s1 s2. EncryptedServerSocket_recv cr g buf (s\<lparr>es_base := (es_base s)\<lparr>ss_kern := k\<rparr>\<rparr>) =
      Inr (True, d, s1) \<and> EncryptedServerSocket_recv cr g buf s1 = Inr (True, d, s2)"
proof -
  let ?w = "sealed cr (es_key s) (es_iv s) d"
  let ?s = "s\<lparr>es_base := (es_base s)\<lparr>ss_kern := k\<rparr>\<rparr>"
  have w: "w = ?w"
    using EncryptedServerSocket_send_kern [OF assms(1-3)] assms(6) by (auto simp: kern_link_def)
  have fit: "MAC_LEN \<le> usable cr (length d)" using assms(4) by (simp add: MAC_LEN_def)
  have "kern_conn (ss_kern (es_base ?s)) (sealed cr (es_key ?s) (es_iv ?s) d @ ?w) q"
    using assms(7) w by simp
  from EncryptedServerSocket_recv_kern [OF assms(1) this assms(3,5) fit, of g]
  obtain b1 where b1: "EncryptedServerSocket_recv cr g buf ?s = Inr (True, d, ?s\<lparr>es_base := b1\<rparr>)"
      "kern_conn (ss_kern b1) ?w q" by blast
  then have "kern_conn (ss_kern (es_base (?s\<lparr>es_base := b1\<rparr>)))
      (sealed cr (es_key (?s\<lparr>es_base := b1\<rparr>)) (es_iv (?s\<lparr>es_base := b1\<rparr>)) d @ []) q" by simp
  from EncryptedServerSocket_recv_kern [OF assms(1) this assms(3,5) fit, of g] b1(1)
  show ?thesis by blast
qed

theorem replay_and_reflection_accepted_witness:
  "\<exists>s1 s2. EncryptedServerSocket_recv demo_crypto (\<lambda>_. 0) [0, 0]
      ((demo_server [])\<lparr>es_base := (es_base (demo_server []))\<lparr>ss_kern := kern_with
        (sent (ss_kern (es_base (snd (EncryptedServerSocket_send demo_crypto [1, 2] (demo_server []))))) @
         sent (ss_kern (es_base (snd (EncryptedServerSocket_send demo_crypto [1, 2] (demo_server []))))))\<rparr>\<rparr>) =
      Inr (True, [1, 2], s1) \<and>
     EncryptedServerSocket_recv demo_crypto (\<lambda>_. 0) [0, 0] s1 = Inr (True, [1, 2], s2)"
  by (rule replay_and_reflection_accepted [OF crypto_ok_demo, where p = "[]" and i = "[]" and q = "[]"])
    (simp_all add: kern_conn_kern_with [simplified], simp_all add: demo_crypto_def kern_conn_kern_with)

text \<open>
  C39. \<open>recv\<close> of a block shorter than the tag writes past its buffer: \<open>SecByteBlock mac(len)\<close> owns
  \<open>len\<close> bytes and 16 are received into it.  Every \<open>int\<close> of the protocol is such a block; only what
  the allocator gives beyond the request keeps the program running.
\<close>

theorem recv_short_block_overflows:
  assumes "usable cr (length buf) < 16" "length buf < 2 ^ 64"
    and "kern_conn (ss_kern (es_base s)) (ct @ i) p" "length ct = length buf"
  shows "EncryptedServerSocket_recv cr g buf s = Inl Undefined_Behaviour"
proof -
  have "length ct < 2 ^ 64" using assms(2,4) by simp
  from ServerSocket_recv_kern [OF assms(3) _ this, of "fresh_bytes g (length buf)"] assms(1,4)
  show ?thesis by (auto simp: EncryptedServerSocket_recv_def Let_def MAC_LEN_def)
qed

theorem recv_short_block_overflows_witness:
  "EncryptedServerSocket_recv (demo_crypto\<lparr>usable := (\<lambda>n. n)\<rparr>) (\<lambda>_. 0) [0, 0, 0, 0]
     (demo_server [1, 2, 3, 4]) = Inl Undefined_Behaviour"
  by (rule recv_short_block_overflows [of _ _ _ "[1, 2, 3, 4]" "[]" "[]"])
    (simp_all add: kern_conn_kern_with)

end
