(* ===== verification/Get_RFC_Response.thy ===== *)
theory Get_RFC_Response
  imports Message_Codec
begin

text \<open>
  \<open>GetRFCResponse\<close> (\<open>src/get_rfc_res.cpp\<close>): the answer of a peer to a request for an RFC, a
  status code and, for status 200, the text.  On the wire: the code, then for 200 the length
  and the bytes of the text.  The buffer always has room for the code, a length and the text, so
  for the other codes its bytes after the first four are never written.
\<close>

section \<open>The class\<close>

record GetRFCResponse =
  gr_code :: u32
  gr_content :: string

definition GetRFCResponse_init :: GetRFCResponse where
  "GetRFCResponse_init = \<lparr>gr_code = 0, gr_content = []\<rparr>"

definition GetRFCResponse_new :: "u32 \<Rightarrow> string \<Rightarrow> GetRFCResponse" where
  "GetRFCResponse_new code content = \<lparr>gr_code = code, gr_content = content\<rparr>"

definition GetRFCResponse_get_code :: "GetRFCResponse \<Rightarrow> u32" where
  "GetRFCResponse_get_code m = gr_code m"

definition GetRFCResponse_set_code :: "u32 \<Rightarrow> GetRFCResponse \<Rightarrow> GetRFCResponse" where
  "GetRFCResponse_set_code code m = m\<lparr>gr_code := code\<rparr>"

definition GetRFCResponse_get_content :: "GetRFCResponse \<Rightarrow> string" where
  "GetRFCResponse_get_content m = gr_content m"

definition GetRFCResponse_set_content :: "string \<Rightarrow> GetRFCResponse \<Rightarrow> GetRFCResponse" where
  "GetRFCResponse_set_content content m = m\<lparr>gr_content := content\<rparr>"

definition GetRFCResponse_is_valid :: "GetRFCResponse \<Rightarrow> bool" where
  "GetRFCResponse_is_valid m =
     (if 0 < sint (gr_code m) then
        if gr_code m \<noteq> 200 \<and> gr_code m \<noteq> 400 \<and> gr_code m \<noteq> 404 \<and> gr_code m \<noteq> 505 then False
        else if gr_code m = 200 then (if length (gr_content m) \<le> 0 then False else True)
        else True
      else False)"

definition GetRFCResponse_message_size :: "GetRFCResponse \<Rightarrow> u32" where
  "GetRFCResponse_message_size m = 4 + 4 + ulen (gr_content m)"

definition GetRFCResponse_from_bytes :: "byte list \<Rightarrow> GetRFCResponse \<Rightarrow> GetRFCResponse result" where
  "GetRFCResponse_from_bytes bytes m =
     (let pos = 0 in
      bnd (memcpy_from bytes pos 4) (\<lambda>b.
      let m = m\<lparr>gr_code := ntohl (load32 b)\<rparr> in
      if gr_code m = 200 then
        let pos = pos + 4 in
        bnd (memcpy_from bytes pos 4) (\<lambda>b.
        let len = ntohl (load32 b); pos = pos + 4 in
        bnd (int_inc len) (\<lambda>n.
        bnd (new_array n) (\<lambda>_.
        bnd (memcpy_from bytes pos (size_of_int len)) (\<lambda>cs.
        Inr (m\<lparr>gr_content := c_string (bytes_string cs)\<rparr>)))))
      else Inr m))"

definition GetRFCResponse_to_bytes :: "(nat \<Rightarrow> byte) \<Rightarrow> GetRFCResponse \<Rightarrow> bytes_ptr result" where
  "GetRFCResponse_to_bytes g m =
     (if \<not> GetRFCResponse_is_valid m then Inr Null
      else
        let buf = fresh_bytes g (unat (GetRFCResponse_message_size m));
            pos = 0;
            tmp = htonl (gr_code m)
        in bnd (memcpy_to buf pos (store32 tmp)) (\<lambda>buf.
           if gr_code m = 200 then
             let pos = pos + 4;
                 tmp = htonl (ulen (gr_content m))
             in bnd (memcpy_to buf pos (store32 tmp)) (\<lambda>buf.
                let pos = pos + 4 in
                bnd (memcpy_to buf pos (string_bytes (gr_content m))) (\<lambda>buf.
                Inr (Bytes buf)))
           else Inr (Bytes buf)))"

section \<open>What the operations compute\<close>

text \<open>
  The messages the wire format can carry: the length fits an \<open>int\<close> with room for the
  terminating NUL, the text holds no NUL, and only a 200 has a text.
\<close>

definition GetRFCResponse_representable :: "GetRFCResponse \<Rightarrow> bool" where
  "GetRFCResponse_representable m \<longleftrightarrow>
     length (gr_content m) + 1 < 2 ^ 31 \<and> nul \<notin> set (gr_content m) \<and>
     (gr_code m \<noteq> 200 \<longrightarrow> gr_content m = [])"

lemma GetRFCResponse_is_valid_iff:
  "GetRFCResponse_is_valid m \<longleftrightarrow>
     known_code (gr_code m) \<and> (gr_code m = 200 \<longrightarrow> gr_content m \<noteq> [])"
  using known_code_positive [of "gr_code m"]
  by (auto simp: GetRFCResponse_is_valid_def known_code_def)

lemma unat_GetRFCResponse_message_size:
  assumes "length (gr_content m) + 8 < 2 ^ 32"
  shows "unat (GetRFCResponse_message_size m) = 8 + length (gr_content m)"
proof -
  have "GetRFCResponse_message_size m = of_nat (8 + length (gr_content m))"
    by (simp add: GetRFCResponse_message_size_def ulen_def)
  then show ?thesis using assms by (simp only: unat32_of_nat add.commute)
qed

text \<open>
  The bytes of a message.  They are all determined for status 200; for every other code the
  bytes from the fifth on are whatever the fresh buffer held.
\<close>

lemma GetRFCResponse_to_bytes_200:
  assumes "gr_code m = 200" and "gr_content m \<noteq> []" and "length (gr_content m) + 8 < 2 ^ 32"
  shows "GetRFCResponse_to_bytes g m =
    Inr (Bytes (wire32 200 @ wire32 (ulen (gr_content m)) @ string_bytes (gr_content m)))"
proof -
  let ?n = "length (gr_content m)" and ?L = "ulen (gr_content m)"
  let ?buf = "fresh_bytes g (8 + ?n)"
  have valid: "GetRFCResponse_is_valid m"
    using assms by (simp add: GetRFCResponse_is_valid_iff known_code_def)
  have 1: "memcpy_to ?buf 0 (wire32 200) = Inr (wire32 200 @ drop 4 ?buf)"
    using memcpy_to_at [of 0 "[]" "wire32 200" ?buf] by simp
  have 2: "memcpy_to (wire32 200 @ drop 4 ?buf) 4 (wire32 ?L) =
      Inr (wire32 200 @ wire32 ?L @ drop 8 ?buf)"
    using memcpy_to_at [of 4 "wire32 200" "wire32 ?L" "drop 4 ?buf"] by simp
  have 3: "memcpy_to (wire32 200 @ wire32 ?L @ drop 8 ?buf) 8 (string_bytes (gr_content m)) =
      Inr (wire32 200 @ wire32 ?L @ string_bytes (gr_content m))"
    using memcpy_to_at [of 8 "wire32 200 @ wire32 ?L" "string_bytes (gr_content m)" "drop 8 ?buf"]
    by simp
  show ?thesis
    using valid assms(1,3) 1 2 3
    by (simp add: GetRFCResponse_to_bytes_def unat_GetRFCResponse_message_size Let_def
        flip: wire32_def)
qed

lemma GetRFCResponse_to_bytes_error:
  assumes "known_code (gr_code m)" and "gr_code m \<noteq> 200" and "length (gr_content m) + 8 < 2 ^ 32"
  shows "GetRFCResponse_to_bytes g m =
    Inr (Bytes (wire32 (gr_code m) @ map g [4..<8 + length (gr_content m)]))"
proof -
  let ?n = "length (gr_content m)"
  let ?buf = "fresh_bytes g (8 + ?n)"
  have valid: "GetRFCResponse_is_valid m"
    using assms by (simp add: GetRFCResponse_is_valid_iff)
  have 1: "memcpy_to ?buf 0 (wire32 (gr_code m)) = Inr (wire32 (gr_code m) @ drop 4 ?buf)"
    using memcpy_to_at [of 0 "[]" "wire32 (gr_code m)" ?buf] by simp
  have 2: "drop 4 ?buf = map g [4..<8 + ?n]"
    by (simp add: fresh_bytes_def drop_map)
  show ?thesis
    using valid assms(2,3) 1 2
    by (simp add: GetRFCResponse_to_bytes_def unat_GetRFCResponse_message_size Let_def
        flip: wire32_def)
qed

lemma GetRFCResponse_from_bytes_200:
  assumes "length s + 1 < 2 ^ 31"
  shows "GetRFCResponse_from_bytes (wire32 200 @ wire32 (ulen s) @ string_bytes s @ rest) m =
    Inr (m\<lparr>gr_code := 200, gr_content := c_string s\<rparr>)"
proof -
  let ?buf = "wire32 200 @ wire32 (ulen s) @ string_bytes s @ rest"
  have 1: "memcpy_from ?buf 0 4 = Inr (wire32 200)"
    using memcpy_from_at [of 0 "[]" "wire32 200" 4] by simp
  have 2: "memcpy_from ?buf 4 4 = Inr (wire32 (ulen s))"
    using memcpy_from_at [of 4 "wire32 200" "wire32 (ulen s)" 4] by simp
  have 3: "memcpy_from ?buf 8 (length s) = Inr (string_bytes s)"
    using memcpy_from_at [of 8 "wire32 200 @ wire32 (ulen s)" "string_bytes s"] by simp
  show ?thesis
    using 1 2 3 length_steps [OF assms] by (simp add: GetRFCResponse_from_bytes_def Let_def)
qed

lemma GetRFCResponse_from_bytes_error:
  assumes "c \<noteq> 200"
  shows "GetRFCResponse_from_bytes (wire32 c @ rest) m = Inr (m\<lparr>gr_code := c\<rparr>)"
  using assms by (simp add: GetRFCResponse_from_bytes_def codec_simps)

section \<open>The message contract\<close>

interpretation get_res: message_codec GetRFCResponse_is_valid GetRFCResponse_message_size
    GetRFCResponse_from_bytes GetRFCResponse_to_bytes GetRFCResponse_init
    GetRFCResponse_representable
proof unfold_locales
  fix g m
  assume "\<not> GetRFCResponse_is_valid m"
  then show "GetRFCResponse_to_bytes g m = Inr Null" by (simp add: GetRFCResponse_to_bytes_def)
next
  fix g m
  assume v: "GetRFCResponse_is_valid m" and r: "GetRFCResponse_representable m"
  then have size: "unat (GetRFCResponse_message_size m) = 8 + length (gr_content m)"
    by (simp add: GetRFCResponse_representable_def unat_GetRFCResponse_message_size)
  show "\<exists>buf. GetRFCResponse_to_bytes g m = Inr (Bytes buf) \<and>
      length buf = unat (GetRFCResponse_message_size m) \<and>
      GetRFCResponse_from_bytes buf GetRFCResponse_init = Inr m"
  proof (cases "gr_code m = 200")
    case True
    with v r show ?thesis
      using GetRFCResponse_to_bytes_200 [of m g] GetRFCResponse_from_bytes_200 [of "gr_content m" "[]"]
      by (simp add: GetRFCResponse_is_valid_iff GetRFCResponse_representable_def size c_string_id
          GetRFCResponse_init_def)
  next
    case False
    with v r show ?thesis
      using GetRFCResponse_to_bytes_error [of m g]
      by (simp add: GetRFCResponse_is_valid_iff GetRFCResponse_representable_def size
          GetRFCResponse_from_bytes_error GetRFCResponse_init_def)
  qed
qed

section \<open>Properties\<close>

text \<open>
  C13. A 200 response with a non-empty text without NUL is encoded into exactly \<open>message_size\<close>
  bytes, without leaving the buffer and whatever it held before, and decoding them into any object
  gives the response back.
\<close>

theorem GetRFCResponse_roundtrip:
  assumes "gr_code m = 200" "gr_content m \<noteq> []" "nul \<notin> set (gr_content m)"
    and "length (gr_content m) + 1 < 2 ^ 31"
  shows "\<exists>buf. GetRFCResponse_to_bytes g m = Inr (Bytes buf) \<and>
    length buf = unat (GetRFCResponse_message_size m) \<and> GetRFCResponse_from_bytes buf m0 = Inr m"
  using GetRFCResponse_to_bytes_200 [of m g] GetRFCResponse_from_bytes_200 [of "gr_content m" "[]" m0]
    unat_GetRFCResponse_message_size [of m] assms
  by (simp add: c_string_id)

theorem GetRFCResponse_roundtrip_witness:
  "\<exists>buf. GetRFCResponse_to_bytes (\<lambda>_. 7) (GetRFCResponse_new 200 ''text'') = Inr (Bytes buf) \<and>
     length buf = unat (GetRFCResponse_message_size (GetRFCResponse_new 200 ''text'')) \<and>
     GetRFCResponse_from_bytes buf GetRFCResponse_init = Inr (GetRFCResponse_new 200 ''text'')"
  by (rule GetRFCResponse_roundtrip) (simp_all add: GetRFCResponse_new_def nul_def)

end
