(* ===== verification/Server_Properties.thy ===== *)
theory Server_Properties
  imports Vanished_Clients Server_Safety Secure_Channel Get_RFC_Response
begin

text \<open>
  The properties of the server over encrypted connections, obtained from the lemmas of
  \<open>Server_Sessions\<close> and \<open>Vanished_Clients\<close> through the interpretation of the socket contracts by
  \<open>EncryptedServerSocket\<close>.
\<close>

section \<open>A connection for the witnesses\<close>

definition demo_peer :: "byte list list \<Rightarrow> EncryptedServerSocket" where
  "demo_peer ins = demo_server (sealed_all demo_crypto (replicate 32 7) (replicate 12 5) ins)"

lemma demo_peer_conn:
  "eserver_conn demo_crypto (replicate 32 7) (replicate 12 5) [] (demo_peer ins) ins []"
  by (simp add: eserver_link_def demo_peer_def crypto_ok_demo kern_conn_kern_with tags_fit_def)
    (simp add: demo_crypto_def MAC_LEN_def le_max_iff_disj)

definition demo_state :: server_state where
  "demo_state = \<lparr>sv_index = CentralIndex_empty, sv_log = []\<rparr>"

lemmas demo_session_simps =
  demo_state_def CentralIndex_empty_def add_client_def add_rfc_def index_simps sendable_def all_rfcs_def
  Let_def holder_wire_def nul_def

section \<open>Properties\<close>

lemma server_session_correct_aux:
  assumes "eserver_conn cr key iv pre s (session_blocks h p rs @ [wire32 4]) []"
    and "nul \<notin> set h" "length h + 1 < 2 ^ 31" "list_all proper rs"
    and "all_sendable g h p rs (snd (add_client h p (sv_index st)))"
  shows "\<exists>st' s'. server_client_handler (eserver_ops cr g) g st s =
      Inr (True, st', EncryptedServerSocket_close s') \<and>
    sv_index st' = snd (remove_client h p (snd (answers g h p rs (snd (add_client h p (sv_index st)))))) \<and>
    sv_log st' = sv_log st @ session_log h p rs \<and>
    eserver_conn cr key iv pre s' []
      (wire32 PROTOCOL_VERSION # fst (answers g h p rs (snd (add_client h p (sv_index st)))))"
  using eserver_sock.handler_session [OF assms, of g] by (simp add: eserver_ops_def)

text \<open>
  C3. The server refines the abstract session.  A client that sends its version, host and port, any
  list of requests and DISCONNECT over an encrypted connection is answered block by block exactly as
  \<open>answers\<close> says; the handler returns, marks itself finished and closes the socket; the index it
  leaves is what the requests made of it with this client removed; it has printed one line for each step.
\<close>

theorem server_session_correct:
  assumes "eserver_conn cr key iv pre s (session_blocks h p rs @ [wire32 4]) []"
    and "nul \<notin> set h" "length h + 1 < 2 ^ 31" "list_all proper rs"
    and "all_sendable g h p rs (snd (add_client h p (sv_index st)))"
  shows "\<exists>st' s'. server_client_handler (eserver_ops cr g) g st s =
      Inr (True, st', EncryptedServerSocket_close s') \<and>
    sv_index st' = snd (remove_client h p (snd (answers g h p rs (snd (add_client h p (sv_index st)))))) \<and>
    sv_log st' = sv_log st @ session_log h p rs \<and>
    eserver_conn cr key iv pre s' []
      (wire32 PROTOCOL_VERSION # fst (answers g h p rs (snd (add_client h p (sv_index st)))))"
  by (rule server_session_correct_aux [OF assms])

theorem server_session_correct_witness:
  "\<exists>st' s'. server_client_handler (eserver_ops demo_crypto (\<lambda>_. 9)) (\<lambda>_. 9) demo_state
       (demo_peer (session_blocks ''a'' 1 [Ask_add 791, Ask_list] @ [wire32 4])) =
       Inr (True, st', EncryptedServerSocket_close s') \<and>
     sv_index st' = snd (remove_client ''a'' 1
       (snd (answers (\<lambda>_. 9) ''a'' 1 [Ask_add 791, Ask_list] (snd (add_client ''a'' 1 (sv_index demo_state)))))) \<and>
     sv_log st' = sv_log demo_state @ session_log ''a'' 1 [Ask_add 791, Ask_list] \<and>
     eserver_conn demo_crypto (replicate 32 7) (replicate 12 5) [] s' []
       (wire32 PROTOCOL_VERSION #
        fst (answers (\<lambda>_. 9) ''a'' 1 [Ask_add 791, Ask_list] (snd (add_client ''a'' 1 (sv_index demo_state)))))"
  by (rule server_session_correct [OF demo_peer_conn]) (simp_all add: demo_session_simps)

text \<open>
  C2. Encryption is transparent to the server.  Given the same requests, the handler over an encrypted
  connection and the handler over a plain socket, whatever the division of the byte stream, end in
  the same state, index and printed lines alike, and answer with the same blocks.
\<close>

theorem encryption_transparent:
  assumes "eserver_conn cr key iv pre se (session_blocks h p rs @ [wire32 4]) []"
    and "server_conn sp (session_blocks h p rs @ [wire32 4]) []"
    and "nul \<notin> set h" "length h + 1 < 2 ^ 31" "list_all proper rs"
    and "all_sendable g h p rs (snd (add_client h p (sv_index st)))"
  shows "\<exists>st' se' sp' outs.
    server_client_handler (eserver_ops cr g') g st se = Inr (True, st', EncryptedServerSocket_close se') \<and>
    server_client_handler server_ops g st sp = Inr (True, st', ServerSocket_close sp') \<and>
    eserver_conn cr key iv pre se' [] outs \<and> server_conn sp' [] outs"
proof -
  from eserver_sock.handler_session [OF assms(1,3-6), of g']
  obtain st1 se' where 1: "server_client_handler (eserver_ops cr g') g st se =
        Inr (True, st1, EncryptedServerSocket_close se')"
      "sv_index st1 = snd (remove_client h p (snd (answers g h p rs (snd (add_client h p (sv_index st))))))"
      "sv_log st1 = sv_log st @ session_log h p rs"
      "eserver_conn cr key iv pre se' [] (wire32 PROTOCOL_VERSION # fst (answers g h p rs (snd (add_client h p (sv_index st)))))"
    by (auto simp: eserver_ops_def)
  from server_sock.handler_session [OF assms(2-6)]
  obtain st2 sp' where 2: "server_client_handler server_ops g st sp = Inr (True, st2, ServerSocket_close sp')"
      "sv_index st2 = snd (remove_client h p (snd (answers g h p rs (snd (add_client h p (sv_index st))))))"
      "sv_log st2 = sv_log st @ session_log h p rs"
      "server_conn sp' [] (wire32 PROTOCOL_VERSION # fst (answers g h p rs (snd (add_client h p (sv_index st)))))"
    by (auto simp: server_ops_def)
  have "st1 = st2" using 1(2,3) 2(2,3) by simp
  with 1(1,4) 2(1,4) show ?thesis by blast
qed

theorem encryption_transparent_witness:
  "\<exists>st' se' sp'.
    server_client_handler (eserver_ops demo_crypto (\<lambda>_. 9)) (\<lambda>_. 9) demo_state
      (demo_peer (session_blocks ''a'' 1 [Ask_add 791, Ask_list] @ [wire32 4])) =
      Inr (True, st', EncryptedServerSocket_close se') \<and>
    server_client_handler server_ops (\<lambda>_. 9) demo_state (ServerSocket_new (kern_with
      (concat (session_blocks ''a'' 1 [Ask_add 791, Ask_list] @ [wire32 4])))) =
      Inr (True, st', ServerSocket_close sp')"
proof -
  let ?bs = "session_blocks ''a'' 1 [Ask_add 791, Ask_list] @ [wire32 4]"
  have plain: "server_conn (ServerSocket_new (kern_with (concat ?bs))) ?bs []"
    using kern_conn_kern_with [of "concat ?bs"] by (simp add: server_link_def ServerSocket_new_def)
  have h: "nul \<notin> set ''a''" "length ''a'' + 1 < 2 ^ 31" "list_all proper [Ask_add 791, Ask_list]"
    "all_sendable (\<lambda>_. 9) ''a'' 1 [Ask_add 791, Ask_list] (snd (add_client ''a'' 1 (sv_index demo_state)))"
    by (simp_all add: demo_session_simps)
  from encryption_transparent [OF demo_peer_conn plain h, of "\<lambda>_. 9"] show ?thesis by blast
qed

text \<open>
  C19. No client can spoil the index.  Over any socket class, whatever arrives and however sends and
  receives fail, every message the handler serves, and the handler as a whole when it returns, keep
  the index sorted, free of duplicates, with every holder connected and every host free of NUL.
\<close>

theorem no_client_spoils_index:
  assumes "index_typed (sv_index st)"
  shows "(serve_message ops g h p m (st, s) = Inr (w, st1, s1) \<longrightarrow> index_typed (sv_index st1)) \<and>
    (server_client_handler ops g st s = Inr (fin, st2, s2) \<longrightarrow> index_typed (sv_index st2)) \<and>
    (r \<in> set (rfcs (sv_index st)) \<longrightarrow> peer r \<in> set (clients (sv_index st)) \<and> nul \<notin> set (host (peer r)))"
  using serve_message_typed [of ops g h p m st s w st1 s1] handler_typed [of ops g st s fin st2 s2]
    index_typed_holders [of "sv_index st" r] assms
  by (auto simp: index_typed_def index_wf_def holders_connected_def)

theorem no_client_spoils_index_witness:
  "\<exists>st' s'. server_client_handler (eserver_ops demo_crypto (\<lambda>_. 9)) (\<lambda>_. 9) demo_state
      (demo_peer (session_blocks ''a'' 1 [Ask_add 791, Ask_list] @ [wire32 4])) = Inr (True, st', s') \<and>
    index_typed (sv_index st')"
proof -
  let ?s = "demo_peer (session_blocks ''a'' 1 [Ask_add 791, Ask_list] @ [wire32 4])"
  have h: "nul \<notin> set ''a''" "length ''a'' + 1 < 2 ^ 31" "list_all proper [Ask_add 791, Ask_list]"
    "all_sendable (\<lambda>_. 9) ''a'' 1 [Ask_add 791, Ask_list] (snd (add_client ''a'' 1 (sv_index demo_state)))"
    by (simp_all add: demo_session_simps)
  obtain st' s' where "server_client_handler (eserver_ops demo_crypto (\<lambda>_. 9)) (\<lambda>_. 9) demo_state ?s = Inr (True, st', s')"
    using server_session_correct_aux [OF demo_peer_conn h] by blast
  moreover have "index_typed (sv_index demo_state)" using index_typed_empty by (simp add: demo_state_def)
  then have "index_typed (sv_index st')"
    using no_client_spoils_index [where ops = "eserver_ops demo_crypto (\<lambda>_. 9)" and g = "\<lambda>_. 9" and st = demo_state
        and s = ?s and fin = True and ?st2.0 = st' and ?s2.0 = s'] calculation by blast
  ultimately show ?thesis by blast
qed

text \<open>
  A client that speaks another version gets the server's version and nothing else, and the index
  is untouched; but the handler leaves \<open>*is_finished\<close> false, so its thread is never collected, and
  does not close the socket.
\<close>

lemma version_mismatch_not_finished:
  assumes "eserver_conn cr key iv pre s (wire32 v # ins) []" "v \<noteq> PROTOCOL_VERSION"
  shows "\<exists>st' s'. server_client_handler (eserver_ops cr g) g st s = Inr (False, st', s') \<and>
    sv_index st' = sv_index st \<and> fd_open (ss_kern (es_base s')) \<and>
    eserver_conn cr key iv pre s' ins [wire32 PROTOCOL_VERSION]"
  using eserver_sock.handler_mismatch [OF assms, of g g st]
  by (auto simp: eserver_link_def kern_link_def)

lemma version_mismatch_not_finished_witness:
  "\<exists>st' s'. server_client_handler (eserver_ops demo_crypto (\<lambda>_. 9)) (\<lambda>_. 9) demo_state
       (demo_peer [wire32 2]) = Inr (False, st', s') \<and>
     sv_index st' = sv_index demo_state \<and> fd_open (ss_kern (es_base s'))"
  using version_mismatch_not_finished [OF demo_peer_conn, of 2] by (fastforce simp: PROTOCOL_VERSION_def)

text \<open>
  C26. A client that ends its side of the connection without DISCONNECT keeps its thread for ever: as
  long as the kernel takes what is sent, the handler does not return, so the client and its holders are never
  removed.  This is so after any requests, at least one, such that the bytes left over from the last one are not
  those of DISCONNECT when they are swapped once more.
\<close>

theorem vanished_client_never_removed:
  assumes "eserver_conn cr key iv pre s (session_blocks h p rs) []"
    and "nul \<notin> set h" "length h + 1 < 2 ^ 31" "list_all proper rs"
    and "all_sendable g h p rs (snd (add_client h p (sv_index st)))"
    and "ci = snd (answers g h p rs (snd (add_client h p (sv_index st))))"
    and "sendable ci" "sendable (snd (add_rfc h p (garbage_number g) ci))"
    and "rs \<noteq> []" "ntohl (request_word (last rs)) \<noteq> 4"
  shows "server_client_handler (eserver_ops cr g) g st s = Inl Diverges"
proof -
  have "proper (last rs)" using assms(4,9) by (simp add: list_all_iff)
  from request_word_proper [OF this] show ?thesis
    using eserver_sock.handler_vanished [OF assms(1-8), of "request_word (last rs)"] assms(9,10)
    by simp
qed

lemma ntohl_2: "ntohl 2 \<noteq> 4"
  by (simp add: ntohl_def store32_def)

theorem vanished_client_never_removed_witness:
  "server_client_handler (eserver_ops demo_crypto (\<lambda>_. 0)) (\<lambda>_. 0) demo_state
     (demo_peer (session_blocks ''a'' 1 [Ask_add 791, Ask_list])) = Inl Diverges"
  by (rule vanished_client_never_removed [OF demo_peer_conn _ _ _ _ refl])
    (simp_all add: demo_session_simps ntohl_2)

text \<open>
  A LIST while the index holds an entry that cannot be encoded (an empty host, a port that is not
  positive) makes the server pass \<open>nullptr\<close> to \<open>send\<close>: nothing checks host and port when a client
  connects.
\<close>

lemma list_of_poisoned_index_undefined:
  assumes "eserver_conn cr key iv pre s (session_blocks h p rs @ [wire32 2]) []"
    and "nul \<notin> set h" "length h + 1 < 2 ^ 31" "list_all proper rs"
    and "all_sendable g h p rs (snd (add_client h p (sv_index st)))"
    and "ci = snd (answers g h p rs (snd (add_client h p (sv_index st))))"
    and "r \<in> set (rfcs ci)" "host (peer r) = [] \<or> sint (port (peer r)) \<le> 0"
    and "length (holders_wire (rfcs ci)) + 9 < 2 ^ 31"
  shows "server_client_handler (eserver_ops cr g) g st s = Inl Undefined_Behaviour"
proof -
  have "\<not> holders_ok (rfcs ci)" using assms(7,8) by (force simp: holders_ok_iff)
  then show ?thesis
    using eserver_sock.handler_poisoned [OF assms(1-5)] assms(6,9) by simp
qed

lemma list_of_poisoned_index_undefined_witness:
  "server_client_handler (eserver_ops demo_crypto (\<lambda>_. 0)) (\<lambda>_. 0) demo_state
     (demo_peer (session_blocks ''a'' 0 [Ask_add 791] @ [wire32 2])) = Inl Undefined_Behaviour"
  by (rule list_of_poisoned_index_undefined [OF demo_peer_conn _ _ _ _ refl,
        where r = "\<lparr>rfc = 791, peer = \<lparr>host = ''a'', port = 0\<rparr>\<rparr>"])
    (simp_all add: demo_session_simps)

text \<open>
  A negative host length is undefined behaviour: it is the bound of an array on the stack.
\<close>

lemma negative_host_length_undefined:
  assumes "eserver_conn cr key iv pre s (wire32 PROTOCOL_VERSION # wire32 n # ins) []" "sint n < 0"
  shows "server_client_handler (eserver_ops cr g) g st s = Inl Undefined_Behaviour"
  by (rule eserver_sock.handler_negative_length [OF assms])

lemma negative_host_length_undefined_witness:
  "server_client_handler (eserver_ops demo_crypto (\<lambda>_. 0)) (\<lambda>_. 0) demo_state
     (demo_peer [wire32 PROTOCOL_VERSION, wire32 (-5)]) = Inl Undefined_Behaviour"
  by (rule negative_host_length_undefined [OF demo_peer_conn]) simp

text \<open>
  A response with another code than 200 carries memory of the server: eight bytes are sent, and
  only the first four are written.
\<close>

lemma error_responses_leak_memory:
  "ListRFCResponse_to_bytes g (ListRFCResponse_new 404 []) = Inr (Bytes (wire32 404 @ map g [4, 5, 6, 7])) \<and>
   LookupRFCResponse_to_bytes g (LookupRFCResponse_new 404 []) = Inr (Bytes (wire32 404 @ map g [4, 5, 6, 7])) \<and>
   GetRFCResponse_to_bytes g (GetRFCResponse_new 404 []) = Inr (Bytes (wire32 404 @ map g [4, 5, 6, 7]))"
proof -
  have "[4..<8] = [4, 5, 6, 7 :: nat]" by (simp add: upt_conv_Cons)
  then show ?thesis
    using ListRFCResponse_to_bytes_error [of "ListRFCResponse_new 404 []" g]
      LookupRFCResponse_to_bytes_error [of "LookupRFCResponse_new 404 []" g]
      GetRFCResponse_to_bytes_error [of "GetRFCResponse_new 404 []" g]
    by (simp add: ListRFCResponse_new_def LookupRFCResponse_new_def GetRFCResponse_new_def known_code_def)
qed

end
