(* ===== verification/RFC_Manager.thy ===== *)
theory RFC_Manager
  imports Bytes
begin

text \<open>
  \<open>RFCManager\<close> (\<open>src/rfc_manager.cpp\<close>): the directory of RFC files of a client.

  The file system is an input and output: what the path of the manager names (nothing, a file, a
  directory with its entries in the order \<open>readdir\<close> gives them), how many more files the process may
  open, and whether the directory may be made, read and written.  An operation returns its result
  and the file system it leaves, also when it throws; the constructor also what it prints.
\<close>

section \<open>The file system\<close>

datatype entry = RegFile string | SubDir

datatype node = Missing | Not_a_directory | Directory "(string \<times> entry) list"

record filesys =
  fs_node :: node
  fs_fds :: nat
  fs_mkdir_ok :: bool
  fs_readable :: bool
  fs_writable :: bool

definition file_write :: "string \<Rightarrow> string \<Rightarrow> (string \<times> entry) list \<Rightarrow> (string \<times> entry) list" where
  "file_write name content es =
     (if map_of es name = None then es @ [(name, RegFile content)]
      else map (\<lambda>(n, e). if n = name then (n, RegFile content) else (n, e)) es)"

section \<open>Opening the directory\<close>

text \<open>The result, the lines that are printed, and the file system.\<close>

definition create_path :: "string \<Rightarrow> filesys \<Rightarrow> bool \<times> string list \<times> filesys" where
  "create_path path fs =
     (if \<not> fs_mkdir_ok fs then (False, [''Unable to create directory at '' @ path], fs)
      else (True, [], fs\<lparr>fs_node := Directory []\<rparr>))"

definition verify_path :: "string \<Rightarrow> filesys \<Rightarrow> bool \<times> string list \<times> filesys" where
  "verify_path path fs =
     (case fs_node fs of
        Missing \<Rightarrow>
          let (r, out, fs) = create_path path fs in (r, (path @ '' does not exist'') # out, fs)
      | Not_a_directory \<Rightarrow> (False, [path @ '' is not a directory''], fs)
      | Directory _ \<Rightarrow> (True, [], fs))"

definition RFCManager_new :: "string \<Rightarrow> filesys \<Rightarrow> unit result \<times> string list \<times> filesys" where
  "RFCManager_new path fs =
     (let (ok, out, fs) = verify_path path fs
      in (if \<not> ok then Inl (Throws InvalidPathException) else Inr (), out, fs))"

text \<open>What the exceptions say of themselves.\<close>

definition InvalidPathException_what :: string where
  "InvalidPathException_what = ''path is invalid and could not be created''"

definition PathReadException_what :: string where
  "PathReadException_what = ''unable to open dir at path''"

definition FilenameParseException_what :: string where
  "FilenameParseException_what = ''unable to parse a filename''"

definition FileReadException_what :: string where
  "FileReadException_what = ''unable to read a file''"

section \<open>File names\<close>

text \<open>
  A full match of \<open>^rfc(\d+).txt$\<close>: the point is not escaped, so it stands for any character but
  the line terminators.  The last four characters are that character and \<open>txt\<close>, so what \<open>\d+\<close> matches
  is determined.
\<close>

definition any_char :: "char \<Rightarrow> bool" where
  "any_char c \<longleftrightarrow> (of_char c :: nat) \<noteq> 10 \<and> (of_char c :: nat) \<noteq> 13"

definition rfc_match :: "string \<Rightarrow> string option" where
  "rfc_match s =
     (let ds = take (length s - 7) (drop 3 s)
      in if 8 \<le> length s \<and> take 3 s = ''rfc'' \<and> list_all is_digit ds \<and>
            any_char (s ! (length s - 4)) \<and> drop (length s - 3) s = ''txt''
         then Some ds else None)"

definition parse_filename :: "string \<Rightarrow> u32 result" where
  "parse_filename filename =
     (case rfc_match (c_string filename) of
        None \<Rightarrow> Inl (Throws FilenameParseException)
      | Some ds \<Rightarrow> stoi ds)"

definition rfc_filename :: "u32 \<Rightarrow> string" where
  "rfc_filename number = ''rfc'' @ dec_int (sint number) @ ''.txt''"

section \<open>The operations\<close>

fun read_names :: "string list \<Rightarrow> u32 list \<Rightarrow> u32 list result" where
  "read_names [] l = Inr l"
| "read_names (item_path # items) l =
     (if item_path = ''..'' \<or> item_path = ''.'' then read_names items l
      else bnd (parse_filename item_path) (\<lambda>n. read_names items (l @ [n])))"

definition int_less :: "u32 \<Rightarrow> u32 \<Rightarrow> bool" where
  "int_less a b \<longleftrightarrow> sint a < sint b"

text \<open>When a name does not parse, the exception leaves the function before \<open>closedir\<close>.\<close>

definition get_rfcs :: "filesys \<Rightarrow> u32 list result \<times> filesys" where
  "get_rfcs fs =
     (case fs_node fs of
        Directory es \<Rightarrow>
          if fs_readable fs \<and> 0 < fs_fds fs
          then case read_names (''.'' # ''..'' # map fst es) [] of
              Inl e \<Rightarrow> (Inl e, fs\<lparr>fs_fds := fs_fds fs - 1\<rparr>)
            | Inr l \<Rightarrow> (Inr (cpp_sort int_less l), fs)
          else (Inl (Throws PathReadException), fs)
      | _ \<Rightarrow> (Inl (Throws PathReadException), fs))"

text \<open>\<open>fprintf(fp, "%s", content.c_str())\<close> writes up to the first NUL.\<close>

definition rm_add_rfc :: "u32 \<Rightarrow> string \<Rightarrow> filesys \<Rightarrow> bool \<times> filesys" where
  "rm_add_rfc number content fs =
     (let filename = rfc_filename number
      in case fs_node fs of
          Directory es \<Rightarrow>
            if fs_writable fs \<and> 0 < fs_fds fs \<and> map_of es filename \<noteq> Some SubDir
            then (True, fs\<lparr>fs_node := Directory (file_write filename (c_string content) es)\<rparr>)
            else (False, fs)
        | _ \<Rightarrow> (False, fs))"

text \<open>
  \<open>while ((c = fgetc(fp)) != EOF)\<close> with a \<open>char c\<close>: the byte 0xFF, read into a signed character,
  equals \<open>EOF\<close>.  A directory can be opened but not read.  The file is never closed.
\<close>

definition eof_char :: char where "eof_char = CHR 0xFF"

definition get_content :: "u32 \<Rightarrow> filesys \<Rightarrow> string result \<times> filesys" where
  "get_content number fs =
     (let filename = rfc_filename number
      in case fs_node fs of
          Directory es \<Rightarrow>
            (case map_of es filename of
               None \<Rightarrow> (Inl (Throws FileReadException), fs)
             | Some e \<Rightarrow>
                 if fs_readable fs \<and> 0 < fs_fds fs
                 then (Inr (case e of RegFile text \<Rightarrow> takeWhile (\<lambda>c. c \<noteq> eof_char) text | SubDir \<Rightarrow> []),
                       fs\<lparr>fs_fds := fs_fds fs - 1\<rparr>)
                 else (Inl (Throws FileReadException), fs))
        | _ \<Rightarrow> (Inl (Throws FileReadException), fs))"

section \<open>What names match\<close>

lemma rfc_match_iff:
  "rfc_match s = Some ds \<longleftrightarrow>
     (\<exists>c. s = ''rfc'' @ ds @ c # ''txt'' \<and> ds \<noteq> [] \<and> (\<forall>d \<in> set ds. is_digit d) \<and> any_char c)"
    (is "?l \<longleftrightarrow> ?r")
proof
  assume ?l
  then have m: "8 \<le> length s" "take 3 s = ''rfc''" "list_all is_digit ds" "any_char (s ! (length s - 4))"
      "drop (length s - 3) s = ''txt''" "ds = take (length s - 7) (drop 3 s)"
    by (auto simp: rfc_match_def Let_def split: if_splits)
  have "drop (length s - 4) s = s ! (length s - 4) # drop (Suc (length s - 4)) s"
    using m(1) by (intro Cons_nth_drop_Suc [symmetric]) simp
  moreover have "Suc (length s - 4) = length s - 3" using m(1) by simp
  ultimately have tail: "drop (length s - 4) s = s ! (length s - 4) # ''txt''" using m(5) by simp
  have "s = take 3 s @ take (length s - 7) (drop 3 s) @ drop (length s - 4) s"
    using m(1) take_drop_split [of 3 "length s - 7" s] by simp
  with m tail show ?r by (auto simp: list_all_iff)
next
  assume ?r
  then obtain c where "s = ''rfc'' @ ds @ c # ''txt''" "ds \<noteq> []" "\<forall>d \<in> set ds. is_digit d" "any_char c"
    by blast
  then show ?l
    by (auto simp: rfc_match_def Let_def list_all_iff nth_append Suc_le_eq neq_Nil_conv)
qed

lemma rfc_filename_match:
  assumes "0 \<le> sint n"
  shows "rfc_match (rfc_filename n) = Some (dec_nat (nat (sint n)))"
  unfolding rfc_match_iff
  using assms dec_nat_digits by (intro exI [of _ "CHR ''.''"])
    (simp add: rfc_filename_def dec_int_def any_char_def)

lemma rfc_filename_no_nul: "0 \<le> sint n \<Longrightarrow> nul \<notin> set (rfc_filename n)"
  using dec_nat_digits by (force simp: rfc_filename_def dec_int_def nul_def is_digit_def)

lemma parse_rfc_filename:
  assumes "0 \<le> sint n"
  shows "parse_filename (rfc_filename n) = Inr n"
proof -
  have "nat (sint n) < 2 ^ 31" using sint_less [of n] by simp
  from stoi_dec_nat [OF this] have "stoi (dec_nat (nat (sint n))) = Inr n"
    using assms by simp
  then show ?thesis
    using assms by (simp add: parse_filename_def c_string_id rfc_filename_no_nul rfc_filename_match)
qed

lemma rfc_filename_inj: "0 \<le> sint m \<Longrightarrow> 0 \<le> sint n \<Longrightarrow> rfc_filename m = rfc_filename n \<Longrightarrow> m = n"
  by (metis parse_rfc_filename Inr_inject)

lemma rfc_filename_no_dots: "rfc_filename n \<noteq> ''.'' \<and> rfc_filename n \<noteq> ''..''"
  by (simp add: rfc_filename_def)

section \<open>The directory\<close>

interpretation int_order: strict_total_order int_less
  by unfold_locales (auto simp: int_less_def signed_word_eqI)

text \<open>Every name of the list parses, apart from the two dots.\<close>

definition dots :: "string set" where "dots = {''.'', ''..''}"

lemma read_names_Inr:
  "read_names names l = Inr r \<longleftrightarrow>
     (\<exists>ns. r = l @ ns \<and> list_all2 (\<lambda>f n. parse_filename f = Inr n) (filter (\<lambda>f. f \<notin> dots) names) ns)"
proof (induction names arbitrary: l)
  case Nil
  then show ?case by auto
next
  case (Cons f names)
  show ?case
  proof (cases "f \<in> dots")
    case True
    then show ?thesis using Cons.IH by (auto simp: dots_def)
  next
    case False
    then have nd: "f \<noteq> ''.''" "f \<noteq> ''..''" by (simp_all add: dots_def)
    show ?thesis
    proof (cases "parse_filename f")
      case (Inl e)
      then show ?thesis using nd False by (auto simp: list_all2_Cons1)
    next
      case (Inr n)
      then have "read_names (f # names) l = read_names names (l @ [n])" using nd by simp
      then show ?thesis using Cons.IH [of "l @ [n]"] False Inr by (auto simp: list_all2_Cons1)
    qed
  qed
qed

lemma read_names_member:
  assumes "read_names names [] = Inr l"
  shows "n \<in> set l \<longleftrightarrow> (\<exists>f \<in> set names - dots. parse_filename f = Inr n)"
proof -
  have l2: "list_all2 (\<lambda>f n. parse_filename f = Inr n) (filter (\<lambda>f. f \<notin> dots) names) l"
    using assms by (simp add: read_names_Inr)
  have "map parse_filename (filter (\<lambda>f. f \<notin> dots) names) = map Inr l"
    using l2 by (induction rule: list_all2_induct) auto
  then have "set (map parse_filename (filter (\<lambda>f. f \<notin> dots) names)) = Inr ` set l" by simp
  then have "parse_filename ` {f \<in> set names. f \<notin> dots} = Inr ` set l" by simp
  then have "Inr n \<in> parse_filename ` {f \<in> set names. f \<notin> dots} \<longleftrightarrow> n \<in> set l" by auto
  then show ?thesis by (auto simp: image_iff)
qed

lemma map_of_file_write:
  "map_of (file_write name content es) name = Some (RegFile content)"
  "n \<noteq> name \<Longrightarrow> map_of (file_write name content es) n = map_of es n"
proof -
  have upd: "map_of (map (\<lambda>(n, e). if n = name then (n, RegFile content) else (n, e)) es) k =
      (if k = name \<and> map_of es name \<noteq> None then Some (RegFile content) else map_of es k)" for k
    by (induction es) auto
  show "map_of (file_write name content es) name = Some (RegFile content)"
    by (cases "map_of es name") (auto simp: file_write_def upd map_add_def)
  show "n \<noteq> name \<Longrightarrow> map_of (file_write name content es) n = map_of es n"
    by (auto simp: file_write_def upd map_add_def split: option.splits)
qed

lemma set_file_write: "fst ` set (file_write name content es) = insert name (fst ` set es)"
proof (cases "map_of es name")
  case None
  then show ?thesis by (simp add: file_write_def)
next
  case (Some e)
  then have "name \<in> fst ` set es" by (metis domI dom_map_of_conv_image_fst)
  moreover have "fst ` set (map (\<lambda>(n, e). if n = name then (n, RegFile content) else (n, e)) es) = fst ` set es"
    by (induction es) auto
  ultimately show ?thesis using Some by (auto simp: file_write_def)
qed

section \<open>Properties\<close>

definition demo_fs :: filesys where
  "demo_fs =
     \<lparr>fs_node = Directory [(''rfc793.txt'', RegFile ''tcp''), (''rfc0791.txt'', RegFile ''ip'')], fs_fds = 5,
      fs_mkdir_ok = True, fs_readable = True, fs_writable = True\<rparr>"

lemma nat_digit_bounds: "is_digit d \<Longrightarrow> d \<noteq> nul"
  by (auto simp: is_digit_def nul_def)

lemma parse_match:
  assumes "ds \<noteq> []" "\<forall>d \<in> set ds. is_digit d" "any_char c" "c \<noteq> nul" "digits_val ds < 2 ^ 31"
  shows "parse_filename (''rfc'' @ ds @ c # ''txt'') = Inr (of_nat (digits_val ds))"
proof -
  have "nul \<notin> set (''rfc'' @ ds @ c # ''txt'')"
    using assms(2,4) nat_digit_bounds by (auto simp: nul_def)
  then have "c_string (''rfc'' @ ds @ c # ''txt'') = ''rfc'' @ ds @ c # ''txt''" by (rule c_string_id)
  moreover have "rfc_match (''rfc'' @ ds @ c # ''txt'') = Some ds"
    using assms(1-3) unfolding rfc_match_iff by blast
  ultimately show ?thesis
    using assms(1,2,5) by (simp add: parse_filename_def stoi_digits)
qed

lemma get_rfcs_complete_aux:
  assumes "fs_node fs = Directory es" "fs_readable fs" "0 < fs_fds fs"
    and "\<forall>f \<in> fst ` set es - dots. \<exists>n. parse_filename f = Inr n"
  shows "\<exists>l. get_rfcs fs = (Inr l, fs) \<and> sorted_wrt (\<lambda>a b. sint a \<le> sint b) l \<and>
    (\<forall>n. n \<in> set l \<longleftrightarrow> (\<exists>f \<in> fst ` set es - dots. parse_filename f = Inr n))"
proof -
  let ?names = "''.'' # ''..'' # map fst es"
  from bchoice [OF assms(4)]
  obtain parsed where "\<forall>f \<in> fst ` set es - dots. parse_filename f = Inr (parsed f)" by blast
  then have "\<forall>f \<in> set (filter (\<lambda>f. f \<notin> dots) ?names). parse_filename f = Inr (parsed f)"
    by (auto simp: dots_def)
  then have "list_all2 (\<lambda>f n. parse_filename f = Inr n) (filter (\<lambda>f. f \<notin> dots) ?names)
      (map parsed (filter (\<lambda>f. f \<notin> dots) ?names))"
    by (simp add: list_all2_conv_all_nth)
  then have "\<exists>l. read_names ?names [] = Inr l" unfolding read_names_Inr by blast
  then obtain l where l: "read_names ?names [] = Inr l" by blast
  have "sorted_wrt (\<lambda>a b. sint a \<le> sint b) (cpp_sort int_less l)"
    using int_order.sorted_cpp_sort [of l] by (simp add: int_less_def not_less)
  moreover have "n \<in> set (cpp_sort int_less l) \<longleftrightarrow> (\<exists>f \<in> fst ` set es - dots. parse_filename f = Inr n)" for n
    using read_names_member [OF l, of n] by (auto simp: dots_def)
  ultimately show ?thesis using assms(1-3) l by (simp add: get_rfcs_def del: read_names.simps)
qed

text \<open>A number that is not listed has no file, and a plain text is found again once it is stored.\<close>

lemma get_rfcs_fresh:
  assumes "fst (get_rfcs fs) = Inr ns" "n \<notin> set ns" "0 \<le> sint n"
  shows "\<exists>es. fs_node fs = Directory es \<and> fs_readable fs \<and> 0 < fs_fds fs \<and> map_of es (rfc_filename n) = None"
proof -
  from assms(1) obtain es l where es: "fs_node fs = Directory es" "fs_readable fs" "0 < fs_fds fs"
      "read_names (''.'' # ''..'' # map fst es) [] = Inr l" "ns = cpp_sort int_less l"
    by (auto simp: get_rfcs_def simp del: read_names.simps split: node.splits if_splits sum.splits)
  have "rfc_filename n \<notin> fst ` set es"
    using read_names_member [OF es(4), of n] assms(2) parse_rfc_filename [OF assms(3)]
      rfc_filename_no_dots [of n] es(5) by (auto simp: dots_def)
  then have "map_of es (rfc_filename n) = None" by (simp add: map_of_eq_None_iff)
  with es show ?thesis by blast
qed

lemma get_rfcs_sorted: "fst (get_rfcs fs) = Inr ns \<Longrightarrow> sorted_wrt (\<lambda>x y. \<not> int_less y x) ns"
  by (auto simp: get_rfcs_def int_order.sorted_cpp_sort simp del: read_names.simps split: node.splits if_splits sum.splits)

lemma get_rfcs_after_add:
  assumes "fst (get_rfcs fs) = Inr ns" "n \<notin> set ns" "0 \<le> sint n" "fs_writable fs"
  shows "\<exists>ms. fst (get_rfcs (snd (rm_add_rfc n t fs))) = Inr ms \<and> mset ms = add_mset n (mset ns)"
proof -
  from assms(1) obtain es l where es: "fs_node fs = Directory es" "fs_readable fs" "0 < fs_fds fs"
      "read_names (''.'' # ''..'' # map fst es) [] = Inr l" "ns = cpp_sort int_less l"
    by (auto simp: get_rfcs_def simp del: read_names.simps split: node.splits if_splits sum.splits)
  have new: "map_of es (rfc_filename n) = None" using get_rfcs_fresh [OF assms(1-3)] es(1) by auto
  let ?names = "''.'' # ''..'' # map fst es"
  have "rfc_filename n \<notin> dots" using rfc_filename_no_dots by (simp add: dots_def)
  then have f: "filter (\<lambda>f. f \<notin> dots) (?names @ [rfc_filename n]) = filter (\<lambda>f. f \<notin> dots) ?names @ [rfc_filename n]"
    by simp
  have "list_all2 (\<lambda>f n. parse_filename f = Inr n) (filter (\<lambda>f. f \<notin> dots) ?names) l"
    using es(4) unfolding read_names_Inr by simp
  then have "read_names (?names @ [rfc_filename n]) [] = Inr (l @ [n])"
    unfolding read_names_Inr f using parse_rfc_filename [OF assms(3)] by (simp add: list_all2_appendI)
  then have "fst (get_rfcs (snd (rm_add_rfc n t fs))) = Inr (cpp_sort int_less (l @ [n]))"
    using es(1-3) new assms(4) by (simp add: rm_add_rfc_def get_rfcs_def file_write_def del: read_names.simps)
  then show ?thesis using es(5) by auto
qed
lemma get_content_after_add:
  assumes "fs_node fs = Directory es" "fs_readable fs" "fs_writable fs" "0 < fs_fds fs"
    and "map_of es (rfc_filename n) \<noteq> Some SubDir" "nul \<notin> set body" "eof_char \<notin> set body"
  shows "fst (get_content n (snd (rm_add_rfc n body fs))) = Inr body"
proof -
  have "takeWhile (\<lambda>c. c \<noteq> eof_char) body = body"
    using assms(7) by (auto simp: takeWhile_eq_all_conv)
  then show ?thesis
    using assms(1-6) by (simp add: rm_add_rfc_def get_content_def map_of_file_write c_string_id)
qed

text \<open>
  C14. \<open>get_rfcs\<close> returns exactly the numbers of the files in the directory, in increasing order, when
  every name parses; and the file written for a number parses back to that number.
\<close>

theorem get_rfcs_complete:
  assumes "fs_node fs = Directory es" "fs_readable fs" "0 < fs_fds fs"
    and "\<forall>f \<in> fst ` set es - dots. \<exists>n. parse_filename f = Inr n"
  shows "\<exists>l. get_rfcs fs = (Inr l, fs) \<and> sorted_wrt (\<lambda>a b. sint a \<le> sint b) l \<and>
    (\<forall>n. n \<in> set l \<longleftrightarrow> (\<exists>f \<in> fst ` set es - dots. parse_filename f = Inr n))"
  by (rule get_rfcs_complete_aux [OF assms])

theorem get_rfcs_complete_witness:
  "\<exists>l. get_rfcs demo_fs = (Inr l, demo_fs) \<and> sorted_wrt (\<lambda>a b. sint a \<le> sint b) l \<and>
     (\<forall>n. n \<in> set l \<longleftrightarrow> (\<exists>f \<in> fst ` set [(''rfc793.txt'', RegFile ''tcp''), (''rfc0791.txt'', RegFile ''ip'')] - dots.
        parse_filename f = Inr n))"
proof (rule get_rfcs_complete)
  show "\<forall>f \<in> fst ` set [(''rfc793.txt'', RegFile ''tcp''), (''rfc0791.txt'', RegFile ''ip'')] - dots.
      \<exists>n. parse_filename f = Inr n"
    using parse_match [of "''793''" "CHR ''.''"] parse_match [of "''0791''" "CHR ''.''"]
    by (auto simp: any_char_def nul_def is_digit_def digits_val_def digit_val_def)
qed (simp_all add: demo_fs_def)

text \<open>
  C15. A text that is stored is found again: after \<open>add_rfc\<close> the number is listed, and \<open>get_content\<close>
  returns the text cut at its first NUL and at its first byte 0xFF, so the text itself exactly when
  it has neither.
\<close>

theorem stored_content_found:
  assumes "fs_node fs = Directory es" "fs_readable fs" "fs_writable fs" "0 < fs_fds fs" "0 \<le> sint n"
    and "map_of es (rfc_filename n) \<noteq> Some SubDir"
    and "\<forall>f \<in> fst ` set es - dots. \<exists>n. parse_filename f = Inr n"
  shows "\<exists>fs' l. rm_add_rfc n text fs = (True, fs') \<and>
    get_rfcs fs' = (Inr l, fs') \<and> n \<in> set l \<and>
    fst (get_content n fs') = Inr (takeWhile (\<lambda>c. c \<noteq> eof_char) (c_string text)) \<and>
    (fst (get_content n fs') = Inr text) = (nul \<notin> set text \<and> eof_char \<notin> set text)"
proof -
  let ?es = "file_write (rfc_filename n) (c_string text) es"
  let ?fs = "fs\<lparr>fs_node := Directory ?es\<rparr>"
  have add: "rm_add_rfc n text fs = (True, ?fs)"
    using assms(1,3,4,6) by (simp add: rm_add_rfc_def)
  have all: "\<forall>f \<in> fst ` set ?es - dots. \<exists>n. parse_filename f = Inr n"
    using assms(7) parse_rfc_filename [OF assms(5)] by (auto simp: set_file_write)
  obtain l where l: "get_rfcs ?fs = (Inr l, ?fs)"
      "\<forall>n. n \<in> set l \<longleftrightarrow> (\<exists>f \<in> fst ` set ?es - dots. parse_filename f = Inr n)"
    using get_rfcs_complete_aux [of ?fs ?es] assms(2,4) all by auto
  have "n \<in> set l"
    using l(2) parse_rfc_filename [OF assms(5)] rfc_filename_no_dots [of n]
    by (auto simp: set_file_write dots_def)
  moreover have get: "fst (get_content n ?fs) = Inr (takeWhile (\<lambda>c. c \<noteq> eof_char) (c_string text))"
    using assms(2,4) by (simp add: get_content_def map_of_file_write)
  moreover have "takeWhile (\<lambda>c. c \<noteq> eof_char) (c_string text) = text \<longleftrightarrow> nul \<notin> set text \<and> eof_char \<notin> set text"
  proof
    assume eq: "takeWhile (\<lambda>c. c \<noteq> eof_char) (c_string text) = text"
    then have "length text \<le> length (c_string text)" by (metis length_takeWhile_le)
    then have "c_string text = text"
      by (metis c_string_def takeWhile_eq_take take_all length_take min.absorb_iff2 min_def)
    then show "nul \<notin> set text \<and> eof_char \<notin> set text"
      using eq c_string_no_nul by (metis set_takeWhileD)
  next
    assume "nul \<notin> set text \<and> eof_char \<notin> set text"
    then show "takeWhile (\<lambda>c. c \<noteq> eof_char) (c_string text) = text"
      by (auto simp: c_string_id takeWhile_eq_all_conv)
  qed
  ultimately show ?thesis using add l(1) by (intro exI [of _ ?fs] exI [of _ l]) simp
qed

theorem stored_content_found_witness:
  "\<exists>fs' l. rm_add_rfc 1 ''abc'' (demo_fs\<lparr>fs_node := Directory []\<rparr>) = (True, fs') \<and>
     get_rfcs fs' = (Inr l, fs') \<and> 1 \<in> set l \<and> fst (get_content 1 fs') = Inr ''abc''"
  using stored_content_found [of "demo_fs\<lparr>fs_node := Directory []\<rparr>" "[]" 1 "''abc''"]
  by (auto simp: demo_fs_def nul_def eof_char_def)

text \<open>
  \<open>parse_filename\<close> accepts more names than \<open>get_content\<close> looks for: leading zeros and any
  character in place of the point.  Such a file is listed, and so advertised to the index, under a
  number whose content cannot be read.
\<close>

lemma listed_but_not_served:
  assumes "ds \<noteq> []" "\<forall>d \<in> set ds. is_digit d" "any_char c" "c \<noteq> nul" "digits_val ds < 2 ^ 31"
    and "''rfc'' @ ds @ c # ''txt'' \<noteq> rfc_filename (of_nat (digits_val ds))"
    and "fs_node fs = Directory [(''rfc'' @ ds @ c # ''txt'', RegFile text)]" "fs_readable fs" "0 < fs_fds fs"
  shows "fst (get_rfcs fs) = Inr [of_nat (digits_val ds)] \<and>
    fst (get_content (of_nat (digits_val ds)) fs) = Inl (Throws FileReadException)"
  using assms parse_match [OF assms(1-5)] by (simp add: get_rfcs_def get_content_def)

lemma listed_but_not_served_witness:
  "fst (get_rfcs (demo_fs\<lparr>fs_node := Directory [(''rfc0791.txt'', RegFile ''ip'')]\<rparr>)) = Inr [791] \<and>
   fst (get_content 791 (demo_fs\<lparr>fs_node := Directory [(''rfc0791.txt'', RegFile ''ip'')]\<rparr>)) =
     Inl (Throws FileReadException)"
proof -
  have v: "digits_val ''0791'' = 791" by (simp add: digits_val_def digit_val_def)
  have n: "''rfc0791.txt'' \<noteq> rfc_filename 791"
    by (simp add: rfc_filename_def dec_int_def dec_nat.simps digit_char_def)
  show ?thesis
    using listed_but_not_served [of "''0791''" "CHR ''.''" "demo_fs\<lparr>fs_node := Directory [(''rfc0791.txt'', RegFile ''ip'')]\<rparr>" "''ip''"]
      n by (simp add: v demo_fs_def any_char_def nul_def is_digit_def)
qed

text \<open>
  One file with another name makes \<open>get_rfcs\<close> throw, and the directory stays open: one descriptor
  fewer is left.
\<close>

lemma stray_file_throws:
  assumes "fs_node fs = Directory (es @ (name, e) # es')" "fs_readable fs" "0 < fs_fds fs"
    and "\<forall>f \<in> fst ` set es - dots. \<exists>n. parse_filename f = Inr n"
    and "rfc_match (c_string name) = None" "name \<notin> dots"
  shows "get_rfcs fs = (Inl (Throws FilenameParseException), fs\<lparr>fs_fds := fs_fds fs - 1\<rparr>)"
proof -
  have "read_names (map fst es @ name # map fst es') l = Inl (Throws FilenameParseException)" for l
    using assms(4)
  proof (induction es arbitrary: l)
    case Nil
    then show ?case using assms(5,6) by (simp add: dots_def parse_filename_def)
  next
    case (Cons x es)
    then have IH: "read_names (map fst es @ name # map fst es') l = Inl (Throws FilenameParseException)" for l
      by simp
    show ?case
    proof (cases "fst x \<in> dots")
      case True
      then show ?thesis using IH by (auto simp: dots_def)
    next
      case False
      then obtain n where "parse_filename (fst x) = Inr n" using Cons.prems by auto
      then show ?thesis using IH by simp
    qed
  qed
  then show ?thesis using assms(1-3) by (simp add: get_rfcs_def)
qed

lemma stray_file_throws_witness:
  "get_rfcs (demo_fs\<lparr>fs_node := Directory [(''notes.md'', RegFile [])]\<rparr>) =
     (Inl (Throws FilenameParseException), demo_fs\<lparr>fs_node := Directory [(''notes.md'', RegFile [])], fs_fds := 4\<rparr>)"
proof -
  have "c_string ''notes.md'' = ''notes.md''" by (rule c_string_id) (simp add: nul_def)
  then have "rfc_match (c_string ''notes.md'') = None" by (simp add: rfc_match_def)
  then show ?thesis
    using stray_file_throws [of "demo_fs\<lparr>fs_node := Directory [(''notes.md'', RegFile [])]\<rparr>" "[]" "''notes.md''" "RegFile []" "[]"]
    by (simp add: demo_fs_def dots_def)
qed

text \<open>
  \<open>get_content\<close> never closes its file: every text served uses up a descriptor, and after as many
  calls as there were descriptors the same stored file is reported missing.
\<close>

lemma serving_uses_up_descriptors:
  assumes "fs_node fs = Directory es" "fs_readable fs" "map_of es (rfc_filename n) = Some e"
    and "fs' = ((\<lambda>fs. snd (get_content n fs)) ^^ fs_fds fs) fs"
  shows "fst (get_content n fs') = Inl (Throws FileReadException) \<and> fs_node fs' = fs_node fs"
proof -
  have step: "((\<lambda>fs. snd (get_content n fs)) ^^ k) fs = fs\<lparr>fs_fds := fs_fds fs - k\<rparr>" if "k \<le> fs_fds fs" for k
    using that
  proof (induction k)
    case (Suc k)
    then have "((\<lambda>fs. snd (get_content n fs)) ^^ k) fs = fs\<lparr>fs_fds := fs_fds fs - k\<rparr>" by simp
    then show ?case using assms(1-3) Suc.prems by (simp add: get_content_def)
  qed simp
  from step [of "fs_fds fs"] assms show ?thesis by (simp add: get_content_def)
qed

lemma serving_uses_up_descriptors_witness:
  "fst (get_content 793 (((\<lambda>fs. snd (get_content 793 fs)) ^^ 5) demo_fs)) = Inl (Throws FileReadException)"
proof -
  have n: "rfc_filename 793 = ''rfc793.txt''"
    by (simp add: rfc_filename_def dec_int_def dec_nat.simps digit_char_def char_of_def bit_Suc_0_iff)
  then show ?thesis
    using serving_uses_up_descriptors [of demo_fs _ 793 "RegFile ''tcp''", OF _ _ _ refl]
    by (simp add: demo_fs_def)
qed

end
