(* ===== verification/Peer_Handler.thy ===== *)
theory Peer_Handler
  imports Handler_Common RFC_Manager Messages_Fixed Get_RFC_Response
begin

text \<open>
  The handler a client runs for other peers (the lambda \<open>handler\<close> in \<open>main\<close> of \<open>src/client.cpp\<close>):
  it reads the peer's host and port and answers GET messages from the directory of the client until
  DISCONNECT.  Its state is the file system and what is printed.  It does not close the socket.
\<close>

section \<open>The program\<close>

record peer_state =
  pr_fs :: filesys
  pr_log :: "string list"

definition print_client :: "string \<Rightarrow> u32 \<Rightarrow> string" where
  "print_client h p = h @ '' ('' @ dec_int (sint p) @ '')''"

text \<open>
  The number of a GET message is a \<open>short\<close>, widened with its sign for \<open>get_content\<close>.  Only a
  \<open>FileReadException\<close> is caught.
\<close>

definition peer_get ::
    "'s sock_ops \<Rightarrow> (nat \<Rightarrow> byte) \<Rightarrow> string \<Rightarrow> u32 \<Rightarrow> peer_state \<times> 's \<Rightarrow> (peer_state \<times> 's) result" where
  "peer_get ops g hostname upload_port = (\<lambda>(st, s).
     bnd (recv_bytes ops (fresh_bytes g 2) s) (\<lambda>(buf, s).
     bnd (GetRFCMessage_from_bytes buf GetRFCMessage_init) (\<lambda>msg.
     let rfc_num = GetRFCMessage_get_number msg;
         (r, fs) = get_content (scast rfc_num) (pr_fs st)
     in bnd (case r of
               Inr content \<Rightarrow>
                 Inr (content, 200, ''Sending RFC'' @ dec_int (sint rfc_num) @ '' to '' @
                        print_client hostname upload_port)
             | Inl e \<Rightarrow>
                 if e = Throws FileReadException
                 then Inr ([], 404, print_client hostname upload_port @ '' requested RFC'' @
                             dec_int (sint rfc_num) @ '' which is not saved'')
                 else Inl e) (\<lambda>(content, code, line).
        let res = GetRFCResponse_new code content
        in bnd (GetRFCResponse_to_bytes g res) (\<lambda>buf.
           bnd (send_with_size ops (GetRFCResponse_message_size res) buf s) (\<lambda>s.
           Inr (\<lparr>pr_fs = fs, pr_log = pr_log st @ [line]\<rparr>, s)))))))"

definition peer_message ::
    "'s sock_ops \<Rightarrow> (nat \<Rightarrow> byte) \<Rightarrow> string \<Rightarrow> u32 \<Rightarrow> u32 \<Rightarrow> peer_state \<times> 's \<Rightarrow>
     (u32 \<times> peer_state \<times> 's) result" where
  "peer_message ops g hostname upload_port message = (\<lambda>(st, s).
     bnd (recv_int ops message s) (\<lambda>(message, s).
     let message = ntohl message
     in bnd (if message = P2PMessage_int P2P_GET then peer_get ops g hostname upload_port (st, s)
             else Inr (st, s))
          (\<lambda>(st, s). Inr (message, st, s))))"

partial_function (option) peer_loop ::
    "'s sock_ops \<Rightarrow> (nat \<Rightarrow> byte) \<Rightarrow> string \<Rightarrow> u32 \<Rightarrow> u32 \<Rightarrow> peer_state \<times> 's \<Rightarrow>
     (peer_state \<times> 's) result option" where
  "peer_loop ops g hostname upload_port message sts =
     (case peer_message ops g hostname upload_port message sts of
        Inl e \<Rightarrow> Some (Inl e)
      | Inr (message, sts) \<Rightarrow>
          if message \<noteq> P2PMessage_int P2P_DISCONNECT
          then peer_loop ops g hostname upload_port message sts
          else Some (Inr sts))"

text \<open>The first component of the result is \<open>*is_finished\<close>.\<close>

definition peer_handler ::
    "'s sock_ops \<Rightarrow> (nat \<Rightarrow> byte) \<Rightarrow> peer_state \<Rightarrow> 's \<Rightarrow> (bool \<times> peer_state \<times> 's) result" where
  "peer_handler ops g st s =
     bnd (recv_identity ops g s) (\<lambda>(hostname, upload_port, s).
     let st = st\<lparr>pr_log := pr_log st @ [''Connection from '' @ print_client hostname upload_port]\<rparr>
     in bnd (run_loop (peer_loop ops g hostname upload_port (load32 (fresh_bytes g 4)) (st, s))) (\<lambda>(st, s).
        Inr (True, st, s)))"

section \<open>What a GET must get back\<close>

definition get_wire :: "(nat \<Rightarrow> byte) \<Rightarrow> string option \<Rightarrow> byte list" where
  "get_wire g c =
     (case c of
        Some text \<Rightarrow> wire32 200 @ wire32 (ulen text) @ string_bytes text
      | None \<Rightarrow> wire32 404 @ map g [4..<8])"

definition stored_text :: "u32 \<Rightarrow> filesys \<Rightarrow> string option" where
  "stored_text n fs = (case fst (get_content n fs) of Inr text \<Rightarrow> Some text | Inl e \<Rightarrow> None)"

text \<open>Texts the response can carry: not empty, and with their length in an \<open>int\<close>.\<close>

definition servable_text :: "string option \<Rightarrow> bool" where
  "servable_text c \<longleftrightarrow> (case c of Some text \<Rightarrow> text \<noteq> [] \<and> length text + 9 < 2 ^ 31 | None \<Rightarrow> True)"

definition response_to :: "string option \<Rightarrow> GetRFCResponse" where
  "response_to c = (case c of Some text \<Rightarrow> GetRFCResponse_new 200 text | None \<Rightarrow> GetRFCResponse_new 404 [])"

lemma get_content_throws: "fst (get_content n fs) = Inl e \<Longrightarrow> e = Throws FileReadException"
  by (auto simp: get_content_def Let_def split: node.splits option.splits if_splits)

lemma get_answer_bytes:
  assumes "servable_text c"
  shows "GetRFCResponse_to_bytes g (response_to c) = Inr (Bytes (get_wire g c))"
    and "GetRFCResponse_message_size (response_to c) = ulen (get_wire g c)"
    and "length (get_wire g c) + 1 < 2 ^ 31"
proof -
  show "length (get_wire g c) + 1 < 2 ^ 31"
    using assms by (cases c) (simp_all add: get_wire_def servable_text_def)
  show "GetRFCResponse_message_size (response_to c) = ulen (get_wire g c)"
    by (cases c) (simp_all add: GetRFCResponse_message_size_def response_to_def GetRFCResponse_new_def
        get_wire_def ulen_def)
  show "GetRFCResponse_to_bytes g (response_to c) = Inr (Bytes (get_wire g c))"
    using assms GetRFCResponse_to_bytes_200 [of "response_to c" g]
      GetRFCResponse_to_bytes_error [of "response_to c" g]
    by (cases c) (simp_all add: response_to_def GetRFCResponse_new_def get_wire_def servable_text_def
        known_code_def)
qed

text \<open>What the handler of GET sends, and what it leaves, once it has read the number.\<close>

definition get_line :: "string \<Rightarrow> u32 \<Rightarrow> u16 \<Rightarrow> string option \<Rightarrow> string" where
  "get_line h p k c =
     (case c of
        Some text \<Rightarrow> ''Sending RFC'' @ dec_int (sint k) @ '' to '' @ print_client h p
      | None \<Rightarrow> print_client h p @ '' requested RFC'' @ dec_int (sint k) @ '' which is not saved'')"

lemma peer_get_eq:
  assumes "recv_bytes ops (fresh_bytes g 2) s = Inr (wire16 k, s1)" "c = stored_text (scast k) (pr_fs st)"
    and "servable_text c" "w = get_wire g c"
  shows "peer_get ops g h p (st, s) = bnd (send_with_size ops (ulen w) (Bytes w) s1) (\<lambda>s.
    Inr (\<lparr>pr_fs = snd (get_content (scast k) (pr_fs st)), pr_log = pr_log st @ [get_line h p k c]\<rparr>, s))"
proof (cases "fst (get_content (scast k) (pr_fs st))")
  case (Inl e)
  moreover from this have "e = Throws FileReadException" by (rule get_content_throws)
  ultimately show ?thesis
    using assms get_answer_bytes [OF assms(3), of g]
    by (simp add: peer_get_def codec_simps GetRFCMessage_get_number_def case_prod_beta
        GetRFCMessage_init_def stored_text_def response_to_def get_line_def)
next
  case (Inr body)
  then show ?thesis
    using assms get_answer_bytes [OF assms(3), of g]
    by (simp add: peer_get_def codec_simps GetRFCMessage_get_number_def case_prod_beta
        GetRFCMessage_init_def stored_text_def response_to_def get_line_def)
qed

section \<open>Over a socket that meets the contract\<close>

context frame_socket
begin

lemma peer_get_conn:
  assumes "conn s (wire16 k # ins) outs" "servable_text (stored_text (scast k) (pr_fs st))"
  shows "\<exists>st' s'. peer_get ops g h p (st, s) = Inr (st', s') \<and>
    pr_fs st' = snd (get_content (scast k) (pr_fs st)) \<and>
    conn s' ins (outs @ [wire32 (ulen (get_wire g (stored_text (scast k) (pr_fs st)))),
      get_wire g (stored_text (scast k) (pr_fs st))])"
proof -
  obtain s1 where s1: "recv_bytes ops (fresh_bytes g 2) s = Inr (wire16 k, s1)" "conn s1 ins outs"
    using recv_bytes_conn [OF assms(1), of "fresh_bytes g 2"] by auto
  from send_with_size_conn [OF s1(2) get_answer_bytes(3) [OF assms(2), of g]] show ?thesis
    by (auto simp: peer_get_eq [OF s1(1) refl assms(2) refl])
qed

lemma peer_loop_get:
  assumes "conn s (wire32 1 # wire16 k # ins) outs" "servable_text (stored_text (scast k) (pr_fs st))"
  shows "\<exists>st' s'. peer_loop ops g h p m (st, s) = peer_loop ops g h p 1 (st', s') \<and>
    pr_fs st' = snd (get_content (scast k) (pr_fs st)) \<and>
    conn s' ins (outs @ [wire32 (ulen (get_wire g (stored_text (scast k) (pr_fs st)))),
      get_wire g (stored_text (scast k) (pr_fs st))])"
proof -
  obtain s1 where s1: "recv_int ops m s = Inr (htonl 1, s1)" "conn s1 (wire16 k # ins) outs"
    using recv_int_conn [OF assms(1)] by blast
  from peer_get_conn [OF s1(2) assms(2), of g h p]
  obtain st2 s2 where 2: "peer_get ops g h p (st, s1) = Inr (st2, s2)"
      "pr_fs st2 = snd (get_content (scast k) (pr_fs st))"
      "conn s2 ins (outs @ [wire32 (ulen (get_wire g (stored_text (scast k) (pr_fs st)))),
        get_wire g (stored_text (scast k) (pr_fs st))])" by blast
  then have "peer_loop ops g h p m (st, s) = peer_loop ops g h p 1 (st2, s2)"
    using s1(1) by (subst peer_loop.simps) (simp add: peer_message_def)
  with 2 show ?thesis by blast
qed

lemma peer_loop_disconnect:
  assumes "conn s (wire32 2 # ins) outs"
  shows "\<exists>s'. peer_loop ops g h p m (st, s) = Some (Inr (st, s')) \<and> conn s' ins outs"
proof -
  obtain s1 where "recv_int ops m s = Inr (htonl 2, s1)" "conn s1 ins outs"
    using recv_int_conn [OF assms] by blast
  then show ?thesis
    by (intro exI [of _ s1]) (subst peer_loop.simps, simp add: peer_message_def)
qed

text \<open>One download: GET, the answer, DISCONNECT.\<close>

lemma peer_handler_download:
  assumes "conn s (identity_blocks h p @ [wire32 1, wire16 k, wire32 2] @ ins) outs"
    and "nul \<notin> set h" "length h + 1 < 2 ^ 31" "servable_text (stored_text (scast k) (pr_fs st))"
  shows "\<exists>st' s'. peer_handler ops g st s = Inr (True, st', s') \<and>
    pr_fs st' = snd (get_content (scast k) (pr_fs st)) \<and>
    conn s' ins (outs @ [wire32 (ulen (get_wire g (stored_text (scast k) (pr_fs st)))),
      get_wire g (stored_text (scast k) (pr_fs st))])"
proof -
  let ?c = "stored_text (scast k) (pr_fs st)"
  let ?st = "st\<lparr>pr_log := pr_log st @ [''Connection from '' @ print_client h p]\<rparr>"
  from assms(1) have "conn s (wire32 (ulen h) # string_bytes h # wire32 p # [wire32 1, wire16 k, wire32 2] @ ins) outs"
    by (simp add: identity_blocks_def)
  from recv_identity_conn [OF this assms(2,3), of g]
  obtain s1 where 1: "recv_identity ops g s = Inr (h, p, s1)"
      "conn s1 (wire32 1 # wire16 k # wire32 2 # ins) outs" by auto
  from peer_loop_get [OF 1(2), of ?st g h p "load32 (fresh_bytes g 4)"] assms(4)
  obtain st2 s2 where 2: "peer_loop ops g h p (load32 (fresh_bytes g 4)) (?st, s1) = peer_loop ops g h p 1 (st2, s2)"
      "pr_fs st2 = snd (get_content (scast k) (pr_fs st))"
      "conn s2 (wire32 2 # ins) (outs @ [wire32 (ulen (get_wire g ?c)), get_wire g ?c])" by auto
  from peer_loop_disconnect [OF 2(3), of g h p 1 st2] 1(1) 2(1,2) show ?thesis
    by (auto simp: peer_handler_def run_loop_def)
qed

text \<open>A GET for a file whose text is empty.\<close>

lemma peer_handler_empty_file:
  assumes "conn s (identity_blocks h p @ [wire32 1, wire16 k] @ ins) outs"
    and "nul \<notin> set h" "length h + 1 < 2 ^ 31" "stored_text (scast k) (pr_fs st) = Some []"
  shows "peer_handler ops g st s = Inl Undefined_Behaviour"
proof -
  let ?st = "st\<lparr>pr_log := pr_log st @ [''Connection from '' @ print_client h p]\<rparr>"
  from assms(1) have "conn s (wire32 (ulen h) # string_bytes h # wire32 p # [wire32 1, wire16 k] @ ins) outs"
    by (simp add: identity_blocks_def)
  from recv_identity_conn [OF this assms(2,3), of g]
  obtain s1 where 1: "recv_identity ops g s = Inr (h, p, s1)" "conn s1 (wire32 1 # wire16 k # ins) outs"
    by auto
  from recv_int_conn [OF 1(2), of "load32 (fresh_bytes g 4)"]
  obtain s2 where 2: "recv_int ops (load32 (fresh_bytes g 4)) s1 = Inr (htonl 1, s2)" "conn s2 (wire16 k # ins) outs"
    by blast
  from recv_bytes_conn [OF 2(2), of "fresh_bytes g 2"]
  obtain s3 where 3: "recv_bytes ops (fresh_bytes g 2) s2 = Inr (wire16 k, s3)" "conn s3 ins outs" by auto
  obtain s4 where 4: "send_int ops (htonl 8) s3 = Inr s4" using send_int_conn [OF 3(2)] by blast
  have null: "GetRFCResponse_to_bytes g (GetRFCResponse_new 200 []) = Inr Null"
    by (simp add: GetRFCResponse_to_bytes_def GetRFCResponse_is_valid_def GetRFCResponse_new_def)
  have eight: "size_of_int 8 = 8" using size_of_int_small [of 8] by simp
  have "fst (get_content (scast k) (pr_fs st)) = Inr []"
    using assms(4) by (auto simp: stored_text_def split: sum.splits)
  then have "peer_get ops g h p (?st, s2) = Inl Undefined_Behaviour"
    using 3(1) 4 null eight
    by (simp add: peer_get_def codec_simps GetRFCMessage_get_number_def case_prod_beta GetRFCMessage_init_def
        send_with_size_def GetRFCResponse_message_size_def GetRFCResponse_new_def ulen_def)
  then have "peer_loop ops g h p (load32 (fresh_bytes g 4)) (?st, s1) = Some (Inl Undefined_Behaviour)"
    using 2(1) by (subst peer_loop.simps) (simp add: peer_message_def)
  with 1(1) show ?thesis by (simp add: peer_handler_def run_loop_def)
qed

end

end
