(* ===== verification/Client.thy ===== *)
theory Client
  imports Peer_Handler List_RFC_Response Lookup_RFC_Response
begin

text \<open>
  The client program (\<open>src/client.cpp\<close>): registering the local RFCs with the index, downloading from
  a peer, listing, and the command loop of \<open>main\<close>.  \<open>ops\<close> is the connection to the index, \<open>pops\<close> the
  class of the connections to peers, \<open>dial\<close> what constructing and connecting such a socket gives.  The
  state of the process is its file system and what is printed.  The listener that serves other peers
  is the subject of \<open>Listener\<close>; it only shares the file system.  What the program prints is a list with one
  entry for each line, without its end, and one for each prompt.
\<close>

section \<open>Registering\<close>

fun add_numbers ::
    "'s sock_ops \<Rightarrow> (nat \<Rightarrow> byte) \<Rightarrow> u32 list \<Rightarrow> peer_state \<times> 's \<Rightarrow> (bool \<times> peer_state \<times> 's) result" where
  "add_numbers ops g [] (st, s) = Inr (True, st, s)"
| "add_numbers ops g (it # its) (st, s) =
     (let tmp = htonl (P2SMessage_int P2S_ADD)
      in bnd (send_int ops tmp s) (\<lambda>s.
         let msg = AddRFCMessage_new it
         in bnd (AddRFCMessage_to_bytes g msg) (\<lambda>buf.
            bnd (send_ptr ops buf 4 s) (\<lambda>s.
            bnd (recv_bytes ops (fresh_bytes g 4) s) (\<lambda>(buf, s).
            bnd (AddRFCResponse_from_bytes buf AddRFCResponse_init) (\<lambda>res.
            if AddRFCResponse_get_code res \<noteq> 200
            then Inr (False, st\<lparr>pr_log := pr_log st @
                   [''Error when adding RFC'' @ dec_int (sint it) @ '' to CI'']\<rparr>, s)
            else add_numbers ops g its (st, s)))))))"

definition add_available_rfcs ::
    "'s sock_ops \<Rightarrow> (nat \<Rightarrow> byte) \<Rightarrow> peer_state \<times> 's \<Rightarrow> (bool \<times> peer_state \<times> 's) result" where
  "add_available_rfcs ops g = (\<lambda>(st, s).
     let (r, fs) = get_rfcs (pr_fs st); st = st\<lparr>pr_fs := fs\<rparr>
     in bnd r (\<lambda>rfcs. add_numbers ops g rfcs (st, s)))"

section \<open>Downloading\<close>

text \<open>
  \<open>GetRFCMessage(rfc_num)\<close> converts the \<open>int\<close> to a \<open>short\<close>; the port of the peer is converted to
  \<open>uint16_t\<close>.
\<close>

definition get_from_peer ::
    "'p sock_ops \<Rightarrow> (string \<Rightarrow> u16 \<Rightarrow> 'p result) \<Rightarrow> (nat \<Rightarrow> byte) \<Rightarrow> string \<Rightarrow> u32 \<Rightarrow> u32 \<Rightarrow> Client \<Rightarrow>
     peer_state \<Rightarrow> (bool \<times> peer_state \<times> 'p) result" where
  "get_from_peer pops dial g my_host my_port rfc_num client st =
     bnd (dial (host client) (ucast (port client))) (\<lambda>s.
     let st = st\<lparr>pr_log := pr_log st @ [''Connected to peer '' @ print_client (host client) (port client)]\<rparr>;
         tmp = htonl (ulen my_host)
     in bnd (send_int pops tmp s) (\<lambda>s.
        let tmp = ntohl tmp
        in bnd (send_ptr pops (Bytes (string_bytes my_host)) (size_of_int tmp) s) (\<lambda>s.
           let tmp = htonl my_port
           in bnd (send_int pops tmp s) (\<lambda>s.
              let tmp = htonl (P2PMessage_int P2P_GET)
              in bnd (send_int pops tmp s) (\<lambda>s.
                 let get_msg = GetRFCMessage_new (ucast rfc_num)
                 in bnd (GetRFCMessage_to_bytes g get_msg) (\<lambda>buf.
                    bnd (send_ptr pops buf (unat (GetRFCMessage_message_size get_msg)) s) (\<lambda>s.
                    bnd (recv_int pops tmp s) (\<lambda>(tmp, s).
                    let tmp = ntohl tmp
                    in bnd (new_array tmp) (\<lambda>n.
                       bnd (recv_bytes pops (fresh_bytes g n) s) (\<lambda>(buf, s).
                       bnd (GetRFCResponse_from_bytes buf GetRFCResponse_init) (\<lambda>get_res.
                       if GetRFCResponse_get_code get_res = 404
                       then Inr (False, st\<lparr>pr_log := pr_log st @
                              [''Peer returned 404 for RFC'' @ dec_int (sint rfc_num)]\<rparr>, vclose pops s)
                       else
                         let content = GetRFCResponse_get_content get_res;
                             (_, fs) = rm_add_rfc rfc_num content (pr_fs st);
                             st = \<lparr>pr_fs = fs, pr_log = pr_log st @
                               [''Download of RFC'' @ dec_int (sint rfc_num) @ '' complete'']\<rparr>;
                             tmp = htonl (P2PMessage_int P2P_DISCONNECT)
                         in bnd (send_int pops tmp s) (\<lambda>s. Inr (True, st, vclose pops s)))))))))))))"

fun has_number :: "u32 \<Rightarrow> u32 list \<Rightarrow> bool" where
  "has_number number [] = False"
| "has_number number (it # its) = (if number = it then True else has_number number its)"

definition check_if_rfc_stored :: "u32 \<Rightarrow> filesys \<Rightarrow> bool result \<times> filesys" where
  "check_if_rfc_stored number fs =
     (let (r, fs) = get_rfcs fs in (bnd r (\<lambda>l. Inr (has_number number l)), fs))"

text \<open>\<open>lookup_res.get_hosts().front()\<close> on an empty list is undefined.\<close>

definition list_front :: "'a list \<Rightarrow> 'a result" where
  "list_front l = (case l of [] \<Rightarrow> Inl Undefined_Behaviour | x # _ \<Rightarrow> Inr x)"

definition client_lookup ::
    "'s sock_ops \<Rightarrow> (nat \<Rightarrow> byte) \<Rightarrow> u32 \<Rightarrow> 's \<Rightarrow> (LookupRFCResponse \<times> 's) result" where
  "client_lookup ops g rfc_num s =
     (let tmp = htonl (P2SMessage_int P2S_LOOKUP)
      in bnd (send_int ops tmp s) (\<lambda>s.
         let lookup_msg = LookupRFCMessage_new rfc_num
         in bnd (LookupRFCMessage_to_bytes g lookup_msg) (\<lambda>buf.
            bnd (send_ptr ops buf (unat (LookupRFCMessage_message_size lookup_msg)) s) (\<lambda>s.
            bnd (recv_int ops tmp s) (\<lambda>(tmp, s).
            let tmp = ntohl tmp
            in bnd (new_array tmp) (\<lambda>n.
               bnd (recv_bytes ops (fresh_bytes g n) s) (\<lambda>(buf, s).
               bnd (LookupRFCResponse_from_bytes buf LookupRFCResponse_init) (\<lambda>lookup_res.
               Inr (lookup_res, s)))))))))"

definition client_notify ::
    "'s sock_ops \<Rightarrow> (nat \<Rightarrow> byte) \<Rightarrow> u32 \<Rightarrow> peer_state \<times> 's \<Rightarrow> (peer_state \<times> 's) result" where
  "client_notify ops g rfc_num = (\<lambda>(st, s).
     let tmp = htonl (P2SMessage_int P2S_ADD)
     in bnd (send_int ops tmp s) (\<lambda>s.
        let add_msg = AddRFCMessage_new rfc_num
        in bnd (AddRFCMessage_to_bytes g add_msg) (\<lambda>buf.
           bnd (send_ptr ops buf (unat (AddRFCMessage_message_size add_msg)) s) (\<lambda>s.
           bnd (recv_bytes ops (fresh_bytes g 4) s) (\<lambda>(buf, s).
           bnd (AddRFCResponse_from_bytes buf AddRFCResponse_init) (\<lambda>add_res.
           if AddRFCResponse_get_code add_res \<noteq> 200
           then Inr (st\<lparr>pr_log := pr_log st @ [''Error notifying index'']\<rparr>, s)
           else Inr (st, s)))))))"

definition client_get_rfc ::
    "'s sock_ops \<Rightarrow> 'p sock_ops \<Rightarrow> (string \<Rightarrow> u16 \<Rightarrow> 'p result) \<Rightarrow> (nat \<Rightarrow> byte) \<Rightarrow> u32 \<Rightarrow> string \<Rightarrow> u32 \<Rightarrow>
     peer_state \<times> 's \<Rightarrow> (peer_state \<times> 's) result" where
  "client_get_rfc ops pops dial g rfc_num my_host my_port = (\<lambda>(st, s).
     if sint rfc_num \<le> 0
     then Inr (st\<lparr>pr_log := pr_log st @ [''RFC number must be positive integer'']\<rparr>, s)
     else
       let (stored, fs) = check_if_rfc_stored rfc_num (pr_fs st); st = st\<lparr>pr_fs := fs\<rparr>
       in bnd stored (\<lambda>stored.
          if stored
          then Inr (st\<lparr>pr_log := pr_log st @ [''Already have RFC'' @ dec_int (sint rfc_num)]\<rparr>, s)
          else
            bnd (client_lookup ops g rfc_num s) (\<lambda>(lookup_res, s).
            if LookupRFCResponse_get_code lookup_res = 404
            then Inr (st\<lparr>pr_log := pr_log st @ [''No nodes with RFC'' @ dec_int (sint rfc_num)]\<rparr>, s)
            else
              bnd (list_front (LookupRFCResponse_get_hosts lookup_res)) (\<lambda>peer.
              bnd (get_from_peer pops dial g my_host my_port rfc_num peer st) (\<lambda>(got, st, _).
              if \<not> got then Inr (st, s) else client_notify ops g rfc_num (st, s))))))"

section \<open>Listing\<close>

definition rfc_list_line :: "string \<Rightarrow> u32 \<Rightarrow> RFCHolder \<Rightarrow> string" where
  "rfc_list_line hostname upload_port it =
     ''| '' @ setw_left 4 (dec_int (sint (rfc it))) @ '' | '' @ setw_left 15 (host (peer it)) @ '' | '' @
     setw_left 5 (dec_int (sint (port (peer it)))) @ '' |'' @
     (if host (peer it) = hostname \<and> port (peer it) = upload_port then '' (this node)'' else [])"

definition print_rfc_list :: "RFCHolder list \<Rightarrow> string \<Rightarrow> u32 \<Rightarrow> string list" where
  "print_rfc_list l hostname upload_port =
     ''| RFC  | Host            | Port  |'' # map (rfc_list_line hostname upload_port) l"

definition list_rfcs_remote ::
    "'s sock_ops \<Rightarrow> (nat \<Rightarrow> byte) \<Rightarrow> string \<Rightarrow> u32 \<Rightarrow> peer_state \<times> 's \<Rightarrow> (peer_state \<times> 's) result" where
  "list_rfcs_remote ops g hostname upload_port = (\<lambda>(st, s).
     let tmp = htonl (P2SMessage_int P2S_LIST)
     in bnd (send_int ops tmp s) (\<lambda>s.
        bnd (recv_int ops tmp s) (\<lambda>(tmp, s).
        let tmp = ntohl tmp
        in bnd (new_array tmp) (\<lambda>n.
           bnd (recv_bytes ops (fresh_bytes g n) s) (\<lambda>(buf, s).
           bnd (ListRFCResponse_from_bytes buf ListRFCResponse_init) (\<lambda>res.
           if ListRFCResponse_get_code res = 404
           then Inr (st\<lparr>pr_log := pr_log st @ [''No RFCs are in the index'']\<rparr>, s)
           else Inr (st\<lparr>pr_log := pr_log st @
                  print_rfc_list (ListRFCResponse_get_holders res) hostname upload_port\<rparr>, s)))))))"

definition list_rfcs_local :: "peer_state \<Rightarrow> peer_state result" where
  "list_rfcs_local st =
     (let (r, fs) = get_rfcs (pr_fs st); st = st\<lparr>pr_fs := fs\<rparr>
      in bnd r (\<lambda>rfcs.
         if length rfcs = 0 then Inr (st\<lparr>pr_log := pr_log st @ [''No RFCs stored locally'']\<rparr>)
         else Inr (st\<lparr>pr_log := pr_log st @ ''| RFC  |'' #
                map (\<lambda>it. ''| '' @ setw_left 4 (dec_int (sint it)) @ '' |'') rfcs\<rparr>)))"

definition client_disconnect :: "'s sock_ops \<Rightarrow> 's \<Rightarrow> 's result" where
  "client_disconnect ops s =
     (let tmp = htonl (P2SMessage_int P2S_DISCONNECT)
      in bnd (send_int ops tmp s) (\<lambda>s. Inr (vclose ops s)))"

section \<open>The command loop\<close>

text \<open>A full match of \<open>^get (\d+)$\<close>.\<close>

definition get_match :: "string \<Rightarrow> string option" where
  "get_match s =
     (let ds = drop 4 s
      in if take 4 s = ''get '' \<and> ds \<noteq> [] \<and> list_all is_digit ds then Some ds else None)"

definition cli_help :: "string list" where
  "cli_help =
     [''list              - display list of RFCs on index'',
      ''listl             - display list of local RFCs '',
      ''get <rfc number>  - get an RFC by number'',
      ''quit              - disconnect from index and quit the program'']"

definition run_command ::
    "'s sock_ops \<Rightarrow> 'p sock_ops \<Rightarrow> (string \<Rightarrow> u16 \<Rightarrow> 'p result) \<Rightarrow> (nat \<Rightarrow> byte) \<Rightarrow> string \<Rightarrow> u32 \<Rightarrow> string \<Rightarrow>
     peer_state \<times> 's \<Rightarrow> (peer_state \<times> 's) result" where
  "run_command ops pops dial g address prt input = (\<lambda>(st, s).
     case get_match (c_string input) of
       Some ds \<Rightarrow> bnd (stoi ds) (\<lambda>rfc_num. client_get_rfc ops pops dial g rfc_num address prt (st, s))
     | None \<Rightarrow>
         if input = ''list'' then list_rfcs_remote ops g address prt (st, s)
         else if input = ''listl'' then bnd (list_rfcs_local st) (\<lambda>st. Inr (st, s))
         else if input = ''help'' then Inr (st\<lparr>pr_log := pr_log st @ cli_help\<rparr>, s)
         else if input \<noteq> ''quit'' then Inr (st\<lparr>pr_log := pr_log st @ [''Invalid command'']\<rparr>, s)
         else Inr (st, s))"

text \<open>The prompt starts a new line and does not end it.\<close>

definition prompted :: "peer_state \<Rightarrow> peer_state" where
  "prompted st = st\<lparr>pr_log := pr_log st @ [CHR 0x0A # ''> '']\<rparr>"

text \<open>
  The lines still to be read, each ended by a newline; at the end of the input \<open>std::getline\<close> leaves
  an empty string.  A command connects to a peer at most once; \<open>dial k\<close> is what connecting gives when \<open>k\<close> lines
  are left to be read after the command, so no two connections of a session have to go alike.
\<close>

partial_function (option) command_loop ::
    "'s sock_ops \<Rightarrow> 'p sock_ops \<Rightarrow> (nat \<Rightarrow> string \<Rightarrow> u16 \<Rightarrow> 'p result) \<Rightarrow> (nat \<Rightarrow> byte) \<Rightarrow> string \<Rightarrow> u32 \<Rightarrow> string list \<Rightarrow>
     peer_state \<times> 's \<Rightarrow> (peer_state \<times> 's) result option" where
  "command_loop ops pops dial g address prt lines sts =
     (let sts = (prompted (fst sts), snd sts);
          input = (case lines of [] \<Rightarrow> [] | l # _ \<Rightarrow> l); lines = (case lines of [] \<Rightarrow> [] | _ # ls \<Rightarrow> ls)
      in case run_command ops pops (dial (length lines)) g address prt input sts of
          Inl e \<Rightarrow> Some (Inl e)
        | Inr sts \<Rightarrow>
            if input \<noteq> ''quit'' then command_loop ops pops dial g address prt lines sts
            else Some (Inr sts))"

section \<open>The session with the index\<close>

text \<open>From the connection to the index on; the result is the exit code.\<close>

definition client_session ::
    "'s sock_ops \<Rightarrow> 'p sock_ops \<Rightarrow> (nat \<Rightarrow> string \<Rightarrow> u16 \<Rightarrow> 'p result) \<Rightarrow> (nat \<Rightarrow> byte) \<Rightarrow> string \<Rightarrow> u32 \<Rightarrow> string list \<Rightarrow>
     peer_state \<times> 's \<Rightarrow> (int \<times> peer_state \<times> 's) result" where
  "client_session ops pops dial g address prt lines = (\<lambda>(st, s).
     let client_version = htonl PROTOCOL_VERSION
     in bnd (send_int ops client_version s) (\<lambda>s.
        let client_version = ntohl client_version
        in bnd (recv_int ops (load32 (fresh_bytes g 4)) s) (\<lambda>(server_version, s).
           let server_version = ntohl server_version
           in if server_version \<noteq> client_version
              then Inr (1, st\<lparr>pr_log := pr_log st @
                     [''Tried connecting, but server uses unsupported protocol version'']\<rparr>, s)
              else
                let host_len = htonl (ulen address)
                in bnd (send_int ops host_len s) (\<lambda>s.
                   let host_len = ntohl host_len
                   in bnd (send_ptr ops (Bytes (string_bytes address)) (size_of_int host_len) s) (\<lambda>s.
                      let tmp = htonl prt
                      in bnd (send_int ops tmp s) (\<lambda>s.
                         bnd (add_available_rfcs ops g (st, s)) (\<lambda>(_, st, s).
                         bnd (run_loop (command_loop ops pops dial g address prt lines (st, s))) (\<lambda>(st, s).
                         bnd (client_disconnect ops s) (\<lambda>s. Inr (0, st, s))))))))))"

end
