(* ===== verification/Client_Sessions.thy ===== *)
theory Client_Sessions
  imports Client Server
begin

text \<open>
  The client's exchanges in the contract of sockets: what it sends, and what it makes of well-formed
  answers.
\<close>

section \<open>Numbers\<close>

lemma scast_ucast_short:
  assumes "0 \<le> sint (n :: u32)" "sint n < 2 ^ 15"
  shows "(scast (ucast n :: u16) :: u32) = n" "sint (ucast n :: u16) = sint n"
proof -
  define k where "k = nat (sint n)"
  have k: "k < 2 ^ 15" "int k = sint n" using assms by (simp_all add: k_def)
  have "sint n = sint (of_nat k :: u32)" using k sint_nonneg_small [of k] by simp
  then have n: "n = of_nat k" by (rule signed_word_eqI)
  have "(ucast n :: u16) = of_nat k"
    using k(1) by (simp add: n unsigned_of_nat take_bit_nat_eq_self)
  moreover have "sint (of_nat k :: u16) = int k"
    using k(1) by (simp add: signed_of_nat signed_take_bit_int_eq_self)
  ultimately show s: "sint (ucast n :: u16) = sint n" using k(2) by simp
  have "(scast (ucast n :: u16) :: u32) = word_of_int (sint (ucast n :: u16))" by simp
  then show "(scast (ucast n :: u16) :: u32) = n" using s by simp
qed

text \<open>
  The number a peer is asked for when the user wants \<open>n\<close>: \<open>get_from_peer\<close> gives the \<open>int\<close> to a
  \<open>GetRFCMessage\<close>, whose number is a \<open>short\<close>, and the handler of the peer widens it again.
\<close>

definition asked :: "u32 \<Rightarrow> u32" where
  "asked n = scast (ucast n :: u16)"

lemma asked_small [simp]: "0 \<le> sint n \<Longrightarrow> sint n < 2 ^ 15 \<Longrightarrow> asked n = n"
  by (simp only: asked_def scast_ucast_short(1))

lemma sint_asked: "sint (asked n) = sint (ucast n :: u16)"
  unfolding asked_def by (rule sint_up_scast) (simp add: is_up)

lemma asked_less: "sint (asked n) < 2 ^ 15"
  using sint_less [of "ucast n :: u16"] by (simp add: sint_asked)

lemma asked_asked: "0 \<le> sint (asked n) \<Longrightarrow> asked (asked n) = asked n"
  using asked_less [of n] by simp

section \<open>Adding\<close>

lemma answers_adds:
  assumes "c = \<lparr>host = h, port = p\<rparr>" "c \<in> connected (abs_index ci)" "distinct ns"
    and "\<forall>n \<in> set ns. (n, c) \<notin> holds (abs_index ci)"
  shows "fst (answers g h p (map Ask_add ns) ci) = map (\<lambda>_. wire32 200) ns \<and>
    connected (abs_index (snd (answers g h p (map Ask_add ns) ci))) = connected (abs_index ci) \<and>
    holds (abs_index (snd (answers g h p (map Ask_add ns) ci))) =
      holds (abs_index ci) \<union> (\<lambda>n. (n, c)) ` set ns"
  using assms(2-)
proof (induction ns arbitrary: ci)
  case Nil
  then show ?case by simp
next
  case (Cons n ns)
  let ?ci = "snd (add_rfc h p n ci)"
  have added: "fst (add_rfc h p n ci)" using Cons.prems assms(1) by (simp add: add_rfc_result)
  have abs: "abs_index ?ci = (abs_index ci)\<lparr>holds := insert (n, c) (holds (abs_index ci))\<rparr>"
    using Cons.prems(1) assms(1) by (simp add: abs_index_add_rfc abs_offer_def)
  have "c \<in> connected (abs_index ?ci)" "distinct ns" "\<forall>m \<in> set ns. (m, c) \<notin> holds (abs_index ?ci)"
    using Cons.prems abs by auto
  from Cons.IH [OF this] show ?case using added abs by (auto simp: case_prod_beta)
qed

lemma all_sendable_adds: "all_sendable g h p (map Ask_add ns) ci"
  by (induction ns arbitrary: ci) simp_all

lemma AddRFCMessage_bytes: "0 < sint n \<Longrightarrow> AddRFCMessage_to_bytes g (AddRFCMessage_new n) = Inr (Bytes (wire32 n))"
  by (simp add: codec_simps AddRFCMessage_is_valid_def AddRFCMessage_new_def)

section \<open>The directory before a download\<close>

lemma has_number_iff: "has_number n ns \<longleftrightarrow> n \<in> set ns"
  by (induction ns) auto

lemma get_rfcs_keeps: "fst (get_rfcs fs) = Inr ns \<Longrightarrow> snd (get_rfcs fs) = fs"
  by (auto simp: get_rfcs_def split: node.splits if_splits sum.splits)

lemma not_stored:
  assumes "fst (get_rfcs fs) = Inr ns" "n \<notin> set ns"
  shows "check_if_rfc_stored n fs = (Inr False, fs)"
  using assms get_rfcs_keeps [OF assms(1)]
  by (simp add: check_if_rfc_stored_def case_prod_beta Let_def has_number_iff)

text \<open>The command \<open>get\<close> with the digits of a number.\<close>

lemma run_command_number:
  assumes "0 \<le> sint n"
  shows "run_command ops pops dial g a prt (''get '' @ dec_int (sint n)) (st, s) =
    client_get_rfc ops pops dial g n a prt (st, s)"
proof -
  let ?ds = "dec_nat (nat (sint n))"
  have int: "dec_int (sint n) = ?ds" using assms by (simp add: dec_int_def)
  have dig: "\<forall>c \<in> set ?ds. is_digit c" using dec_nat_digits by blast
  then have "nul \<notin> set (''get '' @ ?ds)" using nat_digit_bounds by (force simp: nul_def)
  then have "c_string (''get '' @ ?ds) = ''get '' @ ?ds" by (rule c_string_id)
  moreover have "get_match (''get '' @ ?ds) = Some ?ds"
    using dig by (simp add: get_match_def list_all_iff)
  moreover have "stoi ?ds = Inr n"
    using stoi_dec_nat [of "nat (sint n)"] sint_less [of n] assms by simp
  ultimately show ?thesis by (simp add: run_command_def int)
qed

lemma run_command_get:
  assumes "0 < sint n"
  shows "run_command ops pops dial g a prt (''get '' @ dec_int (sint n)) (st, s) =
    client_get_rfc ops pops dial g n a prt (st, s)"
  using assms by (intro run_command_number) simp

text \<open>What the client prints and stores when it has asked \<open>d\<close> for \<open>n\<close> and the answer is \<open>t\<close>.\<close>

definition fetched :: "u32 \<Rightarrow> Client \<Rightarrow> string option \<Rightarrow> peer_state \<Rightarrow> peer_state" where
  "fetched n d t st =
     (let log = pr_log st @ [''Connected to peer '' @ print_client (host d) (port d)]
      in case t of
          None \<Rightarrow> st\<lparr>pr_log := log @ [''Peer returned 404 for RFC'' @ dec_int (sint n)]\<rparr>
        | Some body \<Rightarrow> \<lparr>pr_fs = snd (rm_add_rfc n body (pr_fs st)),
            pr_log = log @ [''Download of RFC'' @ dec_int (sint n) @ '' complete'']\<rparr>)"

lemma pr_fs_fetched [simp]:
  "pr_fs (fetched n d None st) = pr_fs st" "pr_fs (fetched n d (Some body) st) = snd (rm_add_rfc n body (pr_fs st))"
  by (simp_all add: fetched_def)

text \<open>The index may refuse the ADD; the client says so and goes on.\<close>

definition notified :: "bool \<Rightarrow> peer_state \<Rightarrow> peer_state" where
  "notified ok st = (if ok then st else st\<lparr>pr_log := pr_log st @ [''Error notifying index'']\<rparr>)"

context frame_socket
begin

text \<open>One ADD and its answer; the rest is sent only after a 200.\<close>

lemma add_numbers_step:
  assumes "conn s (wire32 code # ins) outs" "0 < sint n"
  shows "\<exists>s'. conn s' ins (outs @ request_blocks (Ask_add n)) \<and>
    add_numbers ops g (n # ns) (st, s) =
      (if code = 200 then add_numbers ops g ns (st, s')
       else Inr (False, st\<lparr>pr_log := pr_log st @ [''Error when adding RFC'' @ dec_int (sint n) @ '' to CI'']\<rparr>, s'))"
proof -
  obtain s1 where s1: "send_int ops (htonl 1) s = Inr s1" "conn s1 (wire32 code # ins) (outs @ [wire32 1])"
    using send_int_conn [OF assms(1)] by blast
  obtain s2 where s2: "send_bytes ops (wire32 n) s1 = Inr s2"
      "conn s2 (wire32 code # ins) (outs @ [wire32 1, wire32 n])"
    using send_bytes_conn [OF s1(2), of "wire32 n"] by auto
  obtain s3 where s3: "recv_bytes ops (fresh_bytes g 4) s2 = Inr (wire32 code, s3)"
      "conn s3 ins (outs @ [wire32 1, wire32 n])"
    using recv_bytes_conn [OF s2(2), of "fresh_bytes g 4"] by auto
  show ?thesis
    using s1(1) s2(1) s3 AddRFCMessage_bytes [OF assms(2)]
    by (intro exI [of _ s3]) (simp add: codec_simps AddRFCResponse_get_code_def AddRFCResponse_init_def)
qed

lemma add_numbers_conn:
  assumes "conn s (map (\<lambda>_. wire32 200) ns @ ins) outs" "\<forall>n \<in> set ns. 0 < sint n"
  shows "\<exists>s'. add_numbers ops g ns (st, s) = Inr (True, st, s') \<and>
    conn s' ins (outs @ concat (map request_blocks (map Ask_add ns)))"
  using assms
proof (induction ns arbitrary: s outs)
  case Nil
  then show ?case by auto
next
  case (Cons n ns)
  then have "conn s (wire32 200 # (map (\<lambda>_. wire32 200) ns @ ins)) outs" "0 < sint n" by simp_all
  from add_numbers_step [OF this, of g ns st]
  obtain s1 where 1: "conn s1 (map (\<lambda>_. wire32 200) ns @ ins) (outs @ request_blocks (Ask_add n))"
      "add_numbers ops g (n # ns) (st, s) = add_numbers ops g ns (st, s1)" by auto
  from Cons.IH [OF 1(1)] Cons.prems(2) 1(2) show ?case by auto
qed

lemma add_numbers_refused:
  assumes "conn s (map (\<lambda>_. wire32 200) ns @ wire32 400 # ins) outs" "\<forall>m \<in> set (ns @ [n]). 0 < sint m"
  shows "\<exists>st' s'. add_numbers ops g (ns @ n # ms) (st, s) = Inr (False, st', s') \<and>
    conn s' ins (outs @ concat (map request_blocks (map Ask_add (ns @ [n]))))"
  using assms
proof (induction ns arbitrary: s outs)
  case Nil
  then show ?case using add_numbers_step [of s 400 ins outs n g ms st] by auto
next
  case (Cons m ns)
  then have "conn s (wire32 200 # (map (\<lambda>_. wire32 200) ns @ wire32 400 # ins)) outs" "0 < sint m" by simp_all
  from add_numbers_step [OF this, of g "ns @ n # ms" st]
  obtain s1 where 1: "conn s1 (map (\<lambda>_. wire32 200) ns @ wire32 400 # ins) (outs @ request_blocks (Ask_add m))"
      "add_numbers ops g (m # ns @ n # ms) (st, s) = add_numbers ops g (ns @ n # ms) (st, s1)" by auto
  from Cons.IH [OF 1(1)] Cons.prems(2) 1(2) show ?case by auto
qed

lemma add_numbers_zero:
  assumes "conn s ins outs" "sint n \<le> 0"
  shows "add_numbers ops g (n # ns) (st, s) = Inl Undefined_Behaviour"
proof -
  obtain s1 where "send_int ops (htonl 1) s = Inr s1" using send_int_conn [OF assms(1)] by blast
  moreover have "AddRFCMessage_to_bytes g (AddRFCMessage_new n) = Inr Null"
    using assms(2) by (simp add: codec_simps AddRFCMessage_is_valid_def AddRFCMessage_new_def)
  ultimately show ?thesis by simp
qed

section \<open>Answers with their size in front\<close>

lemma recv_sized_conn:
  assumes "conn s (wire32 (ulen w) # w # ins) outs" "length w + 1 < 2 ^ 31"
  shows "\<exists>s1 s2. recv_int ops old s = Inr (htonl (ulen w), s1) \<and> new_array (ulen w) = Inr (length w) \<and>
    recv_bytes ops (fresh_bytes g (length w)) s1 = Inr (w, s2) \<and> conn s2 ins outs"
proof -
  obtain s1 where s1: "recv_int ops old s = Inr (htonl (ulen w), s1)" "conn s1 (w # ins) outs"
    using recv_int_conn [OF assms(1)] by blast
  obtain s2 where "recv_bytes ops (fresh_bytes g (length w)) s1 = Inr (w, s2)" "conn s2 ins outs"
    using recv_bytes_conn [OF s1(2), of "fresh_bytes g (length w)"] assms(2) by auto
  moreover have "new_array (ulen w) = Inr (length w)"
    using length_steps(1) [OF assms(2)] by (simp add: new_array_def)
  ultimately show ?thesis using s1(1) by blast
qed

section \<open>Downloading\<close>

text \<open>The client asks a peer for the number as a \<open>short\<close>.\<close>

lemma get_from_peer_start:
  assumes "conn s0 ins []" "length my_host + 1 < 2 ^ 31"
    and "dial (host c) (ucast (port c)) = Inr s0" "0 < sint (ucast n :: u16)"
  shows "\<exists>s1 s2 s3 s4 s5. send_int ops (htonl (ulen my_host)) s0 = Inr s1 \<and>
    send_ptr ops (Bytes (string_bytes my_host)) (length my_host) s1 = Inr s2 \<and>
    send_int ops (htonl my_port) s2 = Inr s3 \<and> send_int ops (htonl 1) s3 = Inr s4 \<and>
    send_ptr ops (Bytes (wire16 (ucast n))) 2 s4 = Inr s5 \<and>
    conn s5 ins (identity_blocks my_host my_port @ [wire32 1, wire16 (ucast n)])"
proof -
  obtain s1 where s1: "send_int ops (htonl (ulen my_host)) s0 = Inr s1" "conn s1 ins [wire32 (ulen my_host)]"
    using send_int_conn [OF assms(1)] by fastforce
  have "length (string_bytes my_host) < 2 ^ 64" using assms(2) by simp
  from send_bytes_conn [OF s1(2) this]
  obtain s2 where s2: "send_bytes ops (string_bytes my_host) s1 = Inr s2"
      "conn s2 ins [wire32 (ulen my_host), string_bytes my_host]" by auto
  obtain s3 where s3: "send_int ops (htonl my_port) s2 = Inr s3" "conn s3 ins (identity_blocks my_host my_port)"
    using send_int_conn [OF s2(2), of my_port] by (auto simp: identity_blocks_def)
  obtain s4 where s4: "send_int ops (htonl 1) s3 = Inr s4"
      "conn s4 ins (identity_blocks my_host my_port @ [wire32 1])"
    using send_int_conn [OF s3(2)] by blast
  obtain s5 where s5: "send_bytes ops (wire16 (ucast n)) s4 = Inr s5"
      "conn s5 ins (identity_blocks my_host my_port @ [wire32 1, wire16 (ucast n)])"
    using send_bytes_conn [OF s4(2), of "wire16 (ucast n)"] by auto
  show ?thesis using s1 s2 s3 s4 s5 by (intro exI conjI) (auto simp: send_ptr_def)
qed

text \<open>
  A download, after the answer \<open>t\<close> of the peer: a text is stored and acknowledged with DISCONNECT; on 404
  the client closes the connection and sends nothing more.
\<close>

lemma get_from_peer_fetches:
  assumes "conn s0 (wire32 (ulen w) # w # ins) []" "length my_host + 1 < 2 ^ 31"
    and "dial (host c) (ucast (port c)) = Inr s0" "0 < sint (ucast n :: u16)"
    and "w = get_wire g' t" "servable_text t" "\<forall>body. t = Some body \<longrightarrow> nul \<notin> set body"
  shows "\<exists>s'. get_from_peer ops dial g my_host my_port n c st = Inr (t \<noteq> None, fetched n c t st, vclose ops s') \<and>
    conn s' ins (identity_blocks my_host my_port @ [wire32 1, wire16 (ucast n)] @ (if t = None then [] else [wire32 2]))"
proof -
  from get_from_peer_start [where n = n and dial = dial and c = c, OF assms(1-4), of my_port]
  obtain s1 s2 s3 s4 s5 where 1: "send_int ops (htonl (ulen my_host)) s0 = Inr s1"
      "send_ptr ops (Bytes (string_bytes my_host)) (length my_host) s1 = Inr s2"
      "send_int ops (htonl my_port) s2 = Inr s3" "send_int ops (htonl 1) s3 = Inr s4"
      "send_ptr ops (Bytes (wire16 (ucast n))) 2 s4 = Inr s5"
      "conn s5 (wire32 (ulen w) # w # ins) (identity_blocks my_host my_port @ [wire32 1, wire16 (ucast n)])" by blast
  have len: "length w + 1 < 2 ^ 31" using get_answer_bytes(3) [OF assms(6), of g'] assms(5) by simp
  from recv_sized_conn [OF 1(6) len, of "htonl 1" g]
  obtain s6 s7 where 2: "recv_int ops (htonl 1) s5 = Inr (htonl (ulen w), s6)" "new_array (ulen w) = Inr (length w)"
      "recv_bytes ops (fresh_bytes g (length w)) s6 = Inr (w, s7)"
      "conn s7 ins (identity_blocks my_host my_port @ [wire32 1, wire16 (ucast n)])" by blast
  obtain s8 where 3: "send_int ops (htonl 2) s7 = Inr s8"
      "conn s8 ins (identity_blocks my_host my_port @ [wire32 1, wire16 (ucast n), wire32 2])"
    using send_int_conn [OF 2(4), of 2] by auto
  have enc: "GetRFCMessage_to_bytes g (GetRFCMessage_new (ucast n)) = Inr (Bytes (wire16 (ucast n)))"
    using assms(4) by (simp add: codec_simps GetRFCMessage_is_valid_def GetRFCMessage_new_def)
  note run = assms(3) 1 2 enc length_steps(2) [OF assms(2)]
  show ?thesis
  proof (cases t)
    case None
    then have "GetRFCResponse_from_bytes w GetRFCResponse_init = Inr (GetRFCResponse_init\<lparr>gr_code := 404\<rparr>)"
      using assms(5) GetRFCResponse_from_bytes_error [of 404 "map g' [4..<8]"] by (simp add: get_wire_def)
    with run None show ?thesis
      by (intro exI [of _ s7]) (simp add: get_from_peer_def GetRFCMessage_message_size_def fetched_def
          GetRFCResponse_get_code_def GetRFCResponse_init_def cong: if_cong)
  next
    case (Some body)
    then have "GetRFCResponse_from_bytes w GetRFCResponse_init = Inr \<lparr>gr_code = 200, gr_content = body\<rparr>"
      using GetRFCResponse_from_bytes_200 [of body "[]" GetRFCResponse_init] assms(5-7)
      by (simp add: get_wire_def servable_text_def c_string_id GetRFCResponse_init_def)
    with run 3 Some show ?thesis
      by (intro exI [of _ s8]) (simp add: get_from_peer_def GetRFCMessage_message_size_def fetched_def
          GetRFCResponse_get_code_def GetRFCResponse_get_content_def case_prod_beta cong: if_cong)
  qed
qed

lemma get_from_peer_found:
  assumes "conn s0 (wire32 (ulen w) # w # ins) []" "length my_host + 1 < 2 ^ 31"
    and "dial (host c) (ucast (port c)) = Inr s0" "0 < sint (ucast n :: u16)"
    and "w = get_wire g' (Some body)" "servable_text (Some body)" "nul \<notin> set body"
  shows "\<exists>st' s'. get_from_peer ops dial g my_host my_port n c st = Inr (True, st', vclose ops s') \<and>
    pr_fs st' = snd (rm_add_rfc n body (pr_fs st)) \<and>
    conn s' ins (identity_blocks my_host my_port @ [wire32 1, wire16 (ucast n), wire32 2])"
  using get_from_peer_fetches [where dial = dial and c = c and n = n, OF assms(1-6), of g my_port st] assms(7) by auto

lemma get_from_peer_missing:
  assumes "conn s0 (wire32 (ulen w) # w # ins) []" "length my_host + 1 < 2 ^ 31"
    and "dial (host c) (ucast (port c)) = Inr s0" "0 < sint (ucast n :: u16)" "w = get_wire g' None"
  shows "\<exists>st' s'. get_from_peer ops dial g my_host my_port n c st = Inr (False, st', vclose ops s') \<and>
    pr_fs st' = pr_fs st \<and> conn s' ins (identity_blocks my_host my_port @ [wire32 1, wire16 (ucast n)])"
  using get_from_peer_fetches [where dial = dial and c = c and n = n, OF assms, of g my_port st]
  by (auto simp: servable_text_def)

lemma get_from_peer_invalid:
  assumes "conn s0 ins []" "length my_host + 1 < 2 ^ 31"
    and "dial (host c) (ucast (port c)) = Inr s0" "sint (ucast n :: u16) \<le> 0"
  shows "get_from_peer ops dial g my_host my_port n c st = Inl Undefined_Behaviour"
proof -
  have one: "0 < sint (ucast (1 :: u32) :: u16)" by simp
  from get_from_peer_start [where n = 1 and dial = dial and c = c, OF assms(1-3) one, of my_port]
  obtain s1 s2 s3 s4 where 1: "send_int ops (htonl (ulen my_host)) s0 = Inr s1"
      "send_ptr ops (Bytes (string_bytes my_host)) (length my_host) s1 = Inr s2"
      "send_int ops (htonl my_port) s2 = Inr s3" "send_int ops (htonl 1) s3 = Inr s4" by blast
  have "GetRFCMessage_to_bytes g (GetRFCMessage_new (ucast n)) = Inr Null"
    using assms(4) by (simp add: codec_simps GetRFCMessage_is_valid_def GetRFCMessage_new_def)
  then show ?thesis
    using assms(3) 1 length_steps(2) [OF assms(2)]
    by (simp add: get_from_peer_def GetRFCMessage_message_size_def)
qed

section \<open>Getting an RFC\<close>

lemma client_lookup_conn:
  assumes "conn s (wire32 (ulen w) # w # ins) outs" "0 < sint n" "w = lookup_wire g' cs"
    and "hosts_ok cs" "length (clients_wire cs) + 9 < 2 ^ 31" "\<forall>d \<in> set cs. nul \<notin> set (host d)"
  shows "\<exists>s'. client_lookup ops g n s =
      Inr (\<lparr>kr_code = if cs = [] then 404 else 200, kr_hosts = cs\<rparr>, s') \<and>
    conn s' ins (outs @ request_blocks (Ask_lookup n))"
proof -
  obtain s1 where 1: "send_int ops (htonl 3) s = Inr s1" "conn s1 (wire32 (ulen w) # w # ins) (outs @ [wire32 3])"
    using send_int_conn [OF assms(1)] by blast
  obtain s2 where 2: "send_bytes ops (wire32 n) s1 = Inr s2"
      "conn s2 (wire32 (ulen w) # w # ins) (outs @ [wire32 3, wire32 n])"
    using send_bytes_conn [OF 1(2), of "wire32 n"] by auto
  have len: "length w + 1 < 2 ^ 31" using lookup_answer_bytes(3) [OF assms(4,5) refl, of g'] assms(3) by simp
  from recv_sized_conn [OF 2(2) len, of "htonl 3" g]
  obtain s3 s4 where 3: "recv_int ops (htonl 3) s2 = Inr (htonl (ulen w), s3)" "new_array (ulen w) = Inr (length w)"
      "recv_bytes ops (fresh_bytes g (length w)) s3 = Inr (w, s4)"
      "conn s4 ins (outs @ [wire32 3, wire32 n])" by blast
  have "LookupRFCResponse_from_bytes w LookupRFCResponse_init =
      Inr \<lparr>kr_code = if cs = [] then 404 else 200, kr_hosts = cs\<rparr>"
    using assms(3-6) LookupRFCResponse_from_bytes_200 [of cs "[]" LookupRFCResponse_init]
    by (simp add: lookup_wire_def LookupRFCResponse_from_bytes_error LookupRFCResponse_init_def
        client_representable_def)
  moreover have "LookupRFCMessage_to_bytes g (LookupRFCMessage_new n) = Inr (Bytes (wire32 n))"
    using assms(2) by (simp add: codec_simps LookupRFCMessage_is_valid_def LookupRFCMessage_new_def)
  ultimately show ?thesis
    using 1(1) 2(1) 3 by (intro exI [of _ s4])
      (simp add: client_lookup_def LookupRFCMessage_message_size_def)
qed

lemma client_notify_answered:
  assumes "conn s (wire32 code # ins) outs" "0 < sint n"
  shows "\<exists>s'. client_notify ops g n (st, s) = Inr (notified (code = 200) st, s') \<and>
    conn s' ins (outs @ request_blocks (Ask_add n))"
proof -
  obtain s1 where s1: "send_int ops (htonl 1) s = Inr s1" "conn s1 (wire32 code # ins) (outs @ [wire32 1])"
    using send_int_conn [OF assms(1)] by blast
  obtain s2 where s2: "send_bytes ops (wire32 n) s1 = Inr s2"
      "conn s2 (wire32 code # ins) (outs @ [wire32 1, wire32 n])"
    using send_bytes_conn [OF s1(2), of "wire32 n"] by auto
  obtain s3 where s3: "recv_bytes ops (fresh_bytes g 4) s2 = Inr (wire32 code, s3)"
      "conn s3 ins (outs @ [wire32 1, wire32 n])"
    using recv_bytes_conn [OF s2(2), of "fresh_bytes g 4"] by auto
  show ?thesis
    using s1(1) s2(1) s3 AddRFCMessage_bytes [OF assms(2)]
    by (intro exI [of _ s3])
      (simp add: client_notify_def codec_simps AddRFCMessage_message_size_def notified_def
        AddRFCResponse_get_code_def AddRFCResponse_init_def)
qed

lemma client_notify_conn:
  assumes "conn s (wire32 200 # ins) outs" "0 < sint n"
  shows "\<exists>s'. client_notify ops g n (st, s) = Inr (st, s') \<and> conn s' ins (outs @ request_blocks (Ask_add n))"
  using client_notify_answered [OF assms, of g st] by (simp add: notified_def)

text \<open>A command \<open>get\<close> for a number that is not in the directory, up to the answer of the index.\<close>

lemma client_get_rfc_after_lookup:
  assumes "conn s (wire32 (ulen w) # w # ins) outs" "fst (get_rfcs (pr_fs st)) = Inr ns"
    and "0 < sint n" "n \<notin> set ns" "w = lookup_wire g' cs" "hosts_ok cs"
    and "length (clients_wire cs) + 9 < 2 ^ 31" "\<forall>d \<in> set cs. nul \<notin> set (host d)"
  shows "\<exists>s'. conn s' ins (outs @ request_blocks (Ask_lookup n)) \<and>
    client_get_rfc ops pops dial g n h p (st, s) =
      (case cs of
         [] \<Rightarrow> Inr (st\<lparr>pr_log := pr_log st @ [''No nodes with RFC'' @ dec_int (sint n)]\<rparr>, s')
       | c # _ \<Rightarrow> bnd (get_from_peer pops dial g h p n c st)
           (\<lambda>(got, st, _). if \<not> got then Inr (st, s') else client_notify ops g n (st, s')))"
proof -
  from client_lookup_conn [OF assms(1,3,5-8), of g]
  obtain s1 where 1: "client_lookup ops g n s = Inr (\<lparr>kr_code = if cs = [] then 404 else 200, kr_hosts = cs\<rparr>, s1)"
      "conn s1 ins (outs @ request_blocks (Ask_lookup n))" by blast
  then show ?thesis
    using assms(3) not_stored [OF assms(2,4)] by (intro exI [of _ s1]) (auto simp: client_get_rfc_def list_front_def
        LookupRFCResponse_get_code_def LookupRFCResponse_get_hosts_def split: list.splits)
qed

lemma client_get_rfc_conn:
  assumes "conn s [wire32 (ulen w), w, wire32 200] outs" "fst (get_rfcs (pr_fs st)) = Inr ns"
    and "0 < sint n" "n \<notin> set ns" "w = lookup_wire g' (c # cs)" "hosts_ok (c # cs)"
    and "length (clients_wire (c # cs)) + 9 < 2 ^ 31" "\<forall>d \<in> set (c # cs). nul \<notin> set (host d)"
    and "get_from_peer pops dial g h p n c st = Inr (True, st', sp)"
  shows "\<exists>s'. client_get_rfc ops pops dial g n h p (st, s) = Inr (st', s') \<and>
    conn s' [] (outs @ request_blocks (Ask_lookup n) @ request_blocks (Ask_add n))"
proof -
  from client_get_rfc_after_lookup [where dial = dial and pops = pops and g = g and h = h and p = p, OF assms(1-8)]
  obtain s1 where 1: "client_get_rfc ops pops dial g n h p (st, s) = client_notify ops g n (st', s1)"
      "conn s1 [wire32 200] (outs @ request_blocks (Ask_lookup n))" using assms(9) by auto
  from client_notify_conn [OF 1(2) assms(3), of g st'] 1(1) show ?thesis by auto
qed

section \<open>Listing\<close>

lemma list_rfcs_remote_conn:
  assumes "conn s (fst (answer g' h' p' Ask_list ci) @ ins) outs" "sendable ci"
    and "\<forall>r \<in> set (rfcs ci). nul \<notin> set (host (peer r))"
  shows "\<exists>s'. list_rfcs_remote ops g h p (st, s) =
      Inr (st\<lparr>pr_log := pr_log st @
        (if rfcs ci = [] then [''No RFCs are in the index''] else print_rfc_list (rfcs ci) h p)\<rparr>, s') \<and>
    conn s' ins (outs @ [wire32 2])"
proof -
  let ?w = "list_wire g' (rfcs ci)"
  from assms(1) have c: "conn s (wire32 (ulen ?w) # ?w # ins) outs" by simp
  obtain s1 where 1: "send_int ops (htonl 2) s = Inr s1" "conn s1 (wire32 (ulen ?w) # ?w # ins) (outs @ [wire32 2])"
    using send_int_conn [OF c] by blast
  have len: "length ?w + 1 < 2 ^ 31" using list_answer_bytes(3) [OF assms(2) refl] .
  from recv_sized_conn [OF 1(2) len, of "htonl 2" g]
  obtain s2 s3 where 2: "recv_int ops (htonl 2) s1 = Inr (htonl (ulen ?w), s2)" "new_array (ulen ?w) = Inr (length ?w)"
      "recv_bytes ops (fresh_bytes g (length ?w)) s2 = Inr (?w, s3)" "conn s3 ins (outs @ [wire32 2])" by blast
  have "ListRFCResponse_from_bytes ?w ListRFCResponse_init =
      Inr \<lparr>lr_code = if rfcs ci = [] then 404 else 200, lr_holders = rfcs ci\<rparr>"
    using assms(2,3) ListRFCResponse_from_bytes_200 [of "rfcs ci" "[]" ListRFCResponse_init]
    by (simp add: list_wire_def ListRFCResponse_from_bytes_error ListRFCResponse_init_def sendable_def
        holder_representable_def)
  then show ?thesis
    using 1(1) 2 by (intro exI [of _ s3])
      (simp add: list_rfcs_remote_def ListRFCResponse_get_code_def ListRFCResponse_get_holders_def)
qed

section \<open>The session with the index\<close>

lemma pr_fs_prompted [simp]: "pr_fs (prompted st) = pr_fs st"
  by (simp add: prompted_def)

text \<open>The command loop when the user leaves at once, and when an RFC is asked for first.\<close>

lemma command_loop_quit:
  "command_loop ops pops dial g a prt (''quit'' # lines) (st, s) = Some (Inr (prompted st, s))"
proof -
  have "get_match (c_string ''quit'') = None" by (simp add: get_match_def c_string_id nul_def)
  then show ?thesis by (subst command_loop.simps) (simp add: run_command_def)
qed

lemma command_loop_get:
  assumes "0 < sint n" "client_get_rfc ops pops (dial (length lines)) g n a prt (prompted st, s) = Inr (st', s')"
  shows "command_loop ops pops dial g a prt ((''get '' @ dec_int (sint n)) # lines) (st, s) =
    command_loop ops pops dial g a prt lines (st', s')"
  using assms run_command_get [OF assms(1), of ops pops "dial (length lines)" g a prt "prompted st" s]
  by (subst command_loop.simps) simp

lemma client_disconnect_conn:
  assumes "conn s ins outs"
  shows "\<exists>s'. client_disconnect ops s = Inr (vclose ops s') \<and> conn s' ins (outs @ [wire32 4])"
  using send_int_conn [OF assms, of 4] by (auto simp: client_disconnect_def)

lemma client_session_hello:
  assumes "conn s (wire32 PROTOCOL_VERSION # ins) []" "length h + 1 < 2 ^ 31"
  shows "\<exists>s'. client_session ops pops dial g h p lines (st, s) =
      bnd (add_available_rfcs ops g (st, s')) (\<lambda>(_, st, s).
      bnd (run_loop (command_loop ops pops dial g h p lines (st, s))) (\<lambda>(st, s).
      bnd (client_disconnect ops s) (\<lambda>s. Inr (0, st, s)))) \<and>
    conn s' ins (session_blocks h p [])"
proof -
  let ?V = "wire32 PROTOCOL_VERSION"
  obtain s1 where 1: "send_int ops (htonl PROTOCOL_VERSION) s = Inr s1" "conn s1 (?V # ins) [?V]"
    using send_int_conn [OF assms(1), of PROTOCOL_VERSION] by auto
  obtain s2 where 2: "recv_int ops (load32 (fresh_bytes g 4)) s1 = Inr (htonl PROTOCOL_VERSION, s2)" "conn s2 ins [?V]"
    using recv_int_conn [OF 1(2)] by blast
  obtain s3 where 3: "send_int ops (htonl (ulen h)) s2 = Inr s3" "conn s3 ins [?V, wire32 (ulen h)]"
    using send_int_conn [OF 2(2), of "ulen h"] by auto
  have "length (string_bytes h) < 2 ^ 64" using assms(2) by simp
  from send_bytes_conn [OF 3(2) this]
  obtain s4 where 4: "send_bytes ops (string_bytes h) s3 = Inr s4"
      "conn s4 ins [?V, wire32 (ulen h), string_bytes h]" by auto
  obtain s5 where 5: "send_int ops (htonl p) s4 = Inr s5" "conn s5 ins (session_blocks h p [])"
    using send_int_conn [OF 4(2), of p] by (auto simp: identity_blocks_def session_blocks_def)
  show ?thesis
    using 1(1) 2(1) 3(1) 4(1) 5 length_steps(2) [OF assms(2)]
    by (intro exI [of _ s5]) (simp add: client_session_def)
qed

lemma client_session_start:
  assumes "conn s (wire32 PROTOCOL_VERSION # map (\<lambda>_. wire32 200) ns @ ins) []" "length h + 1 < 2 ^ 31"
    and "fst (get_rfcs (pr_fs st)) = Inr ns" "\<forall>n \<in> set ns. 0 < sint n"
  shows "\<exists>s'. client_session ops pops dial g h p lines (st, s) =
      bnd (run_loop (command_loop ops pops dial g h p lines (st, s')))
        (\<lambda>(st, s). bnd (client_disconnect ops s) (\<lambda>s. Inr (0, st, s))) \<and>
    conn s' ins (session_blocks h p (map Ask_add ns))"
proof -
  from client_session_hello [OF assms(1,2), of pops dial g p lines st]
  obtain s1 where 1: "client_session ops pops dial g h p lines (st, s) =
      bnd (add_available_rfcs ops g (st, s1)) (\<lambda>(_, st, s).
      bnd (run_loop (command_loop ops pops dial g h p lines (st, s))) (\<lambda>(st, s).
      bnd (client_disconnect ops s) (\<lambda>s. Inr (0, st, s))))"
      "conn s1 (map (\<lambda>_. wire32 200) ns @ ins) (session_blocks h p [])" by blast
  from add_numbers_conn [OF 1(2) assms(4), of g st]
  obtain s2 where 2: "add_numbers ops g ns (st, s1) = Inr (True, st, s2)"
      "conn s2 ins (session_blocks h p (map Ask_add ns))" by (auto simp: session_blocks_def)
  have "add_available_rfcs ops g (st, s1) = Inr (True, st, s2)"
    using 2(1) assms(3) get_rfcs_keeps [OF assms(3)]
    by (simp add: add_available_rfcs_def case_prod_beta Let_def)
  with 1(1) 2(2) show ?thesis by auto
qed

text \<open>A number the index refuses ends the registration, and only that.\<close>

lemma client_session_refused:
  assumes "conn s (wire32 PROTOCOL_VERSION # map (\<lambda>_. wire32 200) ns @ [wire32 400]) []" "length h + 1 < 2 ^ 31"
    and "fst (get_rfcs (pr_fs st)) = Inr (ns @ n # ms)" "\<forall>m \<in> set (ns @ [n]). 0 < sint m"
  shows "\<exists>st' s'. client_session ops pops dial g h p (''quit'' # lines) (st, s) = Inr (0, st', vclose ops s') \<and>
    conn s' [] (session_blocks h p (map Ask_add (ns @ [n])) @ [wire32 4])"
proof -
  from client_session_hello [OF assms(1,2), of pops dial g p "''quit'' # lines" st]
  obtain s1 where 1: "client_session ops pops dial g h p (''quit'' # lines) (st, s) =
      bnd (add_available_rfcs ops g (st, s1)) (\<lambda>(_, st, s).
      bnd (run_loop (command_loop ops pops dial g h p (''quit'' # lines) (st, s))) (\<lambda>(st, s).
      bnd (client_disconnect ops s) (\<lambda>s. Inr (0, st, s))))"
      "conn s1 (map (\<lambda>_. wire32 200) ns @ [wire32 400]) (session_blocks h p [])" by blast
  from add_numbers_refused [OF 1(2), of n g ms st] assms(4)
  obtain st2 s2 where 2: "add_numbers ops g (ns @ n # ms) (st, s1) = Inr (False, st2, s2)"
      "conn s2 [] (session_blocks h p (map Ask_add (ns @ [n])))" by (auto simp: session_blocks_def)
  have "add_available_rfcs ops g (st, s1) = Inr (False, st2, s2)"
    using 2(1) assms(3) get_rfcs_keeps [OF assms(3)]
    by (simp add: add_available_rfcs_def case_prod_beta Let_def)
  with client_disconnect_conn [OF 2(2)] 1(1) show ?thesis
    by (auto simp: command_loop_quit run_loop_def)
qed

lemma client_session_conn:
  assumes "conn s (wire32 PROTOCOL_VERSION # map (\<lambda>_. wire32 200) ns) []" "length h + 1 < 2 ^ 31"
    and "fst (get_rfcs (pr_fs st)) = Inr ns" "\<forall>n \<in> set ns. 0 < sint n"
  shows "\<exists>st' s'. client_session ops pops dial g h p (''quit'' # lines) (st, s) = Inr (0, st', vclose ops s') \<and>
    conn s' [] (session_blocks h p (map Ask_add ns) @ [wire32 4])"
proof -
  have "conn s (wire32 PROTOCOL_VERSION # map (\<lambda>_. wire32 200) ns @ []) []" using assms(1) by simp
  from client_session_start [OF this assms(2-4), of pops dial g p "''quit'' # lines"]
  obtain s1 where 1: "client_session ops pops dial g h p (''quit'' # lines) (st, s) =
      bnd (run_loop (command_loop ops pops dial g h p (''quit'' # lines) (st, s1)))
        (\<lambda>(st, s). bnd (client_disconnect ops s) (\<lambda>s. Inr (0, st, s)))"
      "conn s1 [] (session_blocks h p (map Ask_add ns))" by blast
  from client_disconnect_conn [OF 1(2)] 1(1) show ?thesis
    by (auto simp: command_loop_quit run_loop_def)
qed

end

section \<open>The index across a session\<close>

lemma index_wf_answer: "index_wf ci \<Longrightarrow> index_wf (snd (answer g h p r ci))"
  by (cases r) (simp_all add: index_wf_add_rfc)

lemma index_wf_answers: "index_wf ci \<Longrightarrow> index_wf (snd (answers g h p rs ci))"
  by (induction rs arbitrary: ci) (simp_all add: case_prod_beta index_wf_answer)

lemma not_connected_no_holder:
  assumes "index_wf ci" "c \<notin> connected (abs_index ci)"
  shows "(n, c) \<notin> holds (abs_index ci)"
  using assms by (auto simp: index_wf_def holders_connected_def abs_index_def)

lemma answers_append:
  "fst (answers g h p (rs @ rs') ci) =
     fst (answers g h p rs ci) @ fst (answers g h p rs' (snd (answers g h p rs ci)))"
  "snd (answers g h p (rs @ rs') ci) = snd (answers g h p rs' (snd (answers g h p rs ci)))"
  by (induction rs arbitrary: ci) (simp_all add: case_prod_beta)

lemma all_sendable_append:
  "all_sendable g h p (rs @ rs') ci \<longleftrightarrow>
     all_sendable g h p rs ci \<and> all_sendable g h p rs' (snd (answers g h p rs ci))"
  by (induction rs arbitrary: ci) (simp_all add: case_prod_beta)

text \<open>A client that leaves takes with it what it brought.\<close>

lemma leave_restores:
  assumes "index_wf ci" "index_wf ci'" "c = \<lparr>host = h, port = p\<rparr>" "c \<notin> connected (abs_index ci)"
    and "connected (abs_index ci') = insert c (connected (abs_index ci))"
    and "holds (abs_index ci') = holds (abs_index ci) \<union> (\<lambda>n. (n, c)) ` N"
  shows "abs_index (snd (remove_client h p ci')) = abs_index ci"
proof -
  have none: "(n, c) \<notin> holds (abs_index ci)" for n using not_connected_no_holder [OF assms(1,4)] .
  have "distinct (clients ci')" using assms(2) by (simp add: index_wf_def lists_wf_def)
  then have "abs_index (snd (remove_client h p ci')) = abs_disconnect c (abs_index ci')"
    using assms(3) by (simp add: abs_index_remove_client)
  also have "\<dots> = abs_index ci"
    using assms(4-6) none by (intro abstract_index.equality) (auto simp: abs_disconnect_def)
  finally show ?thesis .
qed

text \<open>A new client that registers distinct numbers and leaves.\<close>

lemma register_new:
  assumes "index_wf ci" "c = \<lparr>host = h, port = p\<rparr>" "c \<notin> connected (abs_index ci)" "distinct ns"
    and "ci' = snd (answers g h p (map Ask_add ns) (snd (add_client h p ci)))"
  shows "fst (answers g h p (map Ask_add ns) (snd (add_client h p ci))) = map (\<lambda>_. wire32 200) ns"
    and "holds (abs_index ci') = holds (abs_index ci) \<union> (\<lambda>n. (n, c)) ` set ns"
    and "connected (abs_index ci') = insert c (connected (abs_index ci))" and "index_wf ci'"
proof -
  let ?ci1 = "snd (add_client h p ci)"
  have abs1: "abs_index ?ci1 = abs_connect c (abs_index ci)"
    using assms(2) by (simp add: abs_index_add_client)
  have none: "(n, c) \<notin> holds (abs_index ci)" for n using not_connected_no_holder [OF assms(1,3)] .
  have "c \<in> connected (abs_index ?ci1)" "\<forall>n \<in> set ns. (n, c) \<notin> holds (abs_index ?ci1)"
    using none by (simp_all add: abs1 abs_connect_def)
  note a = answers_adds [OF assms(2) this(1) assms(4) this(2), of g]
  show "fst (answers g h p (map Ask_add ns) ?ci1) = map (\<lambda>_. wire32 200) ns" using a by simp
  show "holds (abs_index ci') = holds (abs_index ci) \<union> (\<lambda>n. (n, c)) ` set ns"
    using a by (simp add: assms(5) abs1 abs_connect_def)
  show "connected (abs_index ci') = insert c (connected (abs_index ci))"
    using a by (simp add: assms(5) abs1 abs_connect_def)
  show "index_wf ci'" using assms(1,5) by (simp add: index_wf_answers index_wf_add_client)
qed

lemma register_and_leave:
  assumes "index_wf ci" "c = \<lparr>host = h, port = p\<rparr>" "c \<notin> connected (abs_index ci)" "distinct ns"
    and "ci' = snd (answers g h p (map Ask_add ns) (snd (add_client h p ci)))"
  shows "fst (answers g h p (map Ask_add ns) (snd (add_client h p ci))) = map (\<lambda>_. wire32 200) ns"
    and "holds (abs_index ci') = holds (abs_index ci) \<union> (\<lambda>n. (n, c)) ` set ns"
    and "abs_index (snd (remove_client h p ci')) = abs_index ci"
  using register_new [OF assms] leave_restores [OF assms(1) _ assms(2,3)] by auto

text \<open>A new client that offers a number twice.\<close>

lemma register_twice:
  assumes "index_wf ci" "c = \<lparr>host = h, port = p\<rparr>" "c \<notin> connected (abs_index ci)" "distinct ns" "n \<in> set ns"
    and "rs = map Ask_add (ns @ [n])" "ci' = snd (answers g h p rs (snd (add_client h p ci)))"
  shows "fst (answers g h p rs (snd (add_client h p ci))) = map (\<lambda>_. wire32 200) ns @ [wire32 400]"
    and "holds (abs_index ci') = holds (abs_index ci) \<union> (\<lambda>n. (n, c)) ` set ns"
    and "abs_index (snd (remove_client h p ci')) = abs_index ci"
proof -
  define ci2 where "ci2 = snd (answers g h p (map Ask_add ns) (snd (add_client h p ci)))"
  note r = register_new [OF assms(1-4) ci2_def]
  have old: "(n, c) \<in> holds (abs_index ci2)" using r(2) assms(5) by auto
  then have "\<not> fst (add_rfc h p n ci2)" using assms(2) by (simp add: add_rfc_result)
  then show "fst (answers g h p rs (snd (add_client h p ci))) = map (\<lambda>_. wire32 200) ns @ [wire32 400]"
    using r(1) by (simp add: assms(6) answers_append ci2_def)
  have ci': "ci' = snd (add_rfc h p n ci2)" by (simp add: assms(6,7) answers_append ci2_def)
  have abs: "abs_index ci' = abs_index ci2"
    using old assms(2) by (simp add: ci' abs_index_add_rfc abs_offer_def insert_absorb)
  show h: "holds (abs_index ci') = holds (abs_index ci) \<union> (\<lambda>n. (n, c)) ` set ns" using r(2) abs by simp
  show "abs_index (snd (remove_client h p ci')) = abs_index ci"
    using r(3,4) abs by (intro leave_restores [OF assms(1) _ assms(2,3) _ h])
      (simp_all add: ci' index_wf_add_rfc)
qed

end
