(* ===== verification/Client_Properties.thy ===== *)
theory Client_Properties
  imports Client_Sessions Secure_Channel
begin

text \<open>
  Properties of the client alone, over an encrypted connection to the index or a peer.  The
  properties that join it to the server and to a peer are in the root theory.
\<close>

section \<open>A connection for the witnesses\<close>

definition demo_end :: "byte list list \<Rightarrow> EncryptedClientSocket" where
  "demo_end ins =
     \<lparr>ec_base = (ClientSocket_new ''127.0.0.1'' 8080)
        \<lparr>cs_kern := kern_with (sealed_all demo_crypto (replicate 32 7) (replicate 12 5) ins)\<rparr>,
      ec_iv = replicate 12 5, ec_key = Some (replicate 32 7)\<rparr>"

lemma demo_end_conn:
  "eclient_conn demo_crypto (replicate 32 7) (replicate 12 5) [] (demo_end ins) ins []"
  by (simp add: eclient_link_def demo_end_def crypto_ok_demo kern_conn_kern_with tags_fit_def)
    (simp add: demo_crypto_def MAC_LEN_def le_max_iff_disj)

abbreviation demo_ops :: "EncryptedClientSocket sock_ops" where
  "demo_ops \<equiv> eclient_ops demo_crypto (\<lambda>_. 0) (demo_env no_kern)"

definition demo_files :: "(string \<times> entry) list \<Rightarrow> peer_state" where
  "demo_files es =
     \<lparr>pr_fs = \<lparr>fs_node = Directory es, fs_fds = 5, fs_mkdir_ok = True, fs_readable = True, fs_writable = True\<rparr>,
      pr_log = []\<rparr>"

section \<open>The command loop\<close>

text \<open>Lines that only print.\<close>

definition idle_line :: "string \<Rightarrow> bool" where
  "idle_line l \<longleftrightarrow> get_match (c_string l) = None \<and> l \<notin> {''list'', ''listl'', ''quit''}"

lemma run_command_idle:
  assumes "idle_line l"
  shows "\<exists>st'. run_command ops pops dial g a prt l (st, s) = Inr (st', s)"
  using assms by (simp add: idle_line_def run_command_def)

lemma idle_line_empty: "idle_line []"
  by (simp add: idle_line_def get_match_def c_string_def)

lemma command_loop_idle:
  assumes "list_all idle_line lines"
  shows "command_loop ops pops dial g a prt lines (st, s) = None"
proof (rule ccontr)
  assume "command_loop ops pops dial g a prt lines (st, s) \<noteq> None"
  then obtain res where "command_loop ops pops dial g a prt lines (st, s) = Some res" by blast
  then have "\<not> list_all idle_line lines"
  proof (rule command_loop.raw_induct [where P = "\<lambda>ops pops dial g a prt lines sts res.
      \<not> list_all idle_line lines", rotated])
    fix f :: "'s sock_ops \<Rightarrow> 'p sock_ops \<Rightarrow> (nat \<Rightarrow> string \<Rightarrow> u16 \<Rightarrow> 'p result) \<Rightarrow> (nat \<Rightarrow> byte) \<Rightarrow> string \<Rightarrow> u32 \<Rightarrow>
        string list \<Rightarrow> peer_state \<times> 's \<Rightarrow> (peer_state \<times> 's) result option"
      and ops pops dial g a prt lines sts res
    assume IH: "\<And>ops pops dial g a prt lines sts res. f ops pops dial g a prt lines sts = Some res \<Longrightarrow>
        \<not> list_all idle_line lines"
      and eq: "(let sts = (prompted (fst sts), snd sts); input = (case lines of [] \<Rightarrow> [] | l # _ \<Rightarrow> l); lines = (case lines of [] \<Rightarrow> [] | _ # ls \<Rightarrow> ls)
        in case run_command ops pops (dial (length lines)) g a prt input sts of
            Inl e \<Rightarrow> Some (Inl e)
          | Inr sts \<Rightarrow>
              if input \<noteq> ''quit'' then f ops pops dial g a prt lines sts else Some (Inr sts)) = Some res"
    show "\<not> list_all idle_line lines"
    proof
      assume idle: "list_all idle_line lines"
      let ?l = "case lines of [] \<Rightarrow> [] | l # _ \<Rightarrow> l" and ?ls = "case lines of [] \<Rightarrow> [] | _ # ls \<Rightarrow> ls"
      have l: "idle_line ?l" "list_all idle_line ?ls"
        using idle idle_line_empty by (cases lines; simp)+
      obtain st s where sts: "sts = (st, s)" by (cases sts)
      obtain st' where "run_command ops pops (dial (length ?ls)) g a prt ?l (prompted st, s) = Inr (st', s)"
        using run_command_idle [OF l(1), of ops pops "dial (length ?ls)" g a prt "prompted st" s] by blast
      moreover have "?l \<noteq> ''quit''" using l(1) by (simp add: idle_line_def)
      ultimately have "f ops pops dial g a prt ?ls (st', s) = Some res"
        using eq sts by (simp add: Let_def)
      from IH [OF this] l(2) show False by simp
    qed
  qed
  with assms show False by simp
qed

section \<open>Properties\<close>

text \<open>
  \<open>list\<close> shows the index: when the server answers a LIST from the index \<open>ci\<close>, the client prints
  exactly the table of the holders of \<open>ci\<close>, in their order, or says that there are none, and has sent
  exactly the LIST message.
\<close>

lemma list_shows_index:
  assumes "eclient_conn cr key iv pre s (fst (answer g' h' p' Ask_list ci)) []" "sendable ci"
    and "\<forall>r \<in> set (rfcs ci). nul \<notin> set (host (peer r))"
  shows "\<exists>s'. list_rfcs_remote (eclient_ops cr g env) g h p (st, s) =
      Inr (st\<lparr>pr_log := pr_log st @
        (if rfcs ci = [] then [''No RFCs are in the index''] else print_rfc_list (rfcs ci) h p)\<rparr>, s') \<and>
    eclient_conn cr key iv pre s' [] [wire32 2]"
proof -
  have "eclient_conn cr key iv pre s (fst (answer g' h' p' Ask_list ci) @ []) []" using assms(1) by simp
  from eclient_sock.list_rfcs_remote_conn [OF this assms(2,3), of g env g h p st] show ?thesis by simp
qed

lemma list_shows_index_witness:
  "\<exists>s'. list_rfcs_remote demo_ops (\<lambda>_. 0) ''b'' 2
      (demo_files [], demo_end (fst (answer (\<lambda>_. 9) ''b'' 2 Ask_list demo_index))) =
    Inr ((demo_files [])\<lparr>pr_log := pr_log (demo_files []) @
      (if rfcs demo_index = [] then [''No RFCs are in the index''] else print_rfc_list (rfcs demo_index) ''b'' 2)\<rparr>, s') \<and>
    eclient_conn demo_crypto (replicate 32 7) (replicate 12 5) [] s' [] [wire32 2]"
  by (rule list_shows_index [OF demo_end_conn])
    (simp_all add: sendable_def demo_index_def length_holder_wire nul_def)

text \<open>
  The rows of the table are aligned: as long as the fields fit their columns, every row of another
  node is as long as the header.
\<close>

lemma list_rows_aligned:
  assumes "length (dec_int (sint (rfc r))) \<le> 4" "length (host (peer r)) \<le> 15"
    and "length (dec_int (sint (port (peer r)))) \<le> 5" "\<not> (host (peer r) = h \<and> port (peer r) = p)"
  shows "length (rfc_list_line h p r) = length (hd (print_rfc_list l h p))"
  using assms by (simp add: rfc_list_line_def print_rfc_list_def length_setw_left)

text \<open>
  A number whose low sixteen bits are not a positive \<open>short\<close> cannot be downloaded: the message is
  invalid, and the client passes \<open>nullptr\<close> to \<open>send\<close>.
\<close>

lemma large_number_get_undefined:
  assumes "eclient_conn cr key iv pre s ins []" "length my_host + 1 < 2 ^ 31"
    and "dial (host c) (ucast (port c)) = Inr s" "sint (ucast n :: u16) \<le> 0"
  shows "get_from_peer (eclient_ops cr g env) dial g my_host my_port n c st = Inl Undefined_Behaviour"
  by (rule eclient_sock.get_from_peer_invalid [where dial = dial and c = c, OF assms])

lemma large_number_get_undefined_witness:
  "get_from_peer demo_ops (\<lambda>_ _. Inr (demo_end [])) (\<lambda>_. 0) ''b'' 2 65536 \<lparr>host = ''a'', port = 1\<rparr>
     (demo_files []) = Inl Undefined_Behaviour"
  by (rule large_number_get_undefined [OF demo_end_conn]) simp_all

text \<open>
  A file \<open>rfc0.txt\<close> stops the client at its start: it is the first of the sorted numbers, the ADD
  message for it is invalid, and \<open>nullptr\<close> is passed to \<open>send\<close>.
\<close>

lemma rfc0_undefined:
  assumes "eclient_conn cr key iv pre s ins []"
    and "fst (get_rfcs (pr_fs st)) = Inr (n # ns)" "sint n \<le> 0"
  shows "add_available_rfcs (eclient_ops cr g env) g (st, s) = Inl Undefined_Behaviour"
  using eclient_sock.add_numbers_zero [OF assms(1,3)] assms(2)
  by (simp add: add_available_rfcs_def case_prod_beta Let_def)

text \<open>
  The command loop never ends when the input does: after lines that are no commands, the empty
  string the failing \<open>getline\<close> leaves is taken for one more invalid command, for ever.
\<close>

lemma end_of_input_never_ends:
  assumes "list_all idle_line lines"
  shows "run_loop (command_loop ops pops dial g address prt lines (st, s)) = Inl Diverges"
  using command_loop_idle [OF assms, of ops pops dial g address prt st s] by (simp add: run_loop_def)

lemma end_of_input_never_ends_witness:
  "run_loop (command_loop demo_ops demo_ops (\<lambda>_ _ _. Inr (demo_end [])) (\<lambda>_. 0) ''b'' 2 [''help'', ''hello'']
     (demo_files [], demo_end [])) = Inl Diverges"
  by (rule end_of_input_never_ends) (simp add: idle_line_def get_match_def c_string_id nul_def)

end
