(* ===== verification/Listener.thy ===== *)
theory Listener
  imports Secure_Channel
begin

text \<open>
  \<open>ServerSocketListener\<close> and \<open>EncryptedServerSocketListener\<close> (\<open>src/server_socket_listener.cpp\<close>,
  \<open>src/encrypted_server_socket_listener.cpp\<close>).  The two classes differ in the socket class only, so
  the operations are modelled for any constructor \<open>mk\<close> of a connection and then instantiated.

  The state is what the object holds; that the listening thread is still in its loop is a flag.  The
  handler threads are seen through the flags they set when they finish.  The vector of clients is
  used by two threads without a lock; here their operations run one after the other, and
  \<open>Listener_Threads\<close> interleaves them.
\<close>

section \<open>State\<close>

record 's ThreadKeeper =
  tk_sock :: 's
  tk_finished :: bool

record 's Listener =
  ln_port :: int
  ln_fd :: int
  ln_thread :: bool  \<comment> \<open>\<open>listen_thread\<close> is not \<open>nullptr\<close>\<close>
  ln_accepting :: bool
  ln_keepers :: "'s ThreadKeeper list"

definition Listener_new :: "int \<Rightarrow> 's Listener" where
  "Listener_new prt =
     \<lparr>ln_port = prt, ln_fd = 0, ln_thread = False, ln_accepting = False, ln_keepers = []\<rparr>"

section \<open>Operations\<close>

text \<open>What the kernel answers when the port is opened.\<close>

record listen_env =
  le_socket :: int
  le_setsockopt :: int
  le_bind :: int
  le_listen :: int

text \<open>The result tells whether a thread is returned; a failed \<open>socket\<close> is -1 and not 0.\<close>

definition Listener_listen :: "listen_env \<Rightarrow> 's Listener \<Rightarrow> bool \<times> 's Listener" where
  "Listener_listen env l =
     (if ln_thread l then (False, l)
      else
        let l = l\<lparr>ln_fd := le_socket env\<rparr>
        in if ln_fd l = 0 then (False, l)
           else if le_setsockopt env \<noteq> 0 then (False, l)
           else if le_bind env < 0 then (False, l)
           else if le_listen env < 0 then (False, l)
           else (True, l\<lparr>ln_thread := True, ln_accepting := True\<rparr>))"

definition Listener_is_listening :: "'s Listener \<Rightarrow> bool" where
  "Listener_is_listening l = ln_thread l"

definition Listener_get_listen_thread :: "'s Listener \<Rightarrow> bool" where
  "Listener_get_listen_thread l = ln_thread l"

text \<open>
  The listening thread: it makes the connection itself, so it runs the whole constructor, and an
  exception of the constructor leaves the thread, which ends the process.
\<close>

datatype 'a arrival = Accept_error | Accepted 'a

fun accept_loop :: "('a \<Rightarrow> 's result) \<Rightarrow> 'a arrival list \<Rightarrow> 's Listener \<Rightarrow> 's Listener result" where
  "accept_loop mk [] l = Inr l"
| "accept_loop mk (Accept_error # as) l = Inr (l\<lparr>ln_accepting := False\<rparr>)"
| "accept_loop mk (Accepted x # as) l =
     bnd (mk x) (\<lambda>conn.
     accept_loop mk as
       (l\<lparr>ln_keepers := ln_keepers l @ [\<lparr>tk_sock = conn, tk_finished = False\<rparr>]\<rparr>))"

text \<open>One pass of the cleanup thread over the clients: the finished ones are joined and erased.\<close>

fun cleanup_pass :: "'s ThreadKeeper list \<Rightarrow> 's ThreadKeeper list" where
  "cleanup_pass [] = []"
| "cleanup_pass (it # its) =
     (if tk_finished it then cleanup_pass its else it # cleanup_pass its)"

text \<open>The cleanup thread; \<open>between i\<close> is what the other threads do to the clients before pass \<open>i\<close>.\<close>

partial_function (option) cleanup_loop ::
    "(nat \<Rightarrow> 's ThreadKeeper list \<Rightarrow> 's ThreadKeeper list) \<Rightarrow> nat \<Rightarrow> 's Listener \<Rightarrow> 's Listener option" where
  "cleanup_loop between i l =
     (if Listener_is_listening l
      then cleanup_loop between (i + 1) (l\<lparr>ln_keepers := cleanup_pass (between i (ln_keepers l))\<rparr>)
      else Some l)"

text \<open>\<open>close\<close> joins the listening thread, the cleanup thread and the handlers.\<close>

definition Listener_close ::
    "(nat \<Rightarrow> 's ThreadKeeper list \<Rightarrow> 's ThreadKeeper list) \<Rightarrow> 's Listener \<Rightarrow> 's Listener result" where
  "Listener_close between l =
     (if \<not> ln_thread l then Inr l
      else if ln_accepting l then Inl Diverges
      else case cleanup_loop between 0 l of None \<Rightarrow> Inl Diverges | Some l \<Rightarrow> Inr l)"

section \<open>The two classes\<close>

type_synonym ServerSocketListener = "ServerSocket Listener"
type_synonym EncryptedServerSocketListener = "EncryptedServerSocket Listener"

text \<open>The operations that do not make a connection are the same in both classes.\<close>

definition ServerSocketListener_new :: "int \<Rightarrow> ServerSocketListener" where
  "ServerSocketListener_new = Listener_new"

definition ServerSocketListener_listen ::
    "listen_env \<Rightarrow> ServerSocketListener \<Rightarrow> bool \<times> ServerSocketListener" where
  "ServerSocketListener_listen = Listener_listen"

definition ServerSocketListener_start_cleanup ::
    "(nat \<Rightarrow> ServerSocket ThreadKeeper list \<Rightarrow> ServerSocket ThreadKeeper list) \<Rightarrow> ServerSocketListener \<Rightarrow>
     ServerSocketListener option" where
  "ServerSocketListener_start_cleanup between = cleanup_loop between 0"

definition ServerSocketListener_is_listening :: "ServerSocketListener \<Rightarrow> bool" where
  "ServerSocketListener_is_listening = Listener_is_listening"

definition ServerSocketListener_get_listen_thread :: "ServerSocketListener \<Rightarrow> bool" where
  "ServerSocketListener_get_listen_thread = Listener_get_listen_thread"

definition ServerSocketListener_close ::
    "(nat \<Rightarrow> ServerSocket ThreadKeeper list \<Rightarrow> ServerSocket ThreadKeeper list) \<Rightarrow> ServerSocketListener \<Rightarrow>
     ServerSocketListener result" where
  "ServerSocketListener_close = Listener_close"

definition ServerSocketListener_accept_loop ::
    "kern arrival list \<Rightarrow> ServerSocketListener \<Rightarrow> ServerSocketListener result" where
  "ServerSocketListener_accept_loop = accept_loop (\<lambda>k. Inr (ServerSocket_new k))"

definition EncryptedServerSocketListener_accept_loop ::
    "crypto \<Rightarrow> (nat \<Rightarrow> byte) \<Rightarrow> (kern \<times> draws) arrival list \<Rightarrow> EncryptedServerSocketListener \<Rightarrow>
     EncryptedServerSocketListener result" where
  "EncryptedServerSocketListener_accept_loop cr g =
     accept_loop (\<lambda>(k, rnd). EncryptedServerSocket_new cr g rnd k)"

section \<open>The main program of the server\<close>

text \<open>
  \<open>main\<close> of \<open>src/server.cpp\<close>: \<open>thread->join()\<close> is called on what \<open>listen\<close> returned, which is \<open>nullptr\<close>
  when it failed.  The join returns when the accept loop has ended; as long as it waits for more
  arrivals it does not.
\<close>

definition server_main ::
    "crypto \<Rightarrow> (nat \<Rightarrow> byte) \<Rightarrow> listen_env \<Rightarrow> (kern \<times> draws) arrival list \<Rightarrow> int result" where
  "server_main cr g env as =
     (let (started, l) = Listener_listen env (Listener_new 8080)
      in if \<not> started then Inl Undefined_Behaviour
         else bnd (EncryptedServerSocketListener_accept_loop cr g as l) (\<lambda>l.
              if ln_accepting l then Inl Diverges else Inr 0))"

section \<open>What the loops do\<close>

lemma cleanup_pass_eq: "cleanup_pass ks = filter (\<lambda>k. \<not> tk_finished k) ks"
  by (induction ks) auto

lemma cleanup_loop_listening:
  assumes "ln_thread l"
  shows "cleanup_loop between i l = None"
proof (rule ccontr)
  assume "cleanup_loop between i l \<noteq> None"
  then obtain res where "cleanup_loop between i l = Some res" by blast
  then have "\<not> ln_thread l"
  proof (rule cleanup_loop.raw_induct [where P = "\<lambda>between i l res. \<not> ln_thread l", rotated])
    fix f :: "(nat \<Rightarrow> 's ThreadKeeper list \<Rightarrow> 's ThreadKeeper list) \<Rightarrow> nat \<Rightarrow> 's Listener \<Rightarrow> 's Listener option"
      and between i l res
    assume IH: "\<And>between i l res. f between i l = Some res \<Longrightarrow> \<not> ln_thread l"
      and eq: "(if Listener_is_listening l
        then f between (i + 1) (l\<lparr>ln_keepers := cleanup_pass (between i (ln_keepers l))\<rparr>)
        else Some l) = Some res"
    show "\<not> ln_thread l"
    proof
      assume "ln_thread l"
      then have "f between (i + 1) (l\<lparr>ln_keepers := cleanup_pass (between i (ln_keepers l))\<rparr>) = Some res"
        using eq by (simp add: Listener_is_listening_def)
      from IH [OF this] \<open>ln_thread l\<close> show False by simp
    qed
  qed
  with assms show False by simp
qed

lemma accept_loop_append:
  "accept_loop mk (map Accepted xs @ as) l =
     bnd (accept_loop mk (map Accepted xs) l) (accept_loop mk as)"
proof (induction xs arbitrary: l)
  case (Cons x xs)
  then show ?case by (cases "mk x") simp_all
qed simp

lemma EncryptedServerSocket_new_rejected:
  assumes "draws_ok cr rnd" "length pub = public_len cr" "agree cr (drawn_private rnd) pub = None"
    and "kern_conn k (wire32 (ulen pub) @ pub @ i) []"
  shows "EncryptedServerSocket_new cr g rnd k = Inl (Throws HandshakeException)"
proof -
  have "length pub + 1 < 2 ^ 31" using assms(1,2) by (simp add: draws_ok_def)
  moreover have "server_conn (ServerSocket_new k) (wire32 (ulen pub) # pub # [i]) []"
    using assms(4) by (simp add: server_link_def ServerSocket_new_def)
  ultimately have "exchange_keys cr server_ops g rnd (ServerSocket_new k) = Inl (Throws HandshakeException)"
    using server_sock.exchange_keys_recv [of "ServerSocket_new k" pub "[i]" "[]" cr rnd g] assms(1-3) by auto
  then show ?thesis by (simp add: EncryptedServerSocket_new_def handshake_def)
qed

lemma EncryptedServerSocket_new_short_key:
  assumes "draws_ok cr rnd" "length pub < public_len cr" "kern_conn k (wire32 (ulen pub) @ pub @ i) []"
  shows "EncryptedServerSocket_new cr g rnd k = Inl Undefined_Behaviour"
proof -
  have "length pub + 1 < 2 ^ 31" using assms(1,2) by (simp add: draws_ok_def)
  moreover have "server_conn (ServerSocket_new k) (wire32 (ulen pub) # pub # [i]) []"
    using assms(3) by (simp add: server_link_def ServerSocket_new_def)
  ultimately have "exchange_keys cr server_ops g rnd (ServerSocket_new k) = Inl Undefined_Behaviour"
    using server_sock.exchange_keys_recv [of "ServerSocket_new k" pub "[i]" "[]" cr rnd g] assms(1,2) by auto
  then show ?thesis by (simp add: EncryptedServerSocket_new_def handshake_def)
qed

lemma accept_loop_good:
  assumes "\<forall>x \<in> set good. \<exists>c. mk x = Inr c"
  shows "\<exists>l'. accept_loop mk (map Accepted good) l = Inr l' \<and> ln_accepting l' = ln_accepting l"
  using assms
proof (induction good arbitrary: l)
  case (Cons x good)
  then obtain c where "mk x = Inr c" by auto
  with Cons.IH [of "l\<lparr>ln_keepers := ln_keepers l @ [\<lparr>tk_sock = c, tk_finished = False\<rparr>]\<rparr>"] Cons.prems
  show ?case by simp
qed simp

text \<open>
  A port that cannot be opened ends the server in a call through \<open>nullptr\<close>; with an open port and
  good clients it runs until \<open>accept\<close> fails, and then ends with all sessions.
\<close>

lemma server_main_no_port:
  assumes "le_bind env < 0"
  shows "server_main cr g env as = Inl Undefined_Behaviour"
  using assms by (simp add: server_main_def Listener_listen_def Listener_new_def Let_def)

lemma server_main_runs:
  assumes "le_socket env \<noteq> 0" "le_setsockopt env = 0" "0 \<le> le_bind env" "0 \<le> le_listen env"
    and "\<forall>x \<in> set good. \<exists>c. EncryptedServerSocket_new cr g (snd x) (fst x) = Inr c"
  shows "server_main cr g env (map Accepted good) = Inl Diverges"
    and "server_main cr g env (map Accepted good @ Accept_error # rest) = Inr 0"
proof -
  let ?mk = "\<lambda>(k, rnd). EncryptedServerSocket_new cr g rnd k"
  let ?l = "Listener_new 8080 \<lparr>ln_fd := le_socket env, ln_thread := True, ln_accepting := True\<rparr>"
  have "\<forall>x \<in> set good. \<exists>c. ?mk x = Inr c" using assms(5) by (simp add: case_prod_beta)
  from accept_loop_good [OF this, of ?l]
  obtain l' where l': "accept_loop ?mk (map Accepted good) ?l = Inr l'" "ln_accepting l'" by auto
  have start: "Listener_listen env (Listener_new 8080) = (True, ?l)"
    using assms(1-4) by (simp add: Listener_listen_def Listener_new_def)
  show "server_main cr g env (map Accepted good) = Inl Diverges"
    using l' by (simp add: server_main_def start EncryptedServerSocketListener_accept_loop_def)
  show "server_main cr g env (map Accepted good @ Accept_error # rest) = Inr 0"
    using l' by (simp add: server_main_def start EncryptedServerSocketListener_accept_loop_def accept_loop_append)
qed

section \<open>Properties\<close>

text \<open>
  C32. One client can end the server.  The handshake runs on the listening thread and nothing catches
  its exceptions: after any number of good clients, one whose public key is refused makes the
  exception leave the thread, whoever would have come after, and one that sends a public key shorter
  than the curve's makes it read beyond the key.
\<close>

theorem bad_key_ends_server:
  assumes "\<forall>x \<in> set good. \<exists>c. EncryptedServerSocket_new cr g (snd x) (fst x) = Inr c"
    and "draws_ok cr rnd" "kern_conn k (wire32 (ulen pub) @ pub @ i) []"
    and "length pub = public_len cr \<and> agree cr (drawn_private rnd) pub = None \<or> length pub < public_len cr"
  shows "EncryptedServerSocketListener_accept_loop cr g (map Accepted good @ Accepted (k, rnd) # rest) l =
    Inl (if length pub < public_len cr then Undefined_Behaviour else Throws HandshakeException)"
proof -
  let ?mk = "\<lambda>(k, rnd). EncryptedServerSocket_new cr g rnd k"
  have "\<forall>x \<in> set good. \<exists>c. ?mk x = Inr c" using assms(1) by (simp add: case_prod_beta)
  from accept_loop_good [OF this, of l] have "\<exists>l'. accept_loop ?mk (map Accepted good) l = Inr l'" by blast
  moreover have "?mk (k, rnd) =
      Inl (if length pub < public_len cr then Undefined_Behaviour else Throws HandshakeException)"
    using assms(2-4) EncryptedServerSocket_new_rejected EncryptedServerSocket_new_short_key by auto
  ultimately show ?thesis
    by (auto simp: EncryptedServerSocketListener_accept_loop_def accept_loop_append)
qed

theorem bad_key_ends_server_witness:
  "EncryptedServerSocketListener_accept_loop demo_crypto (\<lambda>_. 0)
     (map Accepted [] @ Accepted (kern_with (wire32 (ulen ([] :: byte list)) @ [] @ []), demo_draws 3) # [Accept_error])
     (Listener_new 8080) =
   Inl (if length ([] :: byte list) < public_len demo_crypto then Undefined_Behaviour else Throws HandshakeException)"
  by (rule bad_key_ends_server [OF _ draws_ok_demo kern_conn_kern_with]) (simp_all add: demo_crypto_def)

text \<open>
  \<open>close\<close> of a listener that listens never returns: nothing ends the accept loop, and even after it
  has ended on an error the cleanup thread runs while \<open>listen_thread\<close> is set, which nothing resets.
\<close>

lemma listener_close_never_returns:
  "Listener_close between l = (if ln_thread l then Inl Diverges else Inr l)"
  by (simp add: Listener_close_def cleanup_loop_listening)

end
