(* ===== verification/Client_Main.thy ===== *)
theory Client_Main
  imports Client_Sessions Listener
begin

text \<open>
  \<open>main\<close> of the client (\<open>src/client.cpp\<close>): the arguments, the directory, the listener for other
  peers, the connection to the index and the session.  An exception that is not caught ends the
  process; so it does when a connection is refused, since nothing tests whether \<open>connect\<close> has
  connected.
\<close>

section \<open>The program\<close>

text \<open>
  \<open>connect\<close> is what constructing and connecting the socket to the index gives, \<open>lenv\<close> what the
  kernel answers when the upload port is opened.  The results are the exit code, the state of the
  process with what was printed, and the socket and the listener if it came to them.
\<close>

definition client_main ::
    "'s sock_ops \<Rightarrow> (string \<Rightarrow> u16 \<Rightarrow> 's result) \<Rightarrow> 'p sock_ops \<Rightarrow> (nat \<Rightarrow> string \<Rightarrow> u16 \<Rightarrow> 'p result) \<Rightarrow> (nat \<Rightarrow> byte) \<Rightarrow>
     listen_env \<Rightarrow> string list \<Rightarrow> string list \<Rightarrow> filesys \<Rightarrow>
     (int \<times> peer_state \<times> ('s \<times> EncryptedServerSocketListener) option) result" where
  "client_main ops connect pops dial g lenv argv lines fs =
     (if length argv \<noteq> 4
      then Inr (0, \<lparr>pr_fs = fs, pr_log = [''usage: client <rfc_dir> <address> <upload_port>'']\<rparr>, None)
      else
        let rfc_dir = argv ! 1; address = argv ! 2
        in bnd (stoi (argv ! 3)) (\<lambda>prt.
           let (r, out, fs) = RFCManager_new rfc_dir fs
           in bnd r (\<lambda>_.
              let st = \<lparr>pr_fs = fs, pr_log = out\<rparr>;
                  (_, listener) = Listener_listen lenv (Listener_new (sint prt));
                  st = st\<lparr>pr_log := pr_log st @ [''Server started'']\<rparr>
              in bnd (connect ''127.0.0.1'' 8080) (\<lambda>s.
                 let st = st\<lparr>pr_log := pr_log st @ [''Connected to index'']\<rparr>
                 in bnd (client_session ops pops dial g address prt lines (st, s)) (\<lambda>(code, st, s).
                    Inr (code, st, Some (s, listener)))))))"

text \<open>
  The socket of the program: \<open>EncryptedClientSocket sock(addr, port); sock.connect();\<close> with the
  random values \<open>rnd\<close> drawn for that connection.
\<close>

definition client_dial ::
    "crypto \<Rightarrow> (nat \<Rightarrow> byte) \<Rightarrow> conn_env \<Rightarrow> (string \<Rightarrow> u16 \<Rightarrow> draws) \<Rightarrow> string \<Rightarrow> u16 \<Rightarrow> EncryptedClientSocket result" where
  "client_dial cr g env rnd addr prt =
     EncryptedClientSocket_connect cr g (rnd addr prt) env (EncryptedClientSocket_new g addr prt)"

end
