(* ===== verification/System_Sessions.thy ===== *)
theory System_Sessions
  imports Server_Properties Client_Properties Client_Main
begin

text \<open>
  The programs together: what a client, the index and a peer do over encrypted connections that are
  up, and over connections that still have to be opened, from the bytes the kernels deliver.
\<close>

section \<open>Over connections that are up\<close>

text \<open>A download, for the properties of a session and of the download itself.\<close>

lemma download:
  assumes "eclient_conn cr key iv pre sc [wire32 (ulen w), w] []"
    and "eserver_conn cr key iv pre' ss (identity_blocks h p @ [wire32 1, wire16 (ucast n), wire32 2]) []"
    and "w = get_wire g' (Some body)" "stored_text (asked n) (pr_fs pst) = Some body"
    and "dial (host peer_of) (ucast (port peer_of)) = Inr sc"
    and "0 < sint (asked n)" "nul \<notin> set h" "length h + 1 < 2 ^ 31"
    and "body \<noteq> []" "length body + 9 < 2 ^ 31" "nul \<notin> set body" "eof_char \<notin> set body"
    and "fs_node (pr_fs cst) = Directory es" "fs_readable (pr_fs cst)" "fs_writable (pr_fs cst)"
    and "0 < fs_fds (pr_fs cst)" "map_of es (rfc_filename n) \<noteq> Some SubDir"
  shows "\<exists>cst' sc' pst' ss'.
    get_from_peer (eclient_ops cr g env) dial g h p n peer_of cst =
      Inr (True, cst', EncryptedClientSocket_disconnect env sc') \<and>
    eclient_conn cr key iv pre sc' [] (identity_blocks h p @ [wire32 1, wire16 (ucast n), wire32 2]) \<and>
    peer_handler (eserver_ops cr g') g' pst ss = Inr (True, pst', ss') \<and>
    eserver_conn cr key iv pre' ss' [] [wire32 (ulen w), w] \<and>
    pr_fs cst' = snd (rm_add_rfc n body (pr_fs cst)) \<and> pr_fs pst' = snd (get_content (asked n) (pr_fs pst)) \<and>
    fst (get_content n (pr_fs cst')) = Inr body"
proof -
  have n: "(scast (ucast n :: u16) :: u32) = asked n" "0 < sint (ucast n :: u16)"
    using assms(6) by (simp_all add: asked_def flip: sint_asked)
  have ok: "servable_text (Some body)" using assms(9,10) by (simp add: servable_text_def)
  from eclient_sock.get_from_peer_found [where dial = dial and c = peer_of and n = n,
      OF assms(1,8,5) n(2) assms(3) ok assms(11), of g env g p cst]
  obtain cst' sc' where cl: "get_from_peer (eclient_ops cr g env) dial g h p n peer_of cst =
        Inr (True, cst', EncryptedClientSocket_disconnect env sc')"
      "pr_fs cst' = snd (rm_add_rfc n body (pr_fs cst))"
      "eclient_conn cr key iv pre sc' [] (identity_blocks h p @ [wire32 1, wire16 (ucast n), wire32 2])"
    by (auto simp: eclient_ops_def)
  have "eserver_conn cr key iv pre' ss (identity_blocks h p @ [wire32 1, wire16 (ucast n), wire32 2] @ []) []"
    using assms(2) by simp
  from eserver_sock.peer_handler_download [OF this assms(7,8), of pst g' g']
  obtain pst' ss' where pe: "peer_handler (eserver_ops cr g') g' pst ss = Inr (True, pst', ss')"
      "eserver_conn cr key iv pre' ss' [] [wire32 (ulen w), w]" "pr_fs pst' = snd (get_content (asked n) (pr_fs pst))"
    using ok assms(3,4) n(1) by auto
  have "fst (get_content n (pr_fs cst')) = Inr body"
    using get_content_after_add [OF assms(13-17,11,12)] cl(2) by simp
  with cl pe show ?thesis by blast
qed

section \<open>From the kernel up\<close>

text \<open>
  The two ends of a connection draw their values and agree on a secret; then every byte that one end
  puts on the wire is determined by the blocks it sends.
\<close>

definition link_ok :: "crypto \<Rightarrow> draws \<Rightarrow> draws \<Rightarrow> byte list \<Rightarrow> bool" where
  "link_ok cr rs rc sh \<longleftrightarrow> draws_ok cr rs \<and> draws_ok cr rc \<and>
     agree cr (drawn_private rs) (drawn_public rc) = Some sh \<and>
     agree cr (drawn_private rc) (drawn_public rs) = Some sh"

definition to_server :: "crypto \<Rightarrow> draws \<Rightarrow> draws \<Rightarrow> byte list \<Rightarrow> byte list list \<Rightarrow> byte list" where
  "to_server cr rs rc sh bs = client_hello cr rs rc sh @ sealed_all cr (session_key cr sh) (drawn_iv rs) bs"

definition to_client :: "crypto \<Rightarrow> draws \<Rightarrow> byte list \<Rightarrow> byte list list \<Rightarrow> byte list" where
  "to_client cr rs sh bs = server_hello cr rs sh @ sealed_all cr (session_key cr sh) (drawn_iv rs) bs"

text \<open>The library, with an allocator whose smallest block holds a tag.\<close>

definition library_ok :: "crypto \<Rightarrow> bool" where
  "library_ok cr \<longleftrightarrow> crypto_ok cr \<and> key_block_ok cr \<and> (\<forall>n. MAC_LEN \<le> usable cr n)"

lemma accepted_connection:
  assumes "library_ok cr" "link_ok cr rs rc sh" "kern_link e k (to_server cr rs rc sh bs) []"
  shows "\<exists>s. EncryptedServerSocket_new cr g rs k = Inr s \<and>
    eserver_link e cr (session_key cr sh) (drawn_iv rs) (server_hello cr rs sh) s bs []"
proof -
  have "crypto_ok cr" "key_block_ok cr" "draws_ok cr rs" "length (drawn_public rc) = public_len cr"
      "agree cr (drawn_private rs) (drawn_public rc) = Some sh"
    using assms(1,2) by (simp_all add: library_ok_def link_ok_def draws_ok_def)
  from EncryptedServerSocket_new_kern [OF this assms(3) [unfolded to_server_def], of g] assms(1)
  show ?thesis by (auto simp: eserver_link_def library_ok_def tags_fit_def)
qed

lemma opened_connection:
  assumes "library_ok cr" "link_ok cr rs (rnd addr prt) sh" "kern_conn k (to_client cr rs sh bs) []"
    and "accepts env addr prt k"
  shows "\<exists>s. client_dial cr g env rnd addr prt = Inr s \<and>
    eclient_conn cr (session_key cr sh) (drawn_iv rs) (client_hello cr rs (rnd addr prt) sh) s bs []"
proof -
  have "crypto_ok cr" "key_block_ok cr" "draws_ok cr rs" "draws_ok cr (rnd addr prt)"
      "agree cr (drawn_private (rnd addr prt)) (drawn_public rs) = Some sh"
    using assms(1,2) by (simp_all add: library_ok_def link_ok_def)
  from EncryptedClientSocket_connect_kern [OF this assms(3) [unfolded to_client_def] assms(4), of g] assms(1)
  show ?thesis by (auto simp: eclient_link_def client_dial_def library_ok_def tags_fit_def)
qed

lemma eserver_conn_sent:
  "eserver_conn cr (session_key cr sh) (drawn_iv rs) (server_hello cr rs sh) s ins outs \<Longrightarrow>
    sent (ss_kern (es_base s)) = to_client cr rs sh outs"
  by (simp add: eserver_link_def kern_link_def to_client_def)

lemma eclient_conn_sent:
  "eclient_conn cr (session_key cr sh) (drawn_iv rs) (client_hello cr rs rc sh) s ins outs \<Longrightarrow>
    sent (cs_kern (ec_base s)) = to_server cr rs rc sh outs"
  by (simp add: eclient_link_def kern_link_def to_server_def)

lemma sent_disconnect: "sent (cs_kern (ec_base (EncryptedClientSocket_disconnect env s))) = sent (cs_kern (ec_base s))"
  by (simp add: EncryptedClientSocket_disconnect_def ClientSocket_disconnect_def)

lemma sent_close: "sent (ss_kern (es_base (EncryptedServerSocket_close s))) = sent (ss_kern (es_base s))"
  by (simp add: EncryptedServerSocket_close_def ServerSocket_close_def)

text \<open>The start of the client with a directory it can read.\<close>

lemma client_main_session:
  assumes "length argv = 4" "stoi (argv ! 3) = Inr p" "fs_node fs = Directory es"
    and "connect ''127.0.0.1'' 8080 = Inr s"
    and "client_session ops pops dial g (argv ! 2) p lines
      (\<lparr>pr_fs = fs, pr_log = [''Server started'', ''Connected to index'']\<rparr>, s) = Inr (code, st, s')"
  shows "\<exists>l. client_main ops connect pops dial g lenv argv lines fs = Inr (code, st, Some (s', l))"
  using assms
  by (simp add: client_main_def RFCManager_new_def verify_path_def case_prod_beta Let_def)

section \<open>Directories for the witnesses\<close>

lemma demo_files_one:
  assumes "0 \<le> sint n"
  shows "fst (get_rfcs (pr_fs (demo_files [(rfc_filename n, RegFile ''ip'')]))) = Inr [n]"
    and "stored_text n (pr_fs (demo_files [(rfc_filename n, RegFile ''ip'')])) = Some ''ip''"
  using parse_rfc_filename [OF assms] rfc_filename_no_dots [of n]
  by (simp_all add: demo_files_def get_rfcs_def stored_text_def get_content_def eof_char_def)

lemmas demo_files_791 = demo_files_one [where n = 791, simplified]

end
