(* ===== verification/Network.thy ===== *)
theory Network
  imports System_Sessions
begin

text \<open>
  Several clients that download from each other.  A network is the index and a directory for each
  client; clients join with the files they have, leave, and get RFCs from the first holder the index
  names, after which they are holders themselves.  The steps are those of the programs
  (\<open>download_refines_network\<close>: one command \<open>get\<close>, the rounds of the index that answer it, and the
  handler of the peer); what is shown of them is that a text does not change on its way through any number
  of clients, and that a copy can be got when the client it came from has left.  As the program does, a
  client looks \<open>n\<close> up at the index, stores what it gets under \<open>n\<close> and registers \<open>n\<close>, but asks the holder for
  \<open>asked n\<close>, which is \<open>n\<close> only below 2^15.

  A step stands for a whole exchange; sessions of the index that interleave inside such an exchange are the subject
  of \<open>Server_Threads\<close>.
\<close>

section \<open>The network\<close>

record network =
  nw_index :: CentralIndex
  nw_dirs :: "Client \<Rightarrow> filesys"

definition nw_empty :: "(Client \<Rightarrow> filesys) \<Rightarrow> network" where
  "nw_empty ds = \<lparr>nw_index = CentralIndex_empty, nw_dirs = ds\<rparr>"

definition nw_join :: "Client \<Rightarrow> filesys \<Rightarrow> u32 list \<Rightarrow> network \<Rightarrow> network" where
  "nw_join c fs ns w =
     w\<lparr>nw_index := fold (\<lambda>n ci. snd (add_rfc (host c) (port c) n ci)) ns (snd (add_client (host c) (port c) (nw_index w))),
       nw_dirs := (nw_dirs w)(c := fs)\<rparr>"

definition nw_leave :: "Client \<Rightarrow> network \<Rightarrow> network" where
  "nw_leave c w = w\<lparr>nw_index := snd (remove_client (host c) (port c) (nw_index w))\<rparr>"

text \<open>\<open>c\<close> gets \<open>n\<close> from \<open>d\<close>: \<open>d\<close> reads its file for the number it is asked for, \<open>c\<close> stores the text and tells the index.\<close>

definition nw_get :: "u32 \<Rightarrow> Client \<Rightarrow> Client \<Rightarrow> network \<Rightarrow> network" where
  "nw_get n c d w =
     (case get_content (asked n) (nw_dirs w d) of
        (Inl e, _) \<Rightarrow> w
      | (Inr text, fs) \<Rightarrow>
          w\<lparr>nw_index := snd (add_rfc (host c) (port c) n (nw_index w)),
            nw_dirs := (nw_dirs w)(d := fs, c := snd (rm_add_rfc n text (nw_dirs w c)))\<rparr>)"

text \<open>Texts that the protocol can carry, and that a directory gives back.\<close>

definition plain_text :: "string \<Rightarrow> bool" where
  "plain_text t \<longleftrightarrow> t \<noteq> [] \<and> length t + 9 < 2 ^ 31 \<and> nul \<notin> set t \<and> eof_char \<notin> set t"

definition stores :: "u32 \<Rightarrow> string \<Rightarrow> filesys \<Rightarrow> bool" where
  "stores n t fs \<longleftrightarrow>
     (\<exists>es. fs_node fs = Directory es \<and> fs_readable fs \<and> map_of es (rfc_filename n) = Some (RegFile t))"

text \<open>
  \<open>pub n\<close> is the text that was published for \<open>n\<close>: who joins has no other.  A client can get what its
  directory does not list, as long as it can write there, the number it asks the holder for is positive
  (\<open>large_number_get_undefined\<close>), and the holder has a text for this number (\<open>missing_file_ends_peer\<close>) and a
  descriptor left.
\<close>

definition can_get :: "u32 \<Rightarrow> Client \<Rightarrow> Client \<Rightarrow> network \<Rightarrow> bool" where
  "can_get n c d w \<longleftrightarrow>
     c \<in> set (clients (nw_index w)) \<and> (\<exists>ns. fst (get_rfcs (nw_dirs w c)) = Inr ns \<and> n \<notin> set ns) \<and>
     0 < sint n \<and> 0 < sint (asked n) \<and> (\<exists>ds. find_rfcs n (nw_index w) = d # ds) \<and>
     (\<exists>t. stores (asked n) t (nw_dirs w d)) \<and> 0 < fs_fds (nw_dirs w d) \<and> fs_writable (nw_dirs w c)"

inductive nw_step :: "(u32 \<Rightarrow> string) \<Rightarrow> network \<Rightarrow> network \<Rightarrow> bool" for pub where
  join: "c \<notin> set (clients (nw_index w)) \<Longrightarrow> fst (get_rfcs fs) = Inr ns \<Longrightarrow> distinct ns \<Longrightarrow>
    \<forall>n \<in> set ns. 0 < sint n \<and> stores n (pub n) fs \<Longrightarrow> nw_step pub w (nw_join c fs ns w)"
| get: "can_get n c d w \<Longrightarrow> nw_step pub w (nw_get n c d w)"
| leave: "c \<in> set (clients (nw_index w)) \<Longrightarrow> nw_step pub w (nw_leave c w)"

section \<open>Files\<close>

lemma stores_get_content: "stores n t (snd (get_content m fs)) \<longleftrightarrow> stores n t fs"
  by (auto simp: stores_def get_content_def Let_def split: node.splits option.splits)

lemma get_content_stores:
  assumes "stores n t fs" "0 < fs_fds fs" "eof_char \<notin> set t"
  shows "fst (get_content n fs) = Inr t"
proof -
  have "takeWhile (\<lambda>c. c \<noteq> eof_char) t = t" using assms(3) by (auto simp: takeWhile_eq_all_conv)
  then show ?thesis using assms(1,2) by (auto simp: stores_def get_content_def)
qed

lemma stores_add_rfc:
  assumes "stores m t fs" "m \<noteq> n" "0 \<le> sint m" "0 \<le> sint n"
  shows "stores m t (snd (rm_add_rfc n text fs))"
proof -
  have "rfc_filename m \<noteq> rfc_filename n" using rfc_filename_inj assms(2-4) by blast
  then show ?thesis using assms(1) by (auto simp: stores_def rm_add_rfc_def Let_def map_of_file_write)
qed

lemma stores_new:
  assumes "fst (get_rfcs fs) = Inr ns" "n \<notin> set ns" "0 \<le> sint n" "fs_writable fs" "nul \<notin> set t"
  shows "stores n t (snd (rm_add_rfc n t fs))"
  using get_rfcs_fresh [OF assms(1-3)] assms(4,5)
  by (auto simp: stores_def rm_add_rfc_def map_of_file_write c_string_id)

text \<open>What is stored under a number after another one, or the same, has been stored.\<close>

lemma stores_after_add:
  assumes "stores m t (snd (rm_add_rfc n text fs))" "0 \<le> sint m" "0 \<le> sint n"
  shows "stores m t fs \<or> m = n \<and> t = c_string text"
proof (cases "m = n")
  case True
  with assms(1) show ?thesis by (auto simp: stores_def rm_add_rfc_def Let_def map_of_file_write split: node.splits if_splits)
next
  case False
  then have "rfc_filename m \<noteq> rfc_filename n" using rfc_filename_inj assms(2,3) by blast
  with assms(1) show ?thesis
    by (auto simp: stores_def rm_add_rfc_def Let_def map_of_file_write split: node.splits if_splits)
qed

lemma stores_unique: "stores n t fs \<Longrightarrow> stores n u fs \<Longrightarrow> t = u"
  by (auto simp: stores_def)

lemma stores_not_fresh:
  assumes "fst (get_rfcs fs) = Inr ns" "0 \<le> sint n" "stores n t fs"
  shows "n \<in> set ns"
proof (rule ccontr)
  assume "n \<notin> set ns"
  from get_rfcs_fresh [OF assms(1) this assms(2)] assms(3) show False by (auto simp: stores_def)
qed

section \<open>What every network keeps\<close>

text \<open>
  Whoever is named for a number has a text for it; and every file of a connected client holds the text that
  was published for its number, or for the number that is asked for in its place.
\<close>

definition nw_served :: "network \<Rightarrow> bool" where
  "nw_served w \<longleftrightarrow>
     (\<forall>(n, c) \<in> holds (abs_index (nw_index w)). 0 < sint n \<and> (\<exists>t. stores n t (nw_dirs w c)))"

definition published_only :: "(u32 \<Rightarrow> string) \<Rightarrow> filesys \<Rightarrow> bool" where
  "published_only pub fs \<longleftrightarrow> (\<forall>n t. 0 < sint n \<longrightarrow> stores n t fs \<longrightarrow> t \<in> {pub n, pub (asked n)})"

definition nw_ok :: "(u32 \<Rightarrow> string) \<Rightarrow> network \<Rightarrow> bool" where
  "nw_ok pub w \<longleftrightarrow> index_wf (nw_index w) \<and> nw_served w \<and>
     (\<forall>c \<in> connected (abs_index (nw_index w)). published_only pub (nw_dirs w c))"

lemma nw_okD:
  assumes "nw_ok pub w" "(n, c) \<in> holds (abs_index (nw_index w))"
  shows "0 < sint n" "\<exists>t. stores n t (nw_dirs w c)" "c \<in> connected (abs_index (nw_index w))"
  using assms not_connected_no_holder [of "nw_index w" c n] by (auto simp: nw_ok_def nw_served_def)

lemma nw_ok_published:
  assumes "nw_ok pub w" "c \<in> connected (abs_index (nw_index w))" "0 < sint n" "stores n t (nw_dirs w c)"
  shows "t = pub n \<or> t = pub (asked n)" "sint n < 2 ^ 15 \<Longrightarrow> t = pub n"
proof -
  show 1: "t = pub n \<or> t = pub (asked n)" using assms by (simp add: nw_ok_def published_only_def)
  assume "sint n < 2 ^ 15"
  then have "asked n = n" using assms(3) by (intro asked_small) simp_all
  with 1 show "t = pub n" by simp
qed

lemma connected_iff: "c \<in> connected (abs_index ci) \<longleftrightarrow> c \<in> set (clients ci)"
  by (simp add: abs_index_def)

lemma client_eta [simp]: "\<lparr>host = host c, port = port c\<rparr> = (c :: Client)"
  by simp

lemma fold_add_rfc:
  assumes "c \<in> connected (abs_index ci)" "index_wf ci"
  shows "index_wf (fold (\<lambda>n ci. snd (add_rfc (host c) (port c) n ci)) ns ci) \<and>
    connected (abs_index (fold (\<lambda>n ci. snd (add_rfc (host c) (port c) n ci)) ns ci)) = connected (abs_index ci) \<and>
    holds (abs_index (fold (\<lambda>n ci. snd (add_rfc (host c) (port c) n ci)) ns ci)) =
      holds (abs_index ci) \<union> (\<lambda>n. (n, c)) ` set ns"
  using assms
proof (induction ns arbitrary: ci)
  case (Cons n ns)
  let ?ci = "snd (add_rfc (host c) (port c) n ci)"
  have "abs_index ?ci = (abs_index ci)\<lparr>holds := insert (n, c) (holds (abs_index ci))\<rparr>"
    using Cons.prems(1) by (simp add: abs_index_add_rfc abs_offer_def)
  with Cons.IH [of ?ci] Cons.prems index_wf_add_rfc [OF Cons.prems(2)] show ?case by auto
qed simp

lemma nw_ok_join:
  assumes "nw_ok pub w" "c \<notin> set (clients (nw_index w))" "fst (get_rfcs fs) = Inr ns"
    and "\<forall>n \<in> set ns. 0 < sint n \<and> stores n (pub n) fs"
  shows "nw_ok pub (nw_join c fs ns w)"
proof -
  let ?ci = "snd (add_client (host c) (port c) (nw_index w))"
  have wf: "index_wf (nw_index w)" using assms(1) by (simp add: nw_ok_def)
  have abs: "abs_index ?ci = abs_connect c (abs_index (nw_index w))" by (simp add: abs_index_add_client)
  have none: "(n, c) \<notin> holds (abs_index (nw_index w))" for n
    using not_connected_no_holder [OF wf] assms(2) by (simp add: connected_iff)
  have own: "published_only pub fs"
    unfolding published_only_def
  proof (intro allI impI)
    fix n t assume n: "0 < sint n" and t: "stores n t fs"
    have "n \<in> set ns" using stores_not_fresh [OF assms(3) _ t] n by simp
    with stores_unique [OF t] assms(4) have "t = pub n" by blast
    then show "t \<in> {pub n, pub (asked n)}" by simp
  qed
  let ?w = "nw_join c fs ns w"
  note f = fold_add_rfc [of c ?ci ns] index_wf_add_client [OF wf] abs
  have con: "connected (abs_index (nw_index ?w)) = insert c (connected (abs_index (nw_index w)))"
      "holds (abs_index (nw_index ?w)) = holds (abs_index (nw_index w)) \<union> (\<lambda>n. (n, c)) ` set ns" "index_wf (nw_index ?w)"
    using f by (simp_all add: nw_join_def abs_connect_def)
  have "0 < sint n \<and> (\<exists>t. stores n t (nw_dirs ?w d))" if "(n, d) \<in> holds (abs_index (nw_index ?w))" for n d
  proof (cases "d = c")
    case True
    then have "n \<in> set ns" using that none con(2) by auto
    then show ?thesis using assms(4) True by (auto simp: nw_join_def)
  next
    case False
    then have "(n, d) \<in> holds (abs_index (nw_index w))" using that con(2) by auto
    then show ?thesis using nw_okD(1,2) [OF assms(1)] False by (simp add: nw_join_def)
  qed
  moreover have "published_only pub (nw_dirs ?w d)" if "d \<in> connected (abs_index (nw_index ?w))" for d
    using that own assms(1) con(1) by (auto simp: nw_join_def nw_ok_def)
  ultimately show ?thesis using con(3) by (auto simp: nw_ok_def nw_served_def)
qed

lemma abs_index_leave:
  assumes "index_wf ci"
  shows "abs_index (snd (remove_client (host c) (port c) ci)) = abs_disconnect c (abs_index ci)"
  using assms abs_index_remove_client [of ci "host c" "port c"] by (simp add: index_wf_def lists_wf_def)

lemma nw_ok_leave:
  assumes "nw_ok pub w"
  shows "nw_ok pub (nw_leave c w)"
proof -
  have wf: "index_wf (nw_index w)" using assms by (simp add: nw_ok_def)
  show ?thesis
    using assms index_wf_remove_client [OF wf] abs_index_leave [OF wf, of c]
    by (auto simp: nw_ok_def nw_served_def nw_leave_def abs_disconnect_def)
qed

text \<open>A get that can be done gives the text published for the number that is asked for.\<close>

lemma can_getD:
  assumes "can_get n c d w"
  obtains ns ds t where "c \<in> set (clients (nw_index w))" "fst (get_rfcs (nw_dirs w c)) = Inr ns" "n \<notin> set ns"
    "0 < sint n" "0 < sint (asked n)" "find_rfcs n (nw_index w) = d # ds" "stores (asked n) t (nw_dirs w d)"
    "0 < fs_fds (nw_dirs w d)" "fs_writable (nw_dirs w c)"
  using assms unfolding can_get_def by (elim conjE exE) (rule that; assumption)

lemma can_get_text:
  assumes "nw_ok pub w" "plain_text (pub (asked n))" "can_get n c d w"
  shows "fst (get_content (asked n) (nw_dirs w d)) = Inr (pub (asked n))" "c \<noteq> d"
    "(n, c) \<notin> holds (abs_index (nw_index w))" "d \<in> connected (abs_index (nw_index w))"
proof -
  from assms(3) obtain ns ds t where get: "fst (get_rfcs (nw_dirs w c)) = Inr ns" "n \<notin> set ns" "0 < sint n"
      "0 < sint (asked n)" "find_rfcs n (nw_index w) = d # ds" "stores (asked n) t (nw_dirs w d)" "0 < fs_fds (nw_dirs w d)"
    by (rule can_getD)
  have "d \<in> set (find_rfcs n (nw_index w))" using get(5) by simp
  then have d: "(n, d) \<in> holds (abs_index (nw_index w))" by (simp add: set_find_rfcs)
  show con: "d \<in> connected (abs_index (nw_index w))" using nw_okD(3) [OF assms(1) d] .
  have "t = pub (asked n)" using nw_ok_published(2) [OF assms(1) con get(4,6)] asked_less by simp
  then show "fst (get_content (asked n) (nw_dirs w d)) = Inr (pub (asked n))"
    using get_content_stores [OF get(6,7)] assms(2) by (simp add: plain_text_def)
  show none: "(n, c) \<notin> holds (abs_index (nw_index w))"
    using stores_not_fresh [OF get(1)] nw_okD(1,2) [OF assms(1)] get(2,3) by (meson less_imp_le)
  with d show "c \<noteq> d" by blast
qed

lemma nw_get_eq:
  assumes "nw_ok pub w" "plain_text (pub (asked n))" "can_get n c d w"
  shows "nw_get n c d w = w\<lparr>nw_index := snd (add_rfc (host c) (port c) n (nw_index w)),
      nw_dirs := (nw_dirs w)(d := snd (get_content (asked n) (nw_dirs w d)),
        c := snd (rm_add_rfc n (pub (asked n)) (nw_dirs w c)))\<rparr>"
  using can_get_text(1) [OF assms] by (auto simp: nw_get_def split: prod.split sum.split)

lemma nw_get_index:
  assumes "nw_ok pub w" "plain_text (pub (asked n))" "can_get n c d w"
  shows "abs_index (nw_index (nw_get n c d w)) =
      (abs_index (nw_index w))\<lparr>holds := insert (n, c) (holds (abs_index (nw_index w)))\<rparr>"
    and "index_wf (nw_index (nw_get n c d w))"
  using assms index_wf_add_rfc [of "nw_index w"]
  by (simp_all add: nw_get_eq [OF assms] abs_index_add_rfc abs_offer_def connected_iff can_get_def nw_ok_def)

lemma nw_get_stores:
  assumes "nw_ok pub w" "plain_text (pub (asked n))" "can_get n c d w"
  shows "stores n (pub (asked n)) (nw_dirs (nw_get n c d w) c)"
proof -
  obtain ns where get: "fst (get_rfcs (nw_dirs w c)) = Inr ns" "n \<notin> set ns" "0 < sint n" "fs_writable (nw_dirs w c)"
    using can_getD [OF assms(3)] by blast
  then show ?thesis using assms(2) stores_new [OF get(1,2) _ get(4)] by (simp add: nw_get_eq [OF assms] plain_text_def)
qed

lemma nw_get_text:
  assumes "nw_ok pub w" "plain_text (pub (asked n))" "can_get n c d w"
  shows "stored_text n (nw_dirs (nw_get n c d w) c) = Some (pub (asked n))"
proof -
  obtain ns where get: "fst (get_rfcs (nw_dirs w c)) = Inr ns" "n \<notin> set ns" "0 \<le> sint n" "fs_writable (nw_dirs w c)"
    using can_getD [OF assms(3)] by (metis less_imp_le)
  obtain es where dir: "fs_node (nw_dirs w c) = Directory es" "fs_readable (nw_dirs w c)" "0 < fs_fds (nw_dirs w c)"
      "map_of es (rfc_filename n) \<noteq> Some SubDir"
    using get_rfcs_fresh [OF get(1-3)] by auto
  have "fst (get_content n (snd (rm_add_rfc n (pub (asked n)) (nw_dirs w c)))) = Inr (pub (asked n))"
    using get_content_after_add [OF dir(1,2) get(4) dir(3,4)] assms(2) by (simp add: plain_text_def)
  then show ?thesis by (simp add: nw_get_eq [OF assms] stored_text_def)
qed

lemma nw_ok_get:
  assumes "nw_ok pub w" "plain_text (pub (asked n))" "can_get n c d w"
  shows "nw_ok pub (nw_get n c d w)"
proof -
  have n: "0 < sint n" using assms(3) by (simp add: can_get_def)
  note eq = nw_get_eq [OF assms] and index = nw_get_index [OF assms]
  have str: "c_string (pub (asked n)) = pub (asked n)" using assms(2) by (simp add: plain_text_def c_string_id)
  let ?w = "nw_get n c d w"
  have old: "stores m t (nw_dirs w x) \<or> x = c \<and> m = n \<and> t = pub (asked n)"
    if "stores m t (nw_dirs ?w x)" "0 < sint m" for m t x
  proof (cases "x = c")
    case True
    then have "stores m t (snd (rm_add_rfc n (pub (asked n)) (nw_dirs w c)))" using that(1) by (simp add: eq)
    from stores_after_add [OF this] that(2) n True str show ?thesis by auto
  next
    case False
    with that(1) show ?thesis by (auto simp: eq stores_get_content split: if_splits)
  qed
  have served: "0 < sint m \<and> (\<exists>t. stores m t (nw_dirs ?w x))" if "(m, x) \<in> holds (abs_index (nw_index ?w))" for m x
  proof (cases "(m, x) = (n, c)")
    case True
    then show ?thesis using n nw_get_stores [OF assms] by auto
  next
    case False
    then have m: "(m, x) \<in> holds (abs_index (nw_index w))" using that by (auto simp: index(1))
    then obtain t where t: "0 < sint m" "stores m t (nw_dirs w x)" using nw_okD(1,2) [OF assms(1)] by blast
    have "stores m t (nw_dirs ?w x)"
    proof (cases "x = c")
      case True
      then have "m \<noteq> n" using False by simp
      with t n True show ?thesis by (simp add: eq stores_add_rfc)
    next
      case False
      with t(2) show ?thesis by (auto simp: eq stores_get_content)
    qed
    with t(1) show ?thesis by blast
  qed
  have "published_only pub (nw_dirs ?w x)" if "x \<in> connected (abs_index (nw_index ?w))" for x
    unfolding published_only_def
  proof (intro allI impI)
    fix m t assume m: "0 < sint m" and t: "stores m t (nw_dirs ?w x)"
    have "x \<in> connected (abs_index (nw_index w))" using that by (simp add: index(1))
    from nw_ok_published(1) [OF assms(1) this m] old [OF t m] show "t \<in> {pub m, pub (asked m)}" by blast
  qed
  with served index(2) show ?thesis by (auto simp: nw_ok_def nw_served_def)
qed

lemma nw_ok_reachable:
  assumes "(nw_step pub)\<^sup>*\<^sup>* (nw_empty ds) w" "\<forall>n. plain_text (pub n)"
  shows "nw_ok pub w"
  using assms(1)
proof (induction rule: rtranclp_induct)
  case base
  show ?case using index_wf_empty by (simp add: nw_ok_def nw_served_def nw_empty_def abs_index_def CentralIndex_empty_def)
next
  case (step w w')
  from step.hyps(2) step.IH assms(2) show ?case
    by (cases rule: nw_step.cases) (auto intro: nw_ok_join nw_ok_get nw_ok_leave)
qed

section \<open>Properties\<close>

text \<open>
  C5. The programs do what the network says.  A client of a network types \<open>get\<close> with a number that the network
  lets it get; the first holder accepts its connection.  If each end of the two connections receives what the
  other one sends, then the command returns, the loop of the client's handler at the index has come past the
  two requests, and the handler of the holder has returned; and index and directories are those of \<open>nw_get\<close>.
  The number may be larger than a \<open>short\<close>: what is looked up, stored and registered is \<open>n\<close>, what is
  transferred is the text for \<open>asked n\<close>, by the program as by \<open>nw_get\<close>.
\<close>

theorem download_refines_network:
  assumes "nw_ok pub w" "plain_text (pub (asked n))" "can_get n c d w" "c = \<lparr>host = h, port = p\<rparr>"
    and "sendable (nw_index w)" "\<forall>e \<in> set (find_rfcs n (nw_index w)). nul \<notin> set (host e)"
    and "nul \<notin> set h" "length h + 1 < 2 ^ 31"
    and "sv_index sst = nw_index w" "pr_fs cst = nw_dirs w c" "pr_fs pst = nw_dirs w d"
    and "rs = [Ask_lookup n, Ask_add n]"
    and "eclient_conn cr key iv pre sc (fst (answers g' h p rs (nw_index w))) []"
    and "eserver_conn cr key iv pre' ss (concat (map request_blocks rs)) []"
    and "dial (host d) (ucast (port d)) = Inr sp" "t = get_wire g' (Some (pub (asked n)))"
    and "eclient_conn cr kp ivp prep sp [wire32 (ulen t), t] []"
    and "eserver_conn cr kp ivp prep' sps (identity_blocks h p @ [wire32 1, wire16 (ucast n), wire32 2]) []"
  shows "\<exists>cst' sc' sst' ss' pst' sps' k.
    run_command (eclient_ops cr g env) (eclient_ops cr g env) dial g h p (''get '' @ dec_int (sint n)) (cst, sc) =
      Inr (cst', sc') \<and>
    eclient_conn cr key iv pre sc' [] (concat (map request_blocks rs)) \<and>
    serve_loop (eserver_ops cr g') g' h p m (sst, ss) = serve_loop (eserver_ops cr g') g' h p k (sst', ss') \<and>
    eserver_conn cr key iv pre' ss' [] (fst (answers g' h p rs (nw_index w))) \<and>
    peer_handler (eserver_ops cr g') g' pst sps = Inr (True, pst', sps') \<and>
    eserver_conn cr kp ivp prep' sps' [] [wire32 (ulen t), t] \<and>
    sv_index sst' = nw_index (nw_get n c d w) \<and> pr_fs cst' = nw_dirs (nw_get n c d w) c \<and>
    pr_fs pst' = nw_dirs (nw_get n c d w) d"
proof -
  let ?text = "pub (asked n)"
  obtain ns ds u where get: "c \<in> set (clients (nw_index w))" "fst (get_rfcs (nw_dirs w c)) = Inr ns" "n \<notin> set ns"
      "0 < sint n" "0 < sint (asked n)" "find_rfcs n (nw_index w) = d # ds" "stores (asked n) u (nw_dirs w d)"
      "0 < fs_fds (nw_dirs w d)" "fs_writable (nw_dirs w c)"
    by (rule can_getD [OF assms(3)])
  note found = can_get_text [OF assms(1-3)] and step = nw_get_eq [OF assms(1-3)]
  obtain es where dir: "fs_node (nw_dirs w c) = Directory es" "fs_readable (nw_dirs w c)" "0 < fs_fds (nw_dirs w c)"
      "map_of es (rfc_filename n) \<noteq> Some SubDir"
    using get_rfcs_fresh [OF get(2,3)] get(4) by auto
  have body: "?text \<noteq> []" "length ?text + 9 < 2 ^ 31" "nul \<notin> set ?text" "eof_char \<notin> set ?text"
    using assms(2) by (simp_all add: plain_text_def)
  have stored: "stored_text (asked n) (pr_fs pst) = Some ?text" using found(1) assms(11) by (simp add: stored_text_def)
  from download [where dial = dial and peer_of = d, OF assms(17,18,16) stored assms(15) get(5) assms(7,8) body
      dir(1) [folded assms(10)] dir(2) [folded assms(10)] get(9) [folded assms(10)] dir(3) [folded assms(10)] dir(4), of g env]
  obtain cst' sp' pst' sps' where d: "get_from_peer (eclient_ops cr g env) dial g h p n d cst =
        Inr (True, cst', EncryptedClientSocket_disconnect env sp')"
      "peer_handler (eserver_ops cr g') g' pst sps = Inr (True, pst', sps')"
      "eserver_conn cr kp ivp prep' sps' [] [wire32 (ulen t), t]"
      "pr_fs cst' = snd (rm_add_rfc n ?text (pr_fs cst))" "pr_fs pst' = snd (get_content (asked n) (pr_fs pst))"
    by blast
  let ?l = "lookup_wire g' (d # ds)"
  have "fst (add_rfc h p n (nw_index w))"
    using found(3) get(1) assms(4) by (simp add: add_rfc_result connected_iff)
  then have ans: "fst (answers g' h p rs (nw_index w)) = [wire32 (ulen ?l), ?l, wire32 200]"
      "snd (answers g' h p rs (nw_index w)) = snd (add_rfc h p n (nw_index w))"
    using assms(12) get(6) by (simp_all add: case_prod_beta)
  have ok: "hosts_ok (d # ds)" "length (clients_wire (d # ds)) + 9 < 2 ^ 31" "\<forall>e \<in> set (d # ds). nul \<notin> set (host e)"
    using sendable_lookup [OF assms(5), of n] assms(6) get(6) by simp_all
  from eclient_sock.client_get_rfc_conn [OF assms(13) [unfolded ans(1)] get(2) [folded assms(10)] get(4,3) refl ok d(1)]
  obtain sc' where cl: "client_get_rfc (eclient_ops cr g env) (eclient_ops cr g env) dial g n h p (cst, sc) = Inr (cst', sc')"
      "eclient_conn cr key iv pre sc' [] (concat (map request_blocks rs))"
    using assms(12) by auto
  have "list_all proper rs" "all_sendable g' h p rs (sv_index sst)"
    using assms(5,9,12) by (simp_all add: case_prod_beta)
  from eserver_sock.serve_loop_requests [where st = sst, OF _ this, of cr key iv pre' ss "[]" "[]" g' m] assms(14)
  obtain k sst' ss' where sv: "serve_loop (eserver_ops cr g') g' h p m (sst, ss) = serve_loop (eserver_ops cr g') g' h p k (sst', ss')"
      "sv_index sst' = snd (answers g' h p rs (nw_index w))"
      "eserver_conn cr key iv pre' ss' [] (fst (answers g' h p rs (nw_index w)))"
    unfolding assms(9) by auto
  have "run_command (eclient_ops cr g env) (eclient_ops cr g env) dial g h p (''get '' @ dec_int (sint n)) (cst, sc) = Inr (cst', sc')"
    unfolding run_command_get [OF get(4)] by (rule cl(1))
  moreover have "sv_index sst' = nw_index (nw_get n c d w)" "pr_fs cst' = nw_dirs (nw_get n c d w) c"
      "pr_fs pst' = nw_dirs (nw_get n c d w) d"
    unfolding step using sv(2) ans(2) d(4,5) assms(4,10,11) found(2) by simp_all
  ultimately show ?thesis using cl(2) sv(1,3) d(2,3) by blast
qed


text \<open>
  C18. A copy outlives its origin.  If one client \<open>d\<close> alone holds a number below 2^15, another one gets it and
  \<open>d\<close> leaves, then the index names the second one, a third client can get the number from it, and has the
  published text after that.
\<close>

theorem replica_outlives_origin:
  assumes "(nw_step pub)\<^sup>*\<^sup>* (nw_empty dirs) w" "\<forall>n. plain_text (pub n)" "sint n < 2 ^ 15"
    and "find_rfcs n (nw_index w) = [d]" "can_get n c d w"
    and "e \<notin> {c, d}" "e \<in> set (clients (nw_index w))" "fst (get_rfcs (nw_dirs w e)) = Inr ns" "n \<notin> set ns"
    and "fs_writable (nw_dirs w e)" "0 < fs_fds (nw_dirs w c)"
    and "w' = nw_leave d (nw_get n c d w)" "w'' = nw_get n e c w'"
  shows "(nw_step pub)\<^sup>*\<^sup>* w w'' \<and> d \<notin> set (clients (nw_index w'')) \<and> find_rfcs n (nw_index w') = [c] \<and>
    stored_text n (nw_dirs w'' e) = Some (pub n) \<and> set (find_rfcs n (nw_index w'')) = {c, e}"
proof -
  let ?w1 = "nw_get n c d w"
  have small: "asked n = n" using assms(3,5) by (intro asked_small) (simp_all add: can_get_def)
  have pub: "plain_text (pub (asked n))" using assms(2) by blast
  note ok = nw_ok_reachable [OF assms(1,2)]
  note get1 = nw_get_index [OF ok pub assms(5)] and ok1 = nw_ok_get [OF ok pub assms(5)]
  have d: "d \<in> set (clients (nw_index ?w1))" "d \<noteq> c"
    using can_get_text(2,4) [OF ok pub assms(5)] get1(1) by (auto simp flip: connected_iff)
  have ok2: "nw_ok pub w'" using nw_ok_leave [OF ok1] assms(12) by simp
  have abs2: "abs_index (nw_index w') = abs_disconnect d (abs_index (nw_index ?w1))"
    using abs_index_leave [OF get1(2), of d] assms(12) by (simp add: nw_leave_def)
  have "set (find_rfcs n (nw_index w')) = {c}"
    using set_find_rfcs [of n "nw_index w"] assms(4) d(2)
    by (auto simp: set_find_rfcs abs2 abs_disconnect_def get1(1))
  moreover have "sorted_wrt (<) (find_rfcs n (nw_index w'))"
    using ok2 by (intro find_rfcs_sorted) (simp add: nw_ok_def index_wf_def)
  ultimately have found: "find_rfcs n (nw_index w') = [c]"
    by (intro strict_sorted_equal) simp_all
  have dirs: "nw_dirs w' e = nw_dirs w e" "0 < fs_fds (nw_dirs w' c)"
    using assms(6,11,12) by (auto simp: nw_leave_def nw_get_eq [OF ok pub assms(5)] rm_add_rfc_def Let_def split: node.splits)
  have there: "stores (asked n) (pub n) (nw_dirs w' c)"
    using nw_get_stores [OF ok pub assms(5)] assms(12) by (simp add: small nw_leave_def)
  have "e \<in> set (clients (nw_index w'))"
    using assms(6,7) by (simp add: abs2 abs_disconnect_def get1(1) flip: connected_iff)
  then have get2: "can_get n e c w'"
    using assms(5,8-10) found dirs there by (auto simp: can_get_def)
  have "nw_step pub w ?w1" using assms(5) by (rule nw_step.get)
  moreover have "nw_step pub ?w1 w'" using nw_step.leave [OF d(1)] assms(12) by simp
  moreover have "nw_step pub w' w''" using nw_step.get [OF get2] assms(13) by simp
  ultimately have steps: "(nw_step pub)\<^sup>*\<^sup>* w w''" by (meson converse_rtranclp_into_rtranclp rtranclp.rtrancl_refl)
  note get3 = nw_get_index [OF ok2 pub get2, folded assms(13)]
  have "d \<notin> set (clients (nw_index w''))"
    by (simp add: get3(1) abs2 abs_disconnect_def flip: connected_iff)
  moreover have "set (find_rfcs n (nw_index w'')) = {c, e}"
    using set_find_rfcs [of n "nw_index w'"] found by (auto simp: set_find_rfcs get3(1))
  moreover have "stored_text n (nw_dirs w'' e) = Some (pub n)"
    using nw_get_text [OF ok2 pub get2] assms(13) small by simp
  ultimately show ?thesis using steps found by blast
qed

text \<open>A small network: \<open>b\<close> brings RFC 791, \<open>a\<close> and \<open>c\<close> join with nothing.\<close>

abbreviation client_a :: Client where "client_a \<equiv> \<lparr>host = ''a'', port = 1\<rparr>"
abbreviation client_b :: Client where "client_b \<equiv> \<lparr>host = ''b'', port = 2\<rparr>"
abbreviation client_c :: Client where "client_c \<equiv> \<lparr>host = ''c'', port = 3\<rparr>"

definition demo_brought :: filesys where
  "demo_brought = pr_fs (demo_files [(rfc_filename 791, RegFile ''ip'')])"

definition demo_nothing :: filesys where
  "demo_nothing = pr_fs (demo_files [])"

definition demo_nw :: network where
  "demo_nw = nw_join client_c demo_nothing [] (nw_join client_a demo_nothing []
     (nw_join client_b demo_brought [791] (nw_empty (\<lambda>_. demo_nothing))))"

lemma demo_nothing_listed: "fst (get_rfcs demo_nothing) = Inr []"
  by (simp add: demo_nothing_def demo_files_def get_rfcs_def int_order.cpp_sort_id)

lemma demo_nw_index:
  "nw_index demo_nw = \<lparr>clients = [client_b, client_a, client_c], rfcs = [\<lparr>rfc = 791, peer = client_b\<rparr>]\<rparr>"
  by (simp add: demo_nw_def nw_join_def nw_empty_def demo_session_simps)

lemma demo_nw_dirs:
  "nw_dirs demo_nw client_b = demo_brought" "nw_dirs demo_nw client_a = demo_nothing" "nw_dirs demo_nw client_c = demo_nothing"
  by (simp_all add: demo_nw_def nw_join_def nw_empty_def)

lemma demo_published: "\<forall>n. plain_text ((\<lambda>_ :: u32. ''ip'') n)"
  by (simp add: plain_text_def nul_def eof_char_def)

lemma demo_nw_reachable: "(nw_step (\<lambda>_. ''ip''))\<^sup>*\<^sup>* (nw_empty (\<lambda>_. demo_nothing)) demo_nw"
proof -
  let ?w0 = "nw_empty (\<lambda>_. demo_nothing)"
  let ?w1 = "nw_join client_b demo_brought [791] ?w0"
  let ?w2 = "nw_join client_a demo_nothing [] ?w1"
  have stored: "\<forall>n \<in> set [791 :: u32]. 0 < sint n \<and> stores n ''ip'' demo_brought"
    by (simp add: stores_def demo_brought_def demo_files_def)
  have "nw_step (\<lambda>_. ''ip'') ?w0 ?w1"
    using nw_step.join [OF _ demo_files_791(1) [folded demo_brought_def] _ stored, of client_b ?w0]
    by (simp add: nw_empty_def CentralIndex_empty_def)
  moreover have "nw_step (\<lambda>_. ''ip'') ?w1 ?w2"
    using nw_step.join [OF _ demo_nothing_listed, of client_a ?w1 "\<lambda>_. ''ip''"]
    by (simp add: nw_join_def nw_empty_def demo_session_simps)
  moreover have "nw_step (\<lambda>_. ''ip'') ?w2 demo_nw"
    using nw_step.join [OF _ demo_nothing_listed, of client_c ?w2 "\<lambda>_. ''ip''"]
    by (simp add: demo_nw_def) (simp add: nw_join_def nw_empty_def demo_session_simps)
  ultimately show ?thesis by (meson rtranclp.rtrancl_refl rtranclp.rtrancl_into_rtrancl)
qed

lemma asked_791 [simp]: "asked 791 = 791"
  by simp

lemma demo_can_get: "can_get 791 client_a client_b demo_nw"
  using demo_nothing_listed
  by (simp add: can_get_def demo_nw_index demo_nw_dirs find_rfcs_def)
    (simp add: demo_brought_def demo_nothing_def demo_files_def stores_def)


theorem replica_outlives_origin_witness:
  "let w' = nw_leave client_b (nw_get 791 client_a client_b demo_nw); w'' = nw_get 791 client_c client_a w'
   in (nw_step (\<lambda>_. ''ip''))\<^sup>*\<^sup>* demo_nw w'' \<and> client_b \<notin> set (clients (nw_index w'')) \<and>
      stored_text 791 (nw_dirs w'' client_c) = Some ''ip''"
proof -
  have "sint (791 :: u32) < 2 ^ 15" "find_rfcs 791 (nw_index demo_nw) = [client_b]"
    by (simp_all add: demo_nw_index find_rfcs_def)
  moreover have "client_c \<notin> {client_a, client_b}" "client_c \<in> set (clients (nw_index demo_nw))"
    "fst (get_rfcs (nw_dirs demo_nw client_c)) = Inr []" "(791 :: u32) \<notin> set []"
    using demo_nothing_listed by (simp_all add: demo_nw_index demo_nw_dirs)
  moreover have "fs_writable (nw_dirs demo_nw client_c)" "0 < fs_fds (nw_dirs demo_nw client_a)"
    by (simp_all add: demo_nw_dirs) (simp_all add: demo_nothing_def demo_files_def)
  ultimately show ?thesis
    unfolding Let_def
    using replica_outlives_origin [OF demo_nw_reachable demo_published _ _ demo_can_get _ _ _ _ _ _ refl refl, of client_c "[]"]
    by blast
qed

theorem download_refines_network_witness:
  "\<exists>cst' sc' sst' ss' pst' sps' k.
    run_command demo_ops demo_ops (\<lambda>_ _. Inr (demo_end [wire32 (ulen (get_wire (\<lambda>_. 9) (Some ''ip''))), get_wire (\<lambda>_. 9) (Some ''ip'')]))
        (\<lambda>_. 0) ''a'' 1 (''get '' @ dec_int (sint (791 :: u32)))
        (demo_files [], demo_end (fst (answers (\<lambda>_. 9) ''a'' 1 [Ask_lookup 791, Ask_add 791] (nw_index demo_nw)))) =
      Inr (cst', sc') \<and>
    serve_loop (eserver_ops demo_crypto (\<lambda>_. 9)) (\<lambda>_. 9) ''a'' 1 0 (\<lparr>sv_index = nw_index demo_nw, sv_log = []\<rparr>,
        demo_peer (concat (map request_blocks [Ask_lookup 791, Ask_add 791]))) =
      serve_loop (eserver_ops demo_crypto (\<lambda>_. 9)) (\<lambda>_. 9) ''a'' 1 k (sst', ss') \<and>
    peer_handler (eserver_ops demo_crypto (\<lambda>_. 9)) (\<lambda>_. 9) (demo_files [(rfc_filename 791, RegFile ''ip'')])
        (demo_peer (identity_blocks ''a'' 1 @ [wire32 1, wire16 (ucast (791 :: u32)), wire32 2])) = Inr (True, pst', sps') \<and>
    sv_index sst' = nw_index (nw_get 791 client_a client_b demo_nw) \<and>
    pr_fs cst' = nw_dirs (nw_get 791 client_a client_b demo_nw) client_a"
proof -
  note ok = nw_ok_reachable [OF demo_nw_reachable demo_published]
  have s: "sendable (nw_index demo_nw)" by (simp add: demo_nw_index demo_session_simps)
  have hosts: "\<forall>e \<in> set (find_rfcs 791 (nw_index demo_nw)). nul \<notin> set (host e)"
    by (simp add: demo_nw_index find_rfcs_def nul_def)
  have h: "nul \<notin> set ''a''" "length ''a'' + 1 < 2 ^ 31" by (simp_all add: nul_def)
  have st: "sv_index \<lparr>sv_index = nw_index demo_nw, sv_log = []\<rparr> = nw_index demo_nw"
      "pr_fs (demo_files []) = nw_dirs demo_nw client_a"
      "pr_fs (demo_files [(rfc_filename 791, RegFile ''ip'')]) = nw_dirs demo_nw client_b"
    by (simp_all add: demo_nw_dirs demo_nothing_def demo_brought_def)
  from download_refines_network [where g' = "\<lambda>_. 9" and g = "\<lambda>_. 0" and env = "demo_env no_kern" and m = 0
      and dial = "\<lambda>_ _. Inr (demo_end [wire32 (ulen (get_wire (\<lambda>_. 9) (Some ''ip''))), get_wire (\<lambda>_. 9) (Some ''ip'')])",
      OF ok spec [OF demo_published] demo_can_get refl s hosts h st refl demo_end_conn demo_peer_conn refl refl demo_end_conn demo_peer_conn]
  show ?thesis by blast
qed

end
