(* ===== verification/Central_Index_Steps.thy ===== *)
theory Central_Index_Steps
  imports Central_Index
begin

text \<open>
  The central index under concurrent sessions.  The server runs one thread per connection, and
  the threads share the index.  A session connects (\<open>add_client\<close>), offers RFCs (\<open>add_rfc\<close>) and
  leaves (\<open>remove_client\<close>).  \<open>add_client\<close> and \<open>add_rfc\<close> hold their mutexes from the first read to
  the last write, so each is one step.  \<open>remove_client\<close> has two critical sections, \<open>rfcs_mut\<close> and
  then \<open>clients_mut\<close>, with no lock held in between, so it is two steps and other sessions can run
  in the gap.  LIST and LOOKUP only read.  The mutexes themselves are the subject of \<open>Index_Locks\<close>.
\<close>

section \<open>Sessions and steps\<close>

datatype phase = Waiting | Serving Client | Removing Client | Ended

record world =
  shared :: CentralIndex
  phase_of :: "nat \<Rightarrow> phase"

definition world_init :: world where
  "world_init = \<lparr>shared = CentralIndex_empty, phase_of = (\<lambda>_. Waiting)\<rparr>"

inductive session_step :: "world \<Rightarrow> world \<Rightarrow> bool" where
  connect: "phase_of w i = Waiting \<Longrightarrow>
    session_step w (w\<lparr>shared := snd (add_client (host c) (port c) (shared w)),
                      phase_of := (phase_of w)(i := Serving c)\<rparr>)"
| offer: "phase_of w i = Serving c \<Longrightarrow>
    session_step w (w\<lparr>shared := snd (add_rfc (host c) (port c) n (shared w))\<rparr>)"
| unlist: "phase_of w i = Serving c \<Longrightarrow>
    session_step w (w\<lparr>shared := remove_client_rfcs (host c) (port c) (shared w),
                      phase_of := (phase_of w)(i := Removing c)\<rparr>)"
| leave: "phase_of w i = Removing c \<Longrightarrow>
    session_step w (w\<lparr>shared := remove_client_entry (host c) (port c) (shared w),
                      phase_of := (phase_of w)(i := Ended)\<rparr>)"

inductive reachable :: "(world \<Rightarrow> world \<Rightarrow> bool) \<Rightarrow> world \<Rightarrow> bool" for step where
  start: "reachable step world_init"
| onward: "reachable step w \<Longrightarrow> step w w' \<Longrightarrow> reachable step w'"

definition active :: "world \<Rightarrow> nat \<Rightarrow> Client \<Rightarrow> bool" where
  "active w i c \<longleftrightarrow> phase_of w i = Serving c \<or> phase_of w i = Removing c"

text \<open>No two sessions use the same host and port at the same time.\<close>

definition unique_ids :: "world \<Rightarrow> bool" where
  "unique_ids w \<longleftrightarrow> (\<forall>i j c. active w i c \<longrightarrow> active w j c \<longrightarrow> i = j)"

definition unique_step :: "world \<Rightarrow> world \<Rightarrow> bool" where
  "unique_step w w' \<longleftrightarrow> session_step w w' \<and> unique_ids w'"

inductive_cases session_stepE: "session_step w w'"

section \<open>What every interleaving keeps\<close>

lemma Client_collapse [simp]: "\<lparr>host = host c, port = port c\<rparr> = (c :: Client)"
  by simp

lemma lists_wf_step: "session_step w w' \<Longrightarrow> lists_wf (shared w) \<Longrightarrow> lists_wf (shared w')"
  by (induction rule: session_step.induct)
    (simp_all add: lists_wf_add_client lists_wf_add_rfc lists_wf_remove_rfcs lists_wf_remove_entry)

lemma reachable_lists_wf: "reachable session_step w \<Longrightarrow> lists_wf (shared w)"
proof (induction rule: reachable.induct)
  case start
  show ?case using index_wf_empty by (simp add: world_init_def index_wf_def)
next
  case (onward w w')
  then show ?case by (blast intro: lists_wf_step)
qed

lemma set_add_rfc:
  "set (rfcs (snd (add_rfc (host c) (port c) n ci))) =
     (if c \<in> set (clients ci) then insert \<lparr>rfc = n, peer = c\<rparr> (set (rfcs ci)) else set (rfcs ci))"
  by (auto simp: add_rfc_def index_simps Let_def)

lemma clients_add_rfc [simp]: "clients (snd (add_rfc h p n ci)) = clients ci"
  by (simp add: add_rfc_def index_simps Let_def)

lemma rfcs_add_client [simp]: "rfcs (snd (add_client h p ci)) = rfcs ci"
  by (simp add: add_client_def)

lemma set_clients_add_client:
  "set (clients (snd (add_client (host c) (port c) ci))) = insert c (set (clients ci))"
  by (auto simp: add_client_def index_simps)

lemma rfcs_remove_client_rfcs:
  "rfcs (remove_client_rfcs (host c) (port c) ci) = filter (\<lambda>r. peer r \<noteq> c) (rfcs ci)"
  by (simp add: remove_client_rfcs_def index_simps)

lemma clients_remove_client_rfcs [simp]: "clients (remove_client_rfcs h p ci) = clients ci"
  by (simp add: remove_client_rfcs_def)

lemma clients_remove_client_entry:
  "clients (remove_client_entry (host c) (port c) ci) = remove1 c (clients ci)"
  by (simp add: remove_client_entry_def index_simps)

lemma rfcs_remove_client_entry [simp]: "rfcs (remove_client_entry h p ci) = rfcs ci"
  by (simp add: remove_client_entry_def)

lemmas shared_simps = set_add_rfc set_clients_add_client rfcs_remove_client_rfcs
  clients_remove_client_entry

text \<open>
  Everything in the index belongs to a session that is still there: a holder to one that is
  serving, a client to one that has not finished leaving.
\<close>

definition owned :: "world \<Rightarrow> bool" where
  "owned w \<longleftrightarrow>
     (\<forall>r \<in> set (rfcs (shared w)). \<exists>i. phase_of w i = Serving (peer r)) \<and>
     (\<forall>c \<in> set (clients (shared w)). \<exists>i. active w i c)"

lemma owned_moveI:
  assumes "\<And>r. r \<in> set (rfcs ci') \<Longrightarrow> \<exists>j. j \<noteq> i \<and> phase_of w j = Serving (peer r) \<or> x = Serving (peer r)"
    and "\<And>c. c \<in> set (clients ci') \<Longrightarrow> (\<exists>j. j \<noteq> i \<and> active w j c) \<or> x = Serving c \<or> x = Removing c"
  shows "owned (w\<lparr>shared := ci', phase_of := (phase_of w)(i := x)\<rparr>)"
proof -
  have "\<exists>j. ((phase_of w)(i := x)) j = Serving (peer r)" if "r \<in> set (rfcs ci')" for r
    using assms(1) [OF that] by (metis fun_upd_other fun_upd_same)
  moreover have "\<exists>j. ((phase_of w)(i := x)) j = Serving c \<or> ((phase_of w)(i := x)) j = Removing c"
    if "c \<in> set (clients ci')" for c
    using assms(2) [OF that] unfolding active_def by (metis fun_upd_other fun_upd_same)
  ultimately show ?thesis by (simp add: owned_def active_def)
qed

lemma owned_holderD: "owned w \<Longrightarrow> r \<in> set (rfcs (shared w)) \<Longrightarrow> \<exists>j. phase_of w j = Serving (peer r)"
  by (simp add: owned_def)

lemma owned_clientD: "owned w \<Longrightarrow> c \<in> set (clients (shared w)) \<Longrightarrow> \<exists>j. active w j c"
  by (simp add: owned_def)

lemma owned_step:
  assumes "session_step w w'" and "lists_wf (shared w)" and "owned w"
  shows "owned w'"
  using assms
proof (induction rule: session_step.induct)
  case (connect w i c)
  have "j \<noteq> i" if "active w j d \<or> phase_of w j = Serving d" for j d
    using connect.hyps that by (auto simp: active_def)
  then show ?case
    using owned_holderD [OF connect.prems(2)] owned_clientD [OF connect.prems(2)]
    by (intro owned_moveI; simp add: shared_simps; blast)
next
  case (offer w i c n)
  then show ?case by (auto simp: owned_def shared_simps active_def)
next
  case (unlist w i c)
  have act: "j \<noteq> i" if "active w j d \<or> phase_of w j = Serving d" "d \<noteq> c" for j d
    using unlist.hyps that by (auto simp: active_def)
  have "d = c \<or> (\<exists>j. j \<noteq> i \<and> active w j d)" if "d \<in> set (clients (shared w))" for d
    using owned_clientD [OF unlist.prems(2) that] act by blast
  moreover have "\<exists>j. j \<noteq> i \<and> phase_of w j = Serving (peer r)"
    if "r \<in> set (rfcs (shared w))" "peer r \<noteq> c" for r
    using owned_holderD [OF unlist.prems(2) that(1)] act that(2) by blast
  ultimately show ?case
    by (intro owned_moveI; simp add: shared_simps; blast)
next
  case (leave w i c)
  have hold: "j \<noteq> i" if "phase_of w j = Serving d" for j d
    using leave.hyps that by auto
  have act: "j \<noteq> i" if "active w j d" "d \<noteq> c" for j d
    using leave.hyps that by (auto simp: active_def)
  have "d \<in> set (clients (shared w)) \<and> d \<noteq> c"
    if "d \<in> set (clients (remove_client_entry (host c) (port c) (shared w)))" for d
    using leave.prems(1) that by (simp add: shared_simps lists_wf_def)
  then show ?case
    using owned_holderD [OF leave.prems(2)] owned_clientD [OF leave.prems(2)] hold act
    by (intro owned_moveI) (simp, blast)+
qed

lemma reachable_owned: "reachable session_step w \<Longrightarrow> owned w"
proof (induction rule: reachable.induct)
  case start
  show ?case by (simp add: owned_def world_init_def CentralIndex_empty_def)
next
  case (onward w w')
  then show ?case by (blast intro: owned_step reachable_lists_wf)
qed

section \<open>Sessions with identities of their own\<close>

text \<open>With unique identities, a session that is still there is in the list of clients.\<close>

definition registered :: "world \<Rightarrow> bool" where
  "registered w \<longleftrightarrow> (\<forall>i c. active w i c \<longrightarrow> c \<in> set (clients (shared w)))"

lemma registered_step:
  assumes "session_step w w'" and "unique_ids w" and "registered w"
  shows "registered w'"
  using assms
proof (induction rule: session_step.induct)
  case (leave w i c)
  have "d \<noteq> c" if "active w j d" "j \<noteq> i" for j d
    using leave that by (auto simp: unique_ids_def active_def)
  then have "d \<in> set (remove1 c (clients (shared w)))" if "active w j d" "j \<noteq> i" for j d
    using leave.prems(2) that by (simp add: registered_def)
  then show ?case
    by (auto simp: registered_def active_def shared_simps)
qed (auto simp: registered_def active_def shared_simps)

lemma unique_reachable_session: "reachable unique_step w \<Longrightarrow> reachable session_step w"
  by (induction rule: reachable.induct) (auto intro: reachable.intros simp: unique_step_def)

lemma unique_reachable_unique: "reachable unique_step w \<Longrightarrow> unique_ids w"
  by (induction rule: reachable.induct)
    (auto simp: unique_step_def unique_ids_def active_def world_init_def)

lemma unique_reachable_registered: "reachable unique_step w \<Longrightarrow> registered w"
proof (induction rule: reachable.induct)
  case start
  show ?case by (simp add: registered_def active_def world_init_def)
next
  case (onward w w')
  then show ?case
    using unique_reachable_unique [OF onward.hyps(1)] registered_step [of w w']
    by (simp add: unique_step_def)
qed

lemma unique_reachable_wf:
  assumes "reachable unique_step w"
  shows "index_wf (shared w)"
proof -
  have "lists_wf (shared w)" "owned w" "registered w"
    using assms unique_reachable_session reachable_lists_wf reachable_owned
      unique_reachable_registered by blast+
  then show ?thesis
    by (fastforce simp: index_wf_def holders_connected_def owned_def registered_def active_def)
qed

section \<open>A run used by the witnesses\<close>

definition demo_client :: Client where
  "demo_client = \<lparr>host = ''127.0.0.1'', port = 8081\<rparr>"

definition demo_connected :: world where
  "demo_connected = \<lparr>shared = \<lparr>clients = [demo_client], rfcs = []\<rparr>,
     phase_of = (\<lambda>_. Waiting)(0 := Serving demo_client)\<rparr>"

definition demo_offered :: world where
  "demo_offered = \<lparr>shared = \<lparr>clients = [demo_client], rfcs = [\<lparr>rfc = 42, peer = demo_client\<rparr>]\<rparr>,
     phase_of = (\<lambda>_. Waiting)(0 := Serving demo_client)\<rparr>"

definition demo_left :: world where
  "demo_left = \<lparr>shared = CentralIndex_empty, phase_of = (\<lambda>_. Waiting)(0 := Ended)\<rparr>"

lemma demo_connect_step: "session_step world_init demo_connected"
  using session_step.connect [of world_init 0 demo_client]
  by (simp add: world_init_def demo_connected_def demo_client_def add_client_def is_client_def
      CentralIndex_empty_def)

lemma demo_offer_step: "session_step demo_connected demo_offered"
  using session_step.offer [of demo_connected 0 demo_client 42]
  by (simp add: demo_connected_def demo_offered_def demo_client_def add_rfc_def is_client_def)

lemma demo_unique: "unique_ids demo_connected" "unique_ids demo_offered"
  by (simp_all add: unique_ids_def active_def demo_connected_def demo_offered_def)

lemma demo_offered_reachable: "reachable unique_step demo_offered"
  using demo_connect_step demo_offer_step demo_unique
  by (intro reachable.onward [OF reachable.onward [OF reachable.start]]) (auto simp: unique_step_def)

lemma demo_left_reachable: "reachable session_step demo_left"
proof -
  have 1: "session_step demo_offered
      (demo_left\<lparr>shared := \<lparr>clients = [demo_client], rfcs = []\<rparr>,
         phase_of := (\<lambda>_. Waiting)(0 := Removing demo_client)\<rparr>)" (is "session_step _ ?w")
    using session_step.unlist [of demo_offered 0 demo_client]
    by (simp add: demo_offered_def demo_left_def remove_client_rfcs_def demo_client_def is_client_def)
  have 2: "session_step ?w demo_left"
    using session_step.leave [of ?w 0 demo_client]
    by (simp add: demo_left_def remove_client_entry_def demo_client_def is_client_def
        CentralIndex_empty_def)
  show ?thesis
    using unique_reachable_session [OF demo_offered_reachable] 1 2
    by (blast intro: reachable.onward)
qed

section \<open>Properties\<close>

text \<open>
  However sessions interleave, the lists of the index stay free of duplicates and the holders
  stay strictly sorted by \<open>compare_rfc_holders\<close>.
\<close>

lemma interleaved_lists_wf:
  assumes "reachable session_step w"
  shows "distinct (clients (shared w)) \<and> distinct (rfcs (shared w)) \<and>
    sorted_wrt compare_rfc_holders (rfcs (shared w))"
  using reachable_lists_wf [OF assms] lists_wf_distinct by (simp add: lists_wf_def)

text \<open>
  If no two sessions use the same host and port at the same time, then in every reachable state
  the index is well-formed: sorted, free of duplicates, and every listed holder is connected.
\<close>

lemma interleaved_index_wf:
  assumes "reachable unique_step w"
  shows "index_wf (shared w)"
  by (rule unique_reachable_wf [OF assms])

lemma interleaved_index_wf_witness:
  "index_wf (shared demo_offered) \<and> rfcs (shared demo_offered) \<noteq> []"
  using interleaved_index_wf [OF demo_offered_reachable] by (simp add: demo_offered_def)

text \<open>
  When every session that connected has run its disconnect to the end, the index is empty
  again, whatever the interleaving and even if sessions shared an identity.
\<close>

lemma quiescent_index_empty:
  assumes "reachable session_step w" and "\<forall>i. phase_of w i = Waiting \<or> phase_of w i = Ended"
  shows "shared w = CentralIndex_empty"
proof -
  have "\<not> active w i c" "phase_of w i \<noteq> Serving c" for i c
    using assms(2) by (auto simp: active_def) (metis phase.distinct)+
  then have "rfcs (shared w) = [] \<and> clients (shared w) = []"
    using reachable_owned [OF assms(1)] by (simp add: owned_def)
  then show ?thesis by (simp add: CentralIndex_empty_def)
qed

text \<open>
  With unique identities, a session that is being served can always add an RFC it has not
  added yet: \<open>add_rfc\<close> returns true, and the holder is in the index afterwards.
\<close>

lemma served_session_can_offer:
  assumes "reachable unique_step w" and "phase_of w i = Serving c"
    and "\<lparr>rfc = n, peer = c\<rparr> \<notin> set (rfcs (shared w))"
  shows "fst (add_rfc (host c) (port c) n (shared w)) \<and>
    \<lparr>rfc = n, peer = c\<rparr> \<in> set (rfcs (snd (add_rfc (host c) (port c) n (shared w))))"
proof -
  have "c \<in> set (clients (shared w))"
    using unique_reachable_registered [OF assms(1)] assms(2) by (auto simp: registered_def active_def)
  with assms(3) show ?thesis by (simp add: set_add_rfc) (simp add: add_rfc_def index_simps Let_def)
qed

text \<open>
  Without unique identities the index can be left with a holder whose peer is not in the list
  of clients: two sessions of the same client, one offering an RFC in the gap between the two
  critical sections of the other's \<open>remove_client\<close>.
\<close>

lemma dangling_holder_reachable:
  "\<exists>w. reachable session_step w \<and> \<not> holders_connected (shared w)"
proof -
  let ?c = demo_client
  let ?sh = "\<lparr>clients = [?c], rfcs = []\<rparr>"
  let ?w2 = "demo_connected\<lparr>phase_of := (phase_of demo_connected)(1 := Serving ?c)\<rparr>"
  let ?w3 = "?w2\<lparr>phase_of := (phase_of ?w2)(0 := Removing ?c)\<rparr>"
  let ?w4 = "?w3\<lparr>shared := \<lparr>clients = [?c], rfcs = [\<lparr>rfc = 42, peer = ?c\<rparr>]\<rparr>\<rparr>"
  let ?w5 = "?w4\<lparr>shared := \<lparr>clients = [], rfcs = [\<lparr>rfc = 42, peer = ?c\<rparr>]\<rparr>,
    phase_of := (phase_of ?w4)(0 := Ended)\<rparr>"
  have 2: "session_step demo_connected ?w2"
    using session_step.connect [of demo_connected 1 ?c]
    by (simp add: demo_connected_def demo_client_def add_client_def is_client_def)
  have 3: "session_step ?w2 ?w3"
    using session_step.unlist [of ?w2 0 ?c]
    by (simp add: demo_connected_def remove_client_rfcs_def)
  have 4: "session_step ?w3 ?w4"
    using session_step.offer [of ?w3 1 ?c 42]
    by (simp add: demo_connected_def demo_client_def add_rfc_def is_client_def)
  have 5: "session_step ?w4 ?w5"
    using session_step.leave [of ?w4 0 ?c]
    by (simp add: demo_connected_def remove_client_entry_def demo_client_def is_client_def)
  note run = reachable.onward [where step = session_step]
  have "reachable session_step ?w5"
    by (rule run [OF run [OF run [OF run [OF run [OF reachable.start demo_connect_step] 2] 3] 4] 5])
  moreover have "\<not> holders_connected (shared ?w5)" by (simp add: holders_connected_def)
  ultimately show ?thesis by blast
qed

end
