(* ===== verification/Index_Locks.thy ===== *)
theory Index_Locks
  imports Central_Index_Steps
begin

text \<open>
  The mutexes of \<open>CentralIndex\<close>.  Every call is the sequence of lock and unlock operations its
  code performs, in source order and for each branch (\<open>add_rfc\<close> returns early when the holder is
  already listed).  Any number of threads run any sequences of calls, and a thread that locks a
  mutex another thread owns waits.  The calls take \<open>rfcs_mut\<close> before \<open>clients_mut\<close> and never the
  other way round, so no state is a deadlock.
\<close>

section \<open>Lock operations of the calls\<close>

datatype mutex = Rfcs_mut | Clients_mut

datatype lock_act = Lock mutex | Unlock mutex

datatype index_call =
    Call_add_client
  | Call_remove_client
  | Call_add_rfc bool  \<comment> \<open>true: the holder is already in the list, the early return\<close>
  | Call_find_rfcs
  | Call_all_rfcs

fun lock_trace :: "index_call \<Rightarrow> lock_act list" where
  "lock_trace Call_add_client = [Lock Clients_mut, Unlock Clients_mut]"
| "lock_trace Call_remove_client =
     [Lock Rfcs_mut, Unlock Rfcs_mut, Lock Clients_mut, Unlock Clients_mut]"
| "lock_trace (Call_add_rfc listed) =
     (if listed then [Lock Rfcs_mut, Unlock Rfcs_mut]
      else [Lock Rfcs_mut, Lock Clients_mut, Unlock Clients_mut, Unlock Rfcs_mut])"
| "lock_trace Call_find_rfcs = [Lock Rfcs_mut, Unlock Rfcs_mut]"
| "lock_trace Call_all_rfcs = [Lock Rfcs_mut, Unlock Rfcs_mut]"

section \<open>Threads\<close>

record lock_state =
  owner :: "mutex \<Rightarrow> nat option"
  todo :: "nat \<Rightarrow> lock_act list"

inductive lock_step :: "lock_state \<Rightarrow> lock_state \<Rightarrow> bool" where
  acquire: "todo s i = Lock m # as \<Longrightarrow> owner s m = None \<Longrightarrow>
    lock_step s (s\<lparr>owner := (owner s)(m := Some i), todo := (todo s)(i := as)\<rparr>)"
| release: "todo s i = Unlock m # as \<Longrightarrow> owner s m = Some i \<Longrightarrow>
    lock_step s (s\<lparr>owner := (owner s)(m := None), todo := (todo s)(i := as)\<rparr>)"

definition lock_start :: "(nat \<Rightarrow> index_call list) \<Rightarrow> lock_state" where
  "lock_start calls =
     \<lparr>owner = (\<lambda>_. None), todo = (\<lambda>i. concat (map lock_trace (calls i)))\<rparr>"

inductive lock_reachable :: "(nat \<Rightarrow> index_call list) \<Rightarrow> lock_state \<Rightarrow> bool" for calls where
  lock_init: "lock_reachable calls (lock_start calls)"
| lock_next: "lock_reachable calls s \<Longrightarrow> lock_step s s' \<Longrightarrow> lock_reachable calls s'"

section \<open>Lock discipline\<close>

text \<open>
  With the mutexes \<open>H\<close> held, the remaining operations only unlock what is held, lock what is not,
  never lock \<open>rfcs_mut\<close> while \<open>clients_mut\<close> is held, and end with nothing held.
\<close>

fun disciplined :: "mutex set \<Rightarrow> lock_act list \<Rightarrow> bool" where
  "disciplined H [] = (H = {})"
| "disciplined H (Lock m # as) =
     (m \<notin> H \<and> (m = Rfcs_mut \<longrightarrow> Clients_mut \<notin> H) \<and> disciplined (insert m H) as)"
| "disciplined H (Unlock m # as) = (m \<in> H \<and> disciplined (H - {m}) as)"

lemma disciplined_append:
  "disciplined H as \<Longrightarrow> disciplined {} bs \<Longrightarrow> disciplined H (as @ bs)"
  by (induction H as rule: disciplined.induct) auto

lemma disciplined_trace: "disciplined {} (lock_trace c)"
  by (cases c) auto

lemma disciplined_traces: "disciplined {} (concat (map lock_trace cs))"
  by (induction cs) (auto intro: disciplined_append disciplined_trace)

definition held :: "lock_state \<Rightarrow> nat \<Rightarrow> mutex set" where
  "held s i = {m. owner s m = Some i}"

lemma disciplined_step:
  assumes "lock_step s s'" and "\<forall>i. disciplined (held s i) (todo s i)"
  shows "\<forall>i. disciplined (held s' i) (todo s' i)"
  using assms
proof (induction rule: lock_step.induct)
  case (acquire s i m as)
  show ?case
  proof
    fix j
    have "held (s\<lparr>owner := (owner s)(m := Some i), todo := (todo s)(i := as)\<rparr>) j =
        (if j = i then insert m (held s i) else held s j)"
      using acquire.hyps by (auto simp: held_def)
    moreover have "disciplined (held s i) (Lock m # as)"
      using acquire by metis
    ultimately show "disciplined
        (held (s\<lparr>owner := (owner s)(m := Some i), todo := (todo s)(i := as)\<rparr>) j)
        (todo (s\<lparr>owner := (owner s)(m := Some i), todo := (todo s)(i := as)\<rparr>) j)"
      using acquire.prems by simp
  qed
next
  case (release s i m as)
  show ?case
  proof
    fix j
    have "held (s\<lparr>owner := (owner s)(m := None), todo := (todo s)(i := as)\<rparr>) j =
        (if j = i then held s i - {m} else held s j)"
      using release.hyps by (auto simp: held_def)
    moreover have "disciplined (held s i) (Unlock m # as)"
      using release by metis
    ultimately show "disciplined
        (held (s\<lparr>owner := (owner s)(m := None), todo := (todo s)(i := as)\<rparr>) j)
        (todo (s\<lparr>owner := (owner s)(m := None), todo := (todo s)(i := as)\<rparr>) j)"
      using release.prems by simp
  qed
qed

lemma reachable_disciplined:
  "lock_reachable calls s \<Longrightarrow> \<forall>i. disciplined (held s i) (todo s i)"
proof (induction rule: lock_reachable.induct)
  case lock_init
  show ?case by (simp add: lock_start_def held_def disciplined_traces)
next
  case (lock_next s s')
  then show ?case using disciplined_step by simp
qed

lemma unlock_can_step:
  "disciplined (held s i) (Unlock m # as) \<Longrightarrow> todo s i = Unlock m # as \<Longrightarrow> \<exists>s'. lock_step s s'"
  by (auto simp: held_def intro: lock_step.release)

lemma lock_can_step: "todo s i = Lock m # as \<Longrightarrow> owner s m = None \<Longrightarrow> \<exists>s'. lock_step s s'"
  by (blast intro: lock_step.acquire)

text \<open>The owner of \<open>clients_mut\<close> is never blocked; the owner of \<open>rfcs_mut\<close> only by \<open>clients_mut\<close>.\<close>

lemma owner_progress:
  assumes "\<forall>i. disciplined (held s i) (todo s i)" and "owner s m = Some i"
    and "m = Clients_mut \<or> owner s Clients_mut = None"
  shows "\<exists>s'. lock_step s s'"
proof -
  have d: "disciplined (held s i) (todo s i)" and m: "m \<in> held s i"
    using assms(1,2) by (simp_all add: held_def)
  then obtain a as where t: "todo s i = a # as" by (cases "todo s i") auto
  show ?thesis
  proof (cases a)
    case (Unlock k)
    with d t show ?thesis by (auto intro: unlock_can_step)
  next
    case (Lock k)
    with d t m have "k \<noteq> m" "k = Rfcs_mut \<longrightarrow> m \<noteq> Clients_mut" by auto
    then have "k = Clients_mut" "m = Rfcs_mut" by (metis mutex.exhaust)+
    with Lock t assms(3) show ?thesis by (auto intro: lock_can_step)
  qed
qed

section \<open>Property\<close>

text \<open>
  C16. The index never deadlocks: in every state that threads calling the index can reach, either
  every thread has finished its calls or some thread can make a step.
\<close>

theorem index_no_deadlock:
  assumes "lock_reachable calls s" and "\<exists>i. todo s i \<noteq> []"
  shows "\<exists>s'. lock_step s s'"
proof (cases "owner s Clients_mut")
  case (Some j)
  with reachable_disciplined [OF assms(1)] show ?thesis by (blast intro: owner_progress)
next
  case None
  show ?thesis
  proof (cases "owner s Rfcs_mut")
    case (Some j)
    with None reachable_disciplined [OF assms(1)] show ?thesis by (blast intro: owner_progress)
  next
    case None': None
    have free: "owner s m = None" for m using None None' by (cases m) simp_all
    obtain i a as where t: "todo s i = a # as" using assms(2) by (metis neq_Nil_conv)
    show ?thesis
    proof (cases a)
      case (Lock m)
      with t free show ?thesis by (blast intro: lock_can_step)
    next
      case (Unlock m)
      with t reachable_disciplined [OF assms(1)] show ?thesis
        by (metis unlock_can_step)
    qed
  qed
qed

theorem index_no_deadlock_witness:
  "\<exists>s'. lock_step (lock_start (\<lambda>i. if i < 2 then [Call_add_rfc False, Call_remove_client] else [])) s'"
  by (rule index_no_deadlock [OF lock_reachable.lock_init]) (auto simp: lock_start_def intro!: exI [of _ 0])

end
