(* ===== verification/Server_Threads.thy ===== *)
theory Server_Threads
  imports Server_Properties Index_Locks
begin

text \<open>
  The handlers of \<open>src/server.cpp\<close> side by side.  Each connection has a thread that runs
  \<open>client_handler\<close>; the threads share the index and nothing else but the output.  A step is what a thread
  does up to and including one critical section of the index: entering, one round of the message loop, or
  one of the two halves of \<open>remove_client\<close>.  The socket of a thread is its own, so it does not matter when
  its transfers happen between these points.  A step whose computation ends in an exception or in
  undefined behaviour ends the process.
\<close>

section \<open>The handler, cut at its accesses to the index\<close>

text \<open>The handler up to the message loop: the identity of the client, or nothing on a version mismatch.\<close>

definition server_enter ::
    "'s sock_ops \<Rightarrow> (nat \<Rightarrow> byte) \<Rightarrow> server_state \<Rightarrow> 's \<Rightarrow> ((string \<times> u32) option \<times> server_state \<times> 's) result" where
  "server_enter ops g st s =
     (let server_version = htonl PROTOCOL_VERSION
      in bnd (send_int ops server_version s) (\<lambda>s.
         let server_version = ntohl server_version in
         bnd (recv_int ops (load32 (fresh_bytes g 4)) s) (\<lambda>(client_version, s).
         let client_version = ntohl client_version in
         if server_version \<noteq> client_version
         then Inr (None, st\<lparr>sv_log := sv_log st @
                [''Client tried connecting, but uses unsupported protocol version'']\<rparr>, s)
         else
           bnd (recv_identity ops g s) (\<lambda>(hostname, upload_port, s).
           let st = st\<lparr>sv_log := sv_log st @ [''   CONNECT - '' @ show_client hostname upload_port]\<rparr>;
               (_, ci) = add_client hostname upload_port (sv_index st)
           in Inr (Some (hostname, upload_port), st\<lparr>sv_index := ci\<rparr>, s)))))"

datatype 's thread =
    Fresh 's
  | Looping string u32 u32 's
  | Unlisting string u32 's  \<comment> \<open>after the loop\<close>
  | Unlisted string u32 's  \<comment> \<open>between the two critical sections of \<open>remove_client\<close>\<close>
  | Finished bool 's  \<comment> \<open>returned, with its \<open>*is_finished\<close>\<close>

record 's server_world =
  sw_state :: server_state
  sw_threads :: "'s thread list"
  sw_failed :: "crash option"

definition server_unlist :: "string \<Rightarrow> u32 \<Rightarrow> server_state \<Rightarrow> server_state" where
  "server_unlist h p st = st\<lparr>sv_index := remove_client_rfcs h p (sv_index st)\<rparr>"

definition server_forget :: "string \<Rightarrow> u32 \<Rightarrow> server_state \<Rightarrow> server_state" where
  "server_forget h p st =
     \<lparr>sv_index = remove_client_entry h p (sv_index st),
      sv_log = sv_log st @ [''DISCONNECT - '' @ show_client h p]\<rparr>"

definition server_move :: "'s server_world \<Rightarrow> nat \<Rightarrow> server_state \<Rightarrow> 's thread \<Rightarrow> 's server_world" where
  "server_move w i st t = w\<lparr>sw_state := st, sw_threads := (sw_threads w)[i := t]\<rparr>"

inductive server_step ::
    "'s sock_ops \<Rightarrow> (nat \<Rightarrow> nat \<Rightarrow> byte) \<Rightarrow> 's server_world \<Rightarrow> 's server_world \<Rightarrow> bool" for ops g where
  enter: "sw_failed w = None \<Longrightarrow> i < length (sw_threads w) \<Longrightarrow> sw_threads w ! i = Fresh s \<Longrightarrow>
    server_enter ops (g i) (sw_state w) s = Inr (Some (h, p), st, s') \<Longrightarrow>
    server_step ops g w (server_move w i st (Looping h p (load32 (fresh_bytes (g i) 4)) s'))"
| reject: "sw_failed w = None \<Longrightarrow> i < length (sw_threads w) \<Longrightarrow> sw_threads w ! i = Fresh s \<Longrightarrow>
    server_enter ops (g i) (sw_state w) s = Inr (None, st, s') \<Longrightarrow>
    server_step ops g w (server_move w i st (Finished False s'))"
| serve: "sw_failed w = None \<Longrightarrow> i < length (sw_threads w) \<Longrightarrow> sw_threads w ! i = Looping h p m s \<Longrightarrow>
    serve_message ops (g i) h p m (sw_state w, s) = Inr (m', st, s') \<Longrightarrow>
    server_step ops g w (server_move w i st
      (if m' \<noteq> P2SMessage_int P2S_DISCONNECT then Looping h p m' s' else Unlisting h p s'))"
| unlist: "sw_failed w = None \<Longrightarrow> i < length (sw_threads w) \<Longrightarrow> sw_threads w ! i = Unlisting h p s \<Longrightarrow>
    server_step ops g w (server_move w i (server_unlist h p (sw_state w)) (Unlisted h p s))"
| forget: "sw_failed w = None \<Longrightarrow> i < length (sw_threads w) \<Longrightarrow> sw_threads w ! i = Unlisted h p s \<Longrightarrow>
    server_step ops g w (server_move w i (server_forget h p (sw_state w)) (Finished True (vclose ops s)))"
| fail_enter: "sw_failed w = None \<Longrightarrow> i < length (sw_threads w) \<Longrightarrow> sw_threads w ! i = Fresh s \<Longrightarrow>
    server_enter ops (g i) (sw_state w) s = Inl e \<Longrightarrow> server_step ops g w (w\<lparr>sw_failed := Some e\<rparr>)"
| fail_serve: "sw_failed w = None \<Longrightarrow> i < length (sw_threads w) \<Longrightarrow> sw_threads w ! i = Looping h p m s \<Longrightarrow>
    serve_message ops (g i) h p m (sw_state w, s) = Inl e \<Longrightarrow> server_step ops g w (w\<lparr>sw_failed := Some e\<rparr>)"

definition server_started :: "'s list \<Rightarrow> 's server_world" where
  "server_started ss =
     \<lparr>sw_state = \<lparr>sv_index = CentralIndex_empty, sv_log = []\<rparr>, sw_threads = map Fresh ss, sw_failed = None\<rparr>"

lemma server_move_simps [simp]:
  "sw_state (server_move w i st t) = st" "sw_threads (server_move w i st t) = (sw_threads w)[i := t]"
  "sw_failed (server_move w i st t) = sw_failed w"
  by (simp_all add: server_move_def)

section \<open>One thread alone is the handler\<close>

lemma server_client_handler_pieces:
  "server_client_handler ops g st s =
     bnd (server_enter ops g st s) (\<lambda>(who, st, s).
     case who of
       None \<Rightarrow> Inr (False, st, s)
     | Some (h, p) \<Rightarrow>
         bnd (run_loop (serve_loop ops g h p (load32 (fresh_bytes g 4)) (st, s))) (server_leave ops h p))"
  unfolding server_client_handler_def server_enter_def
  by (auto simp: Let_def case_prod_beta bnd_assoc intro!: bnd_cong)

lemma server_leave_pieces:
  "server_leave ops h p (st, s) = Inr (True, server_forget h p (server_unlist h p st), vclose ops s)"
  by (simp add: server_leave_def server_forget_def server_unlist_def remove_client_def Let_def)


lemma server_move_move [simp]: "server_move (server_move w i st t) i st' t' = server_move w i st' t'"
  by (simp add: server_move_def)

lemma serve_loop_run:
  assumes "serve_loop ops (g i) h p m (st, s) = Some (Inr (st', s'))"
    and "sw_failed w = None" "i < length (sw_threads w)"
  shows "(server_step ops g)\<^sup>*\<^sup>* (server_move w i st (Looping h p m s)) (server_move w i st' (Unlisting h p s'))"
proof -
  let ?P = "\<lambda>m st s. (server_step ops g)\<^sup>*\<^sup>* (server_move w i st (Looping h p m s))
    (server_move w i st' (Unlisting h p s'))"
  from assms(1) have "?P m (fst (st, s)) (snd (st, s))"
  proof (induction rule: serve_loop_induct)
    case (round m st s w1 st1 s1)
    let ?w = "server_move w i st (Looping h p m s)"
    have "server_step ops g ?w (server_move ?w i st1
        (if w1 \<noteq> P2SMessage_int P2S_DISCONNECT then Looping h p w1 s1 else Unlisting h p s1))"
      using assms(2,3) round(1) by (intro server_step.serve [where s = s]) simp_all
    then show ?case using round(2,3)
      by (cases "w1 = 4") (simp_all add: converse_rtranclp_into_rtranclp r_into_rtranclp)
  qed
  then show ?thesis by simp
qed

lemma handler_is_thread_run_aux:
  assumes "sw_failed w = None" "i < length (sw_threads w)" "sw_threads w ! i = Fresh s"
    and "server_client_handler ops (g i) (sw_state w) s = Inr (fin, st', s')"
  shows "(server_step ops g)\<^sup>*\<^sup>* w (server_move w i st' (Finished fin s'))"
proof -
  from assms(4) obtain who st1 s1 where 1: "server_enter ops (g i) (sw_state w) s = Inr (who, st1, s1)"
    unfolding server_client_handler_pieces by (auto simp: bnd_eq_Inr_iff)
  show ?thesis
  proof (cases who)
    case None
    then have "st' = st1" "s' = s1" "fin = False"
      using assms(4) 1 by (simp_all add: server_client_handler_pieces)
    then show ?thesis using server_step.reject [OF assms(1-3), of ops g st1 s1] 1 None by auto
  next
    case (Some hp)
    obtain h p where hp: "who = Some (h, p)" using Some by (cases hp) simp
    from assms(4) obtain st2 s2 where 2: "serve_loop ops (g i) h p (load32 (fresh_bytes (g i) 4)) (st1, s1) =
        Some (Inr (st2, s2))" "server_leave ops h p (st2, s2) = Inr (fin, st', s')"
      unfolding server_client_handler_pieces 1 hp by (auto simp: bnd_eq_Inr_iff run_loop_def split: option.splits)
    have e: "server_step ops g w (server_move w i st1 (Looping h p (load32 (fresh_bytes (g i) 4)) s1))"
      using server_step.enter [OF assms(1-3)] 1 hp by simp
    note l = serve_loop_run [where g = g and i = i, OF 2(1) assms(1,2)]
    have u: "server_step ops g (server_move w i st2 (Unlisting h p s2))
        (server_move w i (server_unlist h p st2) (Unlisted h p s2))"
      using server_step.unlist [of "server_move w i st2 (Unlisting h p s2)" i h p s2 ops g] assms(1,2) by simp
    have f: "server_step ops g (server_move w i (server_unlist h p st2) (Unlisted h p s2))
        (server_move w i (server_forget h p (server_unlist h p st2)) (Finished True (vclose ops s2)))"
      using server_step.forget [of "server_move w i (server_unlist h p st2) (Unlisted h p s2)" i h p s2 ops g]
        assms(1,2) by simp
    have "(server_step ops g)\<^sup>*\<^sup>* w
        (server_move w i (server_forget h p (server_unlist h p st2)) (Finished True (vclose ops s2)))"
      using e l u f by (meson converse_rtranclp_into_rtranclp rtranclp.rtrancl_into_rtrancl)
    then show ?thesis using 2(2) by (simp add: server_leave_pieces)
  qed
qed

text \<open>A handler that ends in a failure ends the process.\<close>

lemma serve_loop_fails:
  fixes ops :: "'s sock_ops"
  assumes "serve_loop ops (g i) h p m (st, s) = Some (Inl e)" "sw_failed w = None" "i < length (sw_threads w)"
  shows "\<exists>w'. (server_step ops g)\<^sup>*\<^sup>* (server_move w i st (Looping h p m s)) (w'\<lparr>sw_failed := Some e\<rparr>)"
proof -
  let ?Q = "\<lambda>(ops' :: 's sock_ops) g' h' p' m sts res. ops' = ops \<longrightarrow> g' = g i \<longrightarrow> h' = h \<longrightarrow> p' = p \<longrightarrow> res = Inl e \<longrightarrow>
    (\<exists>w'. (server_step ops g)\<^sup>*\<^sup>* (server_move w i (fst sts) (Looping h p m (snd sts))) (w'\<lparr>sw_failed := Some e\<rparr>))"
  have "?Q ops' g' h' p' m sts res" if "serve_loop ops' g' h' p' m sts = Some res" for ops' g' h' p' m sts res
    using that
  proof (rule serve_loop.raw_induct [where P = ?Q, rotated])
    fix f :: "'s sock_ops \<Rightarrow> (nat \<Rightarrow> byte) \<Rightarrow> string \<Rightarrow> u32 \<Rightarrow> u32 \<Rightarrow> server_state \<times> 's \<Rightarrow> (server_state \<times> 's) result option"
      and ops' g' h' p' m sts res
    assume IH: "\<And>ops' g' h' p' m sts res. f ops' g' h' p' m sts = Some res \<Longrightarrow> ?Q ops' g' h' p' m sts res"
      and eq: "(case serve_message ops' g' h' p' m sts of Inl e \<Rightarrow> Some (Inl e)
        | Inr (message, sts) \<Rightarrow> if message \<noteq> P2SMessage_int P2S_DISCONNECT then f ops' g' h' p' message sts
            else Some (Inr sts)) = Some res"
    show "?Q ops' g' h' p' m sts res"
    proof (intro impI)
      assume same: "ops' = ops" "g' = g i" "h' = h" "p' = p" and res: "res = Inl e"
      let ?w = "server_move w i (fst sts) (Looping h p m (snd sts))"
      have w: "sw_failed ?w = None" "i < length (sw_threads ?w)" "sw_threads ?w ! i = Looping h p m (snd sts)"
        using assms(2,3) by simp_all
      show "\<exists>w'. (server_step ops g)\<^sup>*\<^sup>* ?w (w'\<lparr>sw_failed := Some e\<rparr>)"
      proof (cases "serve_message ops (g i) h p m sts")
        case (Inl e')
        then have "server_step ops g ?w (?w\<lparr>sw_failed := Some e\<rparr>)"
          using eq same res by (intro server_step.fail_serve [OF w]) simp
        then show ?thesis by blast
      next
        case (Inr r)
        obtain m' st' s' where r: "r = (m', st', s')" by (cases r) auto
        with Inr eq same res have go: "m' \<noteq> 4" "f ops (g i) h p m' (st', s') = Some (Inl e)"
          by (auto split: if_splits)
        have "serve_message ops (g i) h p m (sw_state ?w, snd sts) = Inr (m', st', s')" using Inr r by simp
        from server_step.serve [where g = g and i = i, OF w this] go(1)
        have "server_step ops g ?w (server_move w i st' (Looping h p m' s'))" by simp
        moreover from IH [OF go(2)] obtain w' where
          "(server_step ops g)\<^sup>*\<^sup>* (server_move w i st' (Looping h p m' s')) (w'\<lparr>sw_failed := Some e\<rparr>)" by auto
        ultimately show ?thesis by (meson converse_rtranclp_into_rtranclp)
      qed
    qed
  qed
  from this [OF assms(1)] show ?thesis by simp
qed

lemma failing_handler_ends_server:
  assumes "sw_failed w = None" "i < length (sw_threads w)" "sw_threads w ! i = Fresh s"
    and "server_client_handler ops (g i) (sw_state w) s = Inl e" "e \<noteq> Diverges"
  shows "\<exists>w'. (server_step ops g)\<^sup>*\<^sup>* w (w'\<lparr>sw_failed := Some e\<rparr>)"
proof (cases "server_enter ops (g i) (sw_state w) s")
  case (Inl e')
  then have "server_step ops g w (w\<lparr>sw_failed := Some e\<rparr>)"
    using assms(4) by (intro server_step.fail_enter [OF assms(1-3)]) (simp add: server_client_handler_pieces)
  then show ?thesis by blast
next
  case (Inr r)
  obtain who st1 s1 where r: "r = (who, st1, s1)" by (cases r) auto
  with Inr assms(4) obtain h p where who: "who = Some (h, p)"
    by (cases who) (auto simp: server_client_handler_pieces)
  let ?m = "load32 (fresh_bytes (g i) 4)"
  have "bnd (run_loop (serve_loop ops (g i) h p ?m (st1, s1))) (server_leave ops h p) = Inl e"
    using assms(4) Inr r who by (simp add: server_client_handler_pieces)
  then have "serve_loop ops (g i) h p ?m (st1, s1) = Some (Inl e)"
    using assms(5) by (auto simp: run_loop_def server_leave_pieces bnd_eq_Inl_iff split: option.splits)
  from serve_loop_fails [where g = g and i = i, OF this assms(1,2)]
  obtain w' where "(server_step ops g)\<^sup>*\<^sup>* (server_move w i st1 (Looping h p ?m s1)) (w'\<lparr>sw_failed := Some e\<rparr>)" by blast
  moreover have "server_step ops g w (server_move w i st1 (Looping h p ?m s1))"
    using server_step.enter [OF assms(1-3)] Inr r who by simp
  ultimately show ?thesis by (meson converse_rtranclp_into_rtranclp)
qed

section \<open>The threads are sessions of the index\<close>

fun phase_of_thread :: "'s thread \<Rightarrow> phase" where
  "phase_of_thread (Fresh s) = Waiting"
| "phase_of_thread (Looping h p m s) = Serving \<lparr>host = h, port = p\<rparr>"
| "phase_of_thread (Unlisting h p s) = Serving \<lparr>host = h, port = p\<rparr>"
| "phase_of_thread (Unlisted h p s) = Removing \<lparr>host = h, port = p\<rparr>"
| "phase_of_thread (Finished fin s) = (if fin then Ended else Waiting)"

definition sessions_of :: "'s server_world \<Rightarrow> world" where
  "sessions_of w =
     \<lparr>shared = sv_index (sw_state w),
      phase_of = (\<lambda>i. if i < length (sw_threads w) then phase_of_thread (sw_threads w ! i) else Waiting)\<rparr>"

lemma phase_of_sessions:
  "i < length (sw_threads w) \<Longrightarrow> phase_of (sessions_of w) i = phase_of_thread (sw_threads w ! i)"
  by (simp add: sessions_of_def)

lemma shared_sessions [simp]: "shared (sessions_of w) = sv_index (sw_state w)"
  by (simp add: sessions_of_def)

lemma sessions_of_move:
  "i < length (sw_threads w) \<Longrightarrow> sessions_of (server_move w i st t) =
    (sessions_of w)\<lparr>shared := sv_index st, phase_of := (phase_of (sessions_of w))(i := phase_of_thread t)\<rparr>"
  by (auto simp: sessions_of_def nth_list_update)

lemma sessions_of_failed [simp]: "sessions_of (w\<lparr>sw_failed := e\<rparr>) = sessions_of w"
  by (simp add: sessions_of_def cong: if_cong)

lemma server_enter_index:
  assumes "server_enter ops g st s = Inr (who, st', s')"
  shows "sv_index st' = (case who of None \<Rightarrow> sv_index st | Some (h, p) \<Rightarrow> snd (add_client h p (sv_index st)))"
  using assms by (auto simp: server_enter_def bnd_eq_Inr_iff Let_def case_prod_beta split: if_splits)

lemma serve_message_index:
  assumes "serve_message ops g h p m (st, s) = Inr (w, st', s')"
  shows "sv_index st' = sv_index st \<or> (\<exists>n. sv_index st' = snd (add_rfc h p n (sv_index st)))"
  using assms
  by (auto simp: serve_message_def bnd_eq_Inr_iff case_prod_beta Let_def split: if_splits
      dest!: server_add_rfc_index server_list_rfcs_index server_lookup_rfc_index)

lemma world_eqI: "shared u = shared v \<Longrightarrow> phase_of u = phase_of v \<Longrightarrow> u = (v :: world)"
  by simp

lemma server_step_session:
  assumes "server_step ops g w w'"
  shows "sessions_of w' = sessions_of w \<or> session_step (sessions_of w) (sessions_of w')"
  using assms
proof (induction rule: server_step.induct)
  case (enter w i s h p st s')
  then have "phase_of (sessions_of w) i = Waiting" by (simp add: phase_of_sessions)
  from session_step.connect [OF this, of "\<lparr>host = h, port = p\<rparr>"] server_enter_index [OF enter(4)] enter(2)
  show ?case by (simp add: sessions_of_move)
next
  case (reject w i s st s')
  then have "phase_of (sessions_of w) i = Waiting" by (simp add: phase_of_sessions)
  then show ?case
    using server_enter_index [OF reject(4)] reject(2) by (intro disjI1 world_eqI) (auto simp: sessions_of_move)
next
  case (serve w i h p m s m' st s')
  then have ph: "phase_of (sessions_of w) i = Serving \<lparr>host = h, port = p\<rparr>" by (simp add: phase_of_sessions)
  then have upd: "(phase_of (sessions_of w))(i := Serving \<lparr>host = h, port = p\<rparr>) = phase_of (sessions_of w)" by auto
  have to: "sessions_of (server_move w i st (if m' \<noteq> P2SMessage_int P2S_DISCONNECT then Looping h p m' s' else Unlisting h p s')) =
      (sessions_of w)\<lparr>shared := sv_index st\<rparr>"
    using serve(2) upd by (intro world_eqI) (auto simp: sessions_of_move)
  from serve_message_index [OF serve(4)] show ?case
  proof (elim disjE exE)
    assume "sv_index st = sv_index (sw_state w)"
    then show ?thesis unfolding to by (intro disjI1 world_eqI) simp_all
  next
    fix n assume "sv_index st = snd (add_rfc h p n (sv_index (sw_state w)))"
    then show ?thesis unfolding to using session_step.offer [OF ph, of n] by simp
  qed
next
  case (unlist w i h p s)
  then have "phase_of (sessions_of w) i = Serving \<lparr>host = h, port = p\<rparr>" by (simp add: phase_of_sessions)
  from session_step.unlist [OF this] unlist(2) show ?case by (simp add: sessions_of_move server_unlist_def)
next
  case (forget w i h p s)
  then have "phase_of (sessions_of w) i = Removing \<lparr>host = h, port = p\<rparr>" by (simp add: phase_of_sessions)
  from session_step.leave [OF this] forget(2) show ?case by (simp add: sessions_of_move server_forget_def)
qed simp_all


lemma sessions_of_started: "sessions_of (server_started ss) = world_init"
  by (auto simp: sessions_of_def server_started_def world_init_def)

lemma server_threads_reachable:
  "(server_step ops g)\<^sup>*\<^sup>* (server_started ss) w \<Longrightarrow> reachable session_step (sessions_of w)"
proof (induction rule: rtranclp_induct)
  case base
  show ?case unfolding sessions_of_started by (rule reachable.start)
next
  case (step u v)
  from server_step_session [OF step.hyps(2)] step.IH show ?case
    by (auto intro: reachable.onward)
qed

section \<open>Properties\<close>

text \<open>
  C9. The handlers that run side by side refine the step relation of sessions.  Over any socket class and
  for any connections, whatever the clients send and however the threads interleave, the index goes only
  through states that the abstract sessions reach; so its lists are sorted and free of duplicates at every
  moment, and it is empty whenever no handler is between its CONNECT and its DISCONNECT.  What
  \<open>client_handler\<close> does as one piece is one of these interleavings, so nothing of it is left out.
\<close>

theorem server_threads_refine_sessions:
  assumes "(server_step ops g)\<^sup>*\<^sup>* (server_started ss) w"
  shows "reachable session_step (sessions_of w) \<and> shared (sessions_of w) = sv_index (sw_state w) \<and>
    distinct (clients (sv_index (sw_state w))) \<and> sorted_wrt compare_rfc_holders (rfcs (sv_index (sw_state w))) \<and>
    ((\<forall>t \<in> set (sw_threads w). phase_of_thread t \<in> {Waiting, Ended}) \<longrightarrow> sv_index (sw_state w) = CentralIndex_empty) \<and>
    (\<forall>i s fin st' s'. sw_failed w = None \<longrightarrow> i < length (sw_threads w) \<longrightarrow> sw_threads w ! i = Fresh s \<longrightarrow>
       server_client_handler ops (g i) (sw_state w) s = Inr (fin, st', s') \<longrightarrow>
       (server_step ops g)\<^sup>*\<^sup>* w (server_move w i st' (Finished fin s')))"
proof -
  have r: "reachable session_step (sessions_of w)" by (rule server_threads_reachable [OF assms])
  have "lists_wf (sv_index (sw_state w))" using reachable_lists_wf [OF r] by simp
  moreover have "sv_index (sw_state w) = CentralIndex_empty"
    if "\<forall>t \<in> set (sw_threads w). phase_of_thread t \<in> {Waiting, Ended}"
    using quiescent_index_empty [OF r] that by (simp add: sessions_of_def)
  ultimately show ?thesis using r handler_is_thread_run_aux [of w _ _ ops g] by (simp add: lists_wf_def)
qed

theorem server_threads_refine_sessions_witness:
  "\<exists>st' s'. (server_step (eserver_ops demo_crypto (\<lambda>_. 9)) (\<lambda>_ _. 9))\<^sup>*\<^sup>*
      (server_started [demo_peer (session_blocks ''a'' 1 [Ask_add 791] @ [wire32 4])])
      (server_move (server_started [demo_peer (session_blocks ''a'' 1 [Ask_add 791] @ [wire32 4])]) 0 st' (Finished True s'))"
proof -
  let ?s = "demo_peer (session_blocks ''a'' 1 [Ask_add 791] @ [wire32 4])"
  let ?w = "server_started [?s]" and ?ops = "eserver_ops demo_crypto (\<lambda>_. 9)"
  have h: "nul \<notin> set ''a''" "length ''a'' + 1 < 2 ^ 31" "list_all proper [Ask_add 791]"
    "all_sendable (\<lambda>_. 9) ''a'' 1 [Ask_add 791] (snd (add_client ''a'' 1 (sv_index (sw_state ?w))))"
    by (simp_all add: demo_session_simps)
  obtain st' s' where "server_client_handler ?ops (\<lambda>_. 9) (sw_state ?w) ?s = Inr (True, st', s')"
    using server_session_correct_aux [OF demo_peer_conn h] by blast
  moreover have "(server_step ?ops (\<lambda>_ _. 9))\<^sup>*\<^sup>* ?w ?w" by simp
  moreover have "sw_failed ?w = None" "0 < length (sw_threads ?w)" "sw_threads ?w ! 0 = Fresh ?s"
    by (simp_all add: server_started_def)
  ultimately show ?thesis
    using server_threads_refine_sessions [where ops = ?ops and g = "\<lambda>_ _. 9" and ss = "[?s]" and w = ?w] by blast
qed

end
