(* ===== verification/Closed_Clients.thy ===== *)
theory Closed_Clients
  imports Server_Threads
begin

text \<open>
  A client that closes its connection altogether, without DISCONNECT.  The handler of the server ignores
  that \<open>recv\<close> finds nothing and goes through the last request again and again; what it sends makes the
  kernel raise SIGPIPE, which ends the process of the server, and with it the index and every other session.
  The handler a peer runs meets the same end.
\<close>

section \<open>The loop of the server\<close>

lemma request_word_repeats: "proper r \<Longrightarrow> request_word r \<in> {1, 2, 3} \<or> (\<exists>w. r = Ask_other w)"
  by (cases r) auto

context closed_socket
begin

lemma serve_message_gone:
  assumes m: "recv_int ops m s = Inr (m, s1)" and gone: "is_gone n s1" and ok: "sendable (sv_index st)"
  obtains "serve_message ops g h p m (st, s) = Inl Killed_by_SIGPIPE"
  | st' s' k where "serve_message ops g h p m (st, s) = Inr (ntohl m, st', s')" "is_gone k s'" "k \<le> n"
    "ntohl m \<in> {1, 2, 3} \<Longrightarrow> k < n"
    "sv_index st' = sv_index st \<or> sv_index st' = snd (add_rfc h p (garbage_number g) (sv_index st))"
proof -
  let ?n = "garbage_number g"
  have "fresh_bytes g 4 \<noteq> []" by (simp flip: length_greater_0_conv)
  then have f: "recv_bytes ops (fresh_bytes g 4) s1 = Inr (wire32 ?n, s1)"
    using recv_bytes_gone [OF gone] by (simp add: fresh_bytes_garbage)
  consider "ntohl m = 1" | "ntohl m = 2" | "ntohl m = 3" | "ntohl m \<notin> {1, 2, 3}" by auto
  then show ?thesis
  proof cases
    case 1
    let ?w = "wire32 (if fst (add_rfc h p ?n (sv_index st)) then 200 else 400)"
    have "length ?w < 2 ^ 64" "?w \<noteq> []" by (simp_all flip: length_greater_0_conv)
    with gone show ?thesis
      by (cases rule: send_bytes_gone [of n s1 ?w])
        (use 1 in \<open>auto simp: serve_message_def m server_add_rfc_eq [OF f] intro: that\<close>)
  next
    case 2
    from gone list_answer_bytes(3) [OF ok refl, of g] show ?thesis
      by (cases rule: send_with_size_gone)
        (use 2 in \<open>auto simp: serve_message_def m server_list_rfcs_eq [OF ok refl] intro: that\<close>)
  next
    case 3
    from gone lookup_answer_bytes(3) [OF sendable_lookup [OF ok, of ?n] refl, of g] show ?thesis
      by (cases rule: send_with_size_gone)
        (use 3 in \<open>auto simp: serve_message_def m server_lookup_rfc_eq [OF f ok refl] intro: that\<close>)
  next
    case 4
    then show ?thesis using that(2) [of st s1 n] gone by (simp add: serve_message_def m)
  qed
qed

text \<open>Every second round at least sends something, and only so many calls of \<open>send\<close> are left.\<close>

lemma serve_loop_gone:
  assumes "recv_int ops m s = Inr (m, s1)" "is_gone n s1"
    and "sendable ci" "sendable (snd (add_rfc h p (garbage_number g) ci))"
    and "sv_index st = ci \<or> sv_index st = snd (add_rfc h p (garbage_number g) ci)"
    and "m \<noteq> 4" "ntohl m \<noteq> 4" "m \<in> {1, 2, 3} \<or> ntohl m \<in> {1, 2, 3}"
  shows "serve_loop ops g h p m (st, s) = Some (Inl Killed_by_SIGPIPE)"
  using assms
proof (induction "2 * n + (if ntohl m \<in> {1, 2, 3} then 0 else 1)" arbitrary: m s s1 st n rule: less_induct)
  case less
  have ok: "sendable (sv_index st)" using less.prems(3-5) by auto
  show ?case
  proof (cases rule: serve_message_gone [OF less.prems(1,2) ok, of g h p])
    case 1
    then show ?thesis by (simp add: serve_loop.simps)
  next
    case (2 st' s' k)
    have "serve_loop ops g h p (ntohl m) (st', s') = Some (Inl Killed_by_SIGPIPE)"
    proof (rule less.hyps [OF _ recv_int_gone [OF 2(2)] 2(2) less.prems(3,4)])
      show "2 * k + (if ntohl (ntohl m) \<in> {1, 2, 3} then 0 else 1) < 2 * n + (if ntohl m \<in> {1, 2, 3} then 0 else 1)"
        using less.prems(8) 2(3,4) by auto
      show "sv_index st' = ci \<or> sv_index st' = snd (add_rfc h p (garbage_number g) ci)"
        using less.prems(5) 2(5) by (auto simp: add_rfc_twice)
      show "ntohl m \<in> {1, 2, 3} \<or> ntohl (ntohl m) \<in> {1, 2, 3}" using less.prems(8) by auto
    qed (use less.prems(6,7) in simp_all)
    then show ?thesis using serve_loop_step [OF 2(1)] less.prems(7) by simp
  qed
qed

lemma handler_closed:
  assumes "conn s (session_blocks h p rs) outs" "nul \<notin> set h" "length h + 1 < 2 ^ 31"
    and "list_all proper rs" "all_sendable g h p rs (snd (add_client h p (sv_index st)))"
    and "ci = snd (answers g h p rs (snd (add_client h p (sv_index st))))"
    and "sendable ci" "sendable (snd (add_rfc h p (garbage_number g) ci))"
    and "rs \<noteq> []" "request_word (last rs) \<in> {1, 2, 3}"
  shows "server_client_handler ops g st s = Inl Killed_by_SIGPIPE"
proof -
  have "conn s (session_blocks h p rs @ []) outs" using assms(1) by simp
  from handler_requests [OF this assms(2-5)]
  obtain w st2 s2 outs2 where 1: "server_client_handler ops g st s =
        bnd (run_loop (serve_loop ops g h p w (st2, s2))) (server_leave ops h p)"
      "w = request_word (last rs)" "sv_index st2 = ci" "conn s2 [] outs2"
    using assms(6,9) by metis
  obtain n s3 where "recv_int ops w s2 = Inr (w, s3)" "is_gone n s3" using recv_int_leaving [OF 1(4)] by blast
  moreover have "w \<noteq> 4" "ntohl w \<noteq> 4"
    using assms(10) 1(2) by (auto simp: ntohl_def store32_def)
  ultimately have "serve_loop ops g h p w (st2, s2) = Some (Inl Killed_by_SIGPIPE)"
    using serve_loop_gone [OF _ _ assms(7,8)] 1(2,3) assms(10) by blast
  then show ?thesis using 1(1) by (simp add: run_loop_def)
qed

end

section \<open>Properties\<close>

text \<open>
  C27. A client that closes its connection after its last request, without DISCONNECT, ends the server.  The
  handler repeats the request, the kernel takes \<open>n\<close> more blocks and then raises SIGPIPE, whatever \<open>n\<close> is.
  The handler does not return, and with any other handlers beside it there is a run in which the whole
  process has ended.
\<close>

theorem closed_client_ends_server:
  assumes "eserver_link (Leaving n) cr key iv pre s (session_blocks h p rs) []"
    and "nul \<notin> set h" "length h + 1 < 2 ^ 31" "list_all proper rs"
    and "all_sendable (g i) h p rs (snd (add_client h p (sv_index (sw_state w))))"
    and "ci = snd (answers (g i) h p rs (snd (add_client h p (sv_index (sw_state w)))))"
    and "sendable ci" "sendable (snd (add_rfc h p (garbage_number (g i)) ci))"
    and "rs \<noteq> []" "request_word (last rs) \<in> {1, 2, 3}"
    and "sw_failed w = None" "i < length (sw_threads w)" "sw_threads w ! i = Fresh s"
  shows "server_client_handler (eserver_ops cr m) (g i) (sw_state w) s = Inl Killed_by_SIGPIPE \<and>
    (\<exists>w'. (server_step (eserver_ops cr m) g)\<^sup>*\<^sup>* w (w'\<lparr>sw_failed := Some Killed_by_SIGPIPE\<rparr>))"
proof
  show 1: "server_client_handler (eserver_ops cr m) (g i) (sw_state w) s = Inl Killed_by_SIGPIPE"
    using assms(1-10) by (rule eserver_closed.handler_closed)
  show "\<exists>w'. (server_step (eserver_ops cr m) g)\<^sup>*\<^sup>* w (w'\<lparr>sw_failed := Some Killed_by_SIGPIPE\<rparr>)"
    by (rule failing_handler_ends_server [where g = g and i = i, OF assms(11-13) 1]) simp
qed

text \<open>The same connection when the other side is about to close it.\<close>

definition leaving :: "nat \<Rightarrow> EncryptedServerSocket \<Rightarrow> EncryptedServerSocket" where
  "leaving n s = s\<lparr>es_base := (es_base s)\<lparr>ss_kern := (ss_kern (es_base s))\<lparr>peer_end := Leaving n\<rparr>\<rparr>\<rparr>"

lemma leaving_conn:
  "eserver_conn cr key iv pre s ins outs \<Longrightarrow> eserver_link (Leaving n) cr key iv pre (leaving n s) ins outs"
  by (simp add: leaving_def eserver_link_def kern_link_def)

lemmas demo_leaving_conn = leaving_conn [OF demo_peer_conn]

theorem closed_client_ends_server_witness:
  "server_client_handler (eserver_ops demo_crypto (\<lambda>_. 0)) (\<lambda>_. 0) demo_state
     (leaving 1 (demo_peer (session_blocks ''a'' 1 [Ask_add 791, Ask_list]))) = Inl Killed_by_SIGPIPE"
proof -
  let ?rs = "[Ask_add 791, Ask_list]" and ?h = "''a''"
  let ?s = "leaving 1 (demo_peer (session_blocks ?h 1 ?rs))"
  let ?w = "\<lparr>sw_state = demo_state, sw_threads = [Fresh ?s], sw_failed = None\<rparr>"
  let ?ci = "snd (answers (\<lambda>_. 0) ?h 1 ?rs (snd (add_client ?h 1 (sv_index (sw_state ?w)))))"
  have h: "nul \<notin> set ?h" "length ?h + 1 < 2 ^ 31" "list_all proper ?rs" by (simp_all add: nul_def)
  have ok: "all_sendable (\<lambda>_. 0) ?h 1 ?rs (snd (add_client ?h 1 (sv_index (sw_state ?w))))"
      "sendable ?ci" "sendable (snd (add_rfc ?h 1 (garbage_number (\<lambda>_. 0)) ?ci))"
    by (simp_all add: demo_session_simps)
  have last: "?rs \<noteq> []" "request_word (last ?rs) \<in> {1, 2, 3}" by simp_all
  have w: "sw_failed ?w = None" "0 < length (sw_threads ?w)" "sw_threads ?w ! 0 = Fresh ?s" by simp_all
  from closed_client_ends_server [where g = "\<lambda>_ _. 0" and i = 0 and w = ?w and m = "\<lambda>_. 0",
      OF demo_leaving_conn h ok(1) refl ok(2,3) last w]
  show ?thesis by simp
qed

end
