(* ===== verification/Closed_Downloads.thy ===== *)
theory Closed_Downloads
  imports Client_Properties Closed_Clients
begin

text \<open>
  A peer that closes its connection after a GET, without DISCONNECT.  The handler in \<open>main\<close> of
  \<open>src/client.cpp\<close> has the loop of the server's handler, and comes to the same end: it answers a GET for a
  number read from memory nobody wrote, every second round, until the kernel raises SIGPIPE.
\<close>

section \<open>What may be asked for\<close>

text \<open>Serving files takes descriptors and nothing else, so no text becomes longer.\<close>

lemma stored_text_after_get:
  "stored_text n (snd (get_content k fs)) = stored_text n fs \<or> stored_text n (snd (get_content k fs)) = None"
  by (auto simp: stored_text_def get_content_def Let_def split: node.splits option.splits)

lemma servable_after_get:
  "servable_text (stored_text n fs) \<Longrightarrow> servable_text (stored_text n (snd (get_content k fs)))"
  using stored_text_after_get [of n k fs] by (auto simp: servable_text_def)

definition garbage_short :: "(nat \<Rightarrow> byte) \<Rightarrow> u16" where
  "garbage_short g = ntohs (load16 (fresh_bytes g 2))"

lemma fresh_bytes_garbage_short: "fresh_bytes g 2 = wire16 (garbage_short g)"
  by (simp add: garbage_short_def wire16_def htons_def ntohs_def store16_load16)

section \<open>The loop of the peer\<close>

lemma peer_loop_step:
  assumes "peer_message ops g h p m sts = Inr (w, sts')" "w \<noteq> 2"
  shows "peer_loop ops g h p m sts = peer_loop ops g h p w sts'"
  using assms by (subst peer_loop.simps) simp

context closed_socket
begin

lemma peer_message_gone:
  assumes m: "recv_int ops m s = Inr (m, s1)" and gone: "is_gone n s1"
    and ok: "servable_text (stored_text (scast (garbage_short g)) (pr_fs st))"
  obtains "peer_message ops g h p m (st, s) = Inl Killed_by_SIGPIPE"
  | st' s' k where "peer_message ops g h p m (st, s) = Inr (ntohl m, st', s')" "is_gone k s'" "k \<le> n"
    "ntohl m = 1 \<Longrightarrow> k < n" "servable_text (stored_text (scast (garbage_short g)) (pr_fs st'))"
proof (cases "ntohl m = 1")
  case True
  have "fresh_bytes g 2 \<noteq> []" by (simp flip: length_greater_0_conv)
  then have f: "recv_bytes ops (fresh_bytes g 2) s1 = Inr (wire16 (garbage_short g), s1)"
    using recv_bytes_gone [OF gone] by (simp add: fresh_bytes_garbage_short)
  from gone get_answer_bytes(3) [OF ok, of g] show ?thesis
    by (cases rule: send_with_size_gone)
      (use True servable_after_get [OF ok] in \<open>auto simp: peer_message_def m peer_get_eq [OF f refl ok refl] intro: that\<close>)
next
  case False
  then show ?thesis using that(2) [of st s1 n] gone ok by (simp add: peer_message_def m)
qed

lemma peer_loop_gone:
  assumes "recv_int ops m s = Inr (m, s1)" "is_gone n s1"
    and "servable_text (stored_text (scast (garbage_short g)) (pr_fs st))"
    and "m \<noteq> 2" "ntohl m \<noteq> 2" "m = 1 \<or> ntohl m = 1"
  shows "peer_loop ops g h p m (st, s) = Some (Inl Killed_by_SIGPIPE)"
  using assms
proof (induction "2 * n + (if ntohl m = 1 then 0 else 1)" arbitrary: m s s1 st n rule: less_induct)
  case less
  show ?case
  proof (cases rule: peer_message_gone [OF less.prems(1-3), of h p])
    case 1
    then show ?thesis by (simp add: peer_loop.simps)
  next
    case (2 st' s' k)
    have "peer_loop ops g h p (ntohl m) (st', s') = Some (Inl Killed_by_SIGPIPE)"
    proof (rule less.hyps [OF _ recv_int_gone [OF 2(2)] 2(2,5)])
      show "2 * k + (if ntohl (ntohl m) = 1 then 0 else 1) < 2 * n + (if ntohl m = 1 then 0 else 1)"
        using less.prems(6) 2(3,4) by auto
      show "ntohl m = 1 \<or> ntohl (ntohl m) = 1" using less.prems(6) by auto
    qed (use less.prems(4,5) in simp_all)
    then show ?thesis using peer_loop_step [OF 2(1)] less.prems(5) by simp
  qed
qed

lemma peer_handler_closed:
  assumes "conn s (identity_blocks h p @ [wire32 1, wire16 k]) outs" "nul \<notin> set h" "length h + 1 < 2 ^ 31"
    and "servable_text (stored_text (scast k) (pr_fs st))"
    and "servable_text (stored_text (scast (garbage_short g)) (pr_fs st))"
  shows "peer_handler ops g st s = Inl Killed_by_SIGPIPE"
proof -
  let ?st = "st\<lparr>pr_log := pr_log st @ [''Connection from '' @ print_client h p]\<rparr>"
  from assms(1) have "conn s (wire32 (ulen h) # string_bytes h # wire32 p # [wire32 1, wire16 k]) outs"
    by (simp add: identity_blocks_def)
  from recv_identity_conn [OF this assms(2,3), of g]
  obtain s1 where 1: "recv_identity ops g s = Inr (h, p, s1)" "conn s1 [wire32 1, wire16 k] outs" by auto
  have "servable_text (stored_text (scast k) (pr_fs ?st))" using assms(4) by simp
  from peer_loop_get [OF 1(2) this, of g h p "load32 (fresh_bytes g 4)"]
  obtain st2 s2 outs2 where 2: "peer_loop ops g h p (load32 (fresh_bytes g 4)) (?st, s1) = peer_loop ops g h p 1 (st2, s2)"
      "pr_fs st2 = snd (get_content (scast k) (pr_fs st))" "conn s2 [] outs2" by auto
  obtain n s3 where "recv_int ops 1 s2 = Inr (1, s3)" "is_gone n s3" using recv_int_leaving [OF 2(3)] by blast
  then have "peer_loop ops g h p 1 (st2, s2) = Some (Inl Killed_by_SIGPIPE)"
    using servable_after_get [OF assms(5)] 2(2) by (intro peer_loop_gone) (auto simp: ntohl_def store32_def)
  with 1(1) 2(1) show ?thesis by (simp add: peer_handler_def run_loop_def)
qed

end

section \<open>Properties\<close>

lemma closed_download_ends_peer:
  assumes "eserver_link (Leaving n) cr key iv pre s (identity_blocks h p @ [wire32 1, wire16 k]) []"
    and "nul \<notin> set h" "length h + 1 < 2 ^ 31"
    and "servable_text (stored_text (scast k) (pr_fs st))"
    and "servable_text (stored_text (scast (garbage_short g)) (pr_fs st))"
  shows "peer_handler (eserver_ops cr g') g st s = Inl Killed_by_SIGPIPE"
  using assms by (rule eserver_closed.peer_handler_closed)

text \<open>
  C29. An answer 404 ends the client that gives it.  A client that is told 404 closes its connection and
  sends no DISCONNECT, so the handler of the other one, which has not got the RFC, goes on: after the
  number it was asked for it answers for the number in an array nobody wrote, and however many more
  blocks \<open>k\<close> the kernel takes, SIGPIPE follows.
\<close>

theorem missing_file_ends_peer:
  assumes "eclient_conn cr key iv pre sc [wire32 (ulen w), w] []"
    and "eserver_link (Leaving k) cr key iv pre' ss (identity_blocks h p @ [wire32 1, wire16 (ucast n)]) []"
    and "w = get_wire g' None" "stored_text n (pr_fs pst) = None"
    and "dial (host peer_of) (ucast (port peer_of)) = Inr sc" "0 < sint n" "sint n < 2 ^ 15"
    and "nul \<notin> set h" "length h + 1 < 2 ^ 31"
    and "servable_text (stored_text (scast (garbage_short g')) (pr_fs pst))"
  shows "\<exists>cst' sc'.
    get_from_peer (eclient_ops cr g env) dial g h p n peer_of cst =
      Inr (False, cst', EncryptedClientSocket_disconnect env sc') \<and> pr_fs cst' = pr_fs cst \<and>
    eclient_conn cr key iv pre sc' [] (identity_blocks h p @ [wire32 1, wire16 (ucast n)]) \<and>
    peer_handler (eserver_ops cr g') g' pst ss = Inl Killed_by_SIGPIPE"
proof -
  note short = scast_ucast_short [of n]
  have n: "(scast (ucast n :: u16) :: u32) = n" "0 < sint (ucast n :: u16)" using short assms(6,7) by simp_all
  have "servable_text (stored_text (scast (ucast n :: u16)) (pr_fs pst))"
    using n(1) assms(4) by (simp add: servable_text_def)
  from closed_download_ends_peer [OF assms(2,8,9) this assms(10)]
    eclient_sock.get_from_peer_missing [where dial = dial and c = peer_of and n = n, OF assms(1,9,5) n(2) assms(3), of g env g p cst]
  show ?thesis by (auto simp: eclient_ops_def)
qed

theorem missing_file_ends_peer_witness:
  "\<exists>cst' sc'.
    get_from_peer demo_ops (\<lambda>_ _. Inr (demo_end [wire32 (ulen (get_wire (\<lambda>_. 0) None)), get_wire (\<lambda>_. 0) None])) (\<lambda>_. 0)
        ''c'' 3 791 \<lparr>host = ''b'', port = 2\<rparr> (demo_files []) =
      Inr (False, cst', EncryptedClientSocket_disconnect (demo_env no_kern) sc') \<and>
    peer_handler (eserver_ops demo_crypto (\<lambda>_. 0)) (\<lambda>_. 0) (demo_files [])
      (leaving 3 (demo_peer (identity_blocks ''c'' 3 @ [wire32 1, wire16 (ucast (791 :: u32))]))) = Inl Killed_by_SIGPIPE"
proof -
  have none: "stored_text n (pr_fs (demo_files [])) = None" for n
    by (simp add: stored_text_def get_content_def demo_files_def)
  then have "servable_text (stored_text (scast (garbage_short (\<lambda>_. 0))) (pr_fs (demo_files [])))"
    by (simp add: servable_text_def)
  moreover have "nul \<notin> set ''c''" "length ''c'' + 1 < 2 ^ 31" "0 < sint (791 :: u32)" "sint (791 :: u32) < 2 ^ 15"
    by (simp_all add: nul_def)
  ultimately show ?thesis
    using missing_file_ends_peer [where dial = "\<lambda>_ _. Inr (demo_end [wire32 (ulen (get_wire (\<lambda>_. 0) None)), get_wire (\<lambda>_. 0) None])"
        and g = "\<lambda>_. 0" and env = "demo_env no_kern" and cst = "demo_files []" and peer_of = "\<lparr>host = ''b'', port = 2\<rparr>" and k = 3,
        OF demo_end_conn demo_leaving_conn refl none refl] by blast
qed

end
