(* ===== verification/User_Sessions.thy ===== *)
theory User_Sessions
  imports Network Closed_Downloads
begin

text \<open>
  What the user of a client sees and gets: the command loop of \<open>main\<close> in \<open>src/client.cpp\<close> against an abstract
  session.  A \<open>user_view\<close> is the texts of the own directory and what is on the screen; \<open>view_after\<close> says what a
  command makes of it, given the index and what the peers have, \<open>asks\<close> what the index is asked for, and
  \<open>holder_dialed\<close> whom the client connects to.  Shown for every list of commands: the program asks the
  index for exactly this, prints exactly this, and stores exactly these texts.
\<close>

section \<open>Commands\<close>

datatype command =
    Help
  | Typo string  \<comment> \<open>any other line\<close>
  | Show_index
  | Show_own
  | Get u32

fun command_line :: "command \<Rightarrow> string" where
  "command_line Help = ''help''"
| "command_line (Typo l) = l"
| "command_line Show_index = ''list''"
| "command_line Show_own = ''listl''"
| "command_line (Get n) = ''get '' @ dec_int (sint n)"

text \<open>
  Any \<open>int\<close> that is not negative can be typed.  A number is no good to the program if it is not positive any
  more when it has become the \<open>short\<close> that a peer is asked for: then its behaviour is undefined
  (\<open>large_number_get_undefined\<close>).
\<close>

fun well_typed :: "command \<Rightarrow> bool" where
  "well_typed (Typo l) \<longleftrightarrow> idle_line l \<and> l \<noteq> ''help''"
| "well_typed (Get n) \<longleftrightarrow> 0 \<le> sint n \<and> (0 < sint n \<longrightarrow> 0 < sint (asked n))"
| "well_typed _ \<longleftrightarrow> True"

section \<open>The abstract session\<close>

record user_view =
  texts :: "u32 \<Rightarrow> string option"
  screen :: "string list"

definition own_numbers :: "user_view \<Rightarrow> u32 list" where
  "own_numbers v = sorted_list_of_set (dom (texts v))"

definition prints :: "string list \<Rightarrow> user_view \<Rightarrow> user_view" where
  "prints ls v = v\<lparr>screen := screen v @ ls\<rparr>"

text \<open>A number is looked up when it is positive and not there yet; the first holder is asked for it.\<close>

definition looked_up :: "user_view \<Rightarrow> u32 \<Rightarrow> bool" where
  "looked_up v n \<longleftrightarrow> 0 < sint n \<and> texts v n = None"

fun holder_dialed :: "CentralIndex \<Rightarrow> user_view \<Rightarrow> command \<Rightarrow> (u32 \<times> Client) option" where
  "holder_dialed ci v (Get n) =
     (if looked_up v n then case find_rfcs n ci of [] \<Rightarrow> None | d # _ \<Rightarrow> Some (n, d) else None)"
| "holder_dialed ci v _ = None"

text \<open>
  \<open>offer d n\<close> is the text client \<open>d\<close> has for \<open>n\<close>.  A download looks \<open>n\<close> up, stores and registers the text under
  \<open>n\<close>, but asks the holder for \<open>asked n\<close>.
\<close>

fun asks :: "(Client \<Rightarrow> u32 \<Rightarrow> string option) \<Rightarrow> CentralIndex \<Rightarrow> user_view \<Rightarrow> command \<Rightarrow> request list" where
  "asks offer ci v Show_index = [Ask_list]"
| "asks offer ci v (Get n) =
     (if looked_up v n
      then Ask_lookup n #
        (case find_rfcs n ci of [] \<Rightarrow> [] | d # _ \<Rightarrow> if offer d (asked n) = None then [] else [Ask_add n])
      else [])"
| "asks offer ci v _ = []"

definition local_table :: "u32 list \<Rightarrow> string list" where
  "local_table ns =
     (if ns = [] then [''No RFCs stored locally'']
      else ''| RFC  |'' # map (\<lambda>n. ''| '' @ setw_left 4 (dec_int (sint n)) @ '' |'') ns)"

definition index_table :: "CentralIndex \<Rightarrow> string \<Rightarrow> u32 \<Rightarrow> string list" where
  "index_table ci h p = (if rfcs ci = [] then [''No RFCs are in the index''] else print_rfc_list (rfcs ci) h p)"

definition downloaded :: "string \<Rightarrow> u32 \<Rightarrow> CentralIndex \<Rightarrow> u32 \<Rightarrow> Client \<Rightarrow> string option \<Rightarrow> user_view \<Rightarrow> user_view" where
  "downloaded h p ci n d t v =
     (let v = prints [''Connected to peer '' @ print_client (host d) (port d)] v
      in case t of
          None \<Rightarrow> prints [''Peer returned 404 for RFC'' @ dec_int (sint n)] v
        | Some body \<Rightarrow>
            prints ([''Download of RFC'' @ dec_int (sint n) @ '' complete''] @
                (if fst (add_rfc h p n ci) then [] else [''Error notifying index'']))
              (v\<lparr>texts := (texts v)(n \<mapsto> body)\<rparr>))"

text \<open>\<open>ix k\<close> is the index at the time of the request that comes after \<open>k\<close> others.\<close>

fun view_after ::
    "string \<Rightarrow> u32 \<Rightarrow> (Client \<Rightarrow> u32 \<Rightarrow> string option) \<Rightarrow> (nat \<Rightarrow> CentralIndex) \<Rightarrow> user_view \<Rightarrow> command \<Rightarrow> user_view" where
  "view_after h p offer ix v Help = prints cli_help v"
| "view_after h p offer ix v (Typo l) = prints [''Invalid command''] v"
| "view_after h p offer ix v Show_index = prints (index_table (ix 0) h p) v"
| "view_after h p offer ix v Show_own = prints (local_table (own_numbers v)) v"
| "view_after h p offer ix v (Get n) =
     (if sint n \<le> 0 then prints [''RFC number must be positive integer''] v
      else if texts v n \<noteq> None then prints [''Already have RFC'' @ dec_int (sint n)] v
      else case find_rfcs n (ix 0) of
          [] \<Rightarrow> prints [''No nodes with RFC'' @ dec_int (sint n)] v
        | d # _ \<Rightarrow> downloaded h p (ix 1) n d (offer d (asked n)) v)"

definition prompt_line :: string where
  "prompt_line = CHR 0x0A # ''> ''"

text \<open>
  All commands and then \<open>quit\<close>: what the index is asked for, the downloads with the number of lines that are left
  to be read after the command, and the view at the end.  In \<open>lone_session\<close> nobody else changes the index.
\<close>

definition dialed :: "CentralIndex \<Rightarrow> user_view \<Rightarrow> command \<Rightarrow> nat \<Rightarrow> (nat \<times> u32 \<times> Client) list" where
  "dialed ci v c k = (case holder_dialed ci v c of None \<Rightarrow> [] | Some (n, d) \<Rightarrow> [(k, n, d)])"

fun user_session ::
    "string \<Rightarrow> u32 \<Rightarrow> (Client \<Rightarrow> u32 \<Rightarrow> string option) \<Rightarrow> command list \<Rightarrow> (nat \<Rightarrow> CentralIndex) \<Rightarrow> user_view \<Rightarrow>
     request list \<times> (nat \<times> u32 \<times> Client) list \<times> user_view" where
  "user_session h p offer [] ix v = ([], [], prints [prompt_line] v)"
| "user_session h p offer (c # cs) ix v =
     (let v = prints [prompt_line] v; rs = asks offer (ix 0) v c;
          (rs', ds, v') = user_session h p offer cs (\<lambda>k. ix (k + length rs)) (view_after h p offer ix v c)
      in (rs @ rs', dialed (ix 0) v c (Suc (length cs)) @ ds, v'))"

fun lone_session ::
    "string \<Rightarrow> u32 \<Rightarrow> (nat \<Rightarrow> byte) \<Rightarrow> (Client \<Rightarrow> u32 \<Rightarrow> string option) \<Rightarrow> command list \<Rightarrow> CentralIndex \<Rightarrow> user_view \<Rightarrow>
     request list \<times> (nat \<times> u32 \<times> Client) list \<times> user_view" where
  "lone_session h p g offer [] ci v = ([], [], prints [prompt_line] v)"
| "lone_session h p g offer (c # cs) ci v =
     (let v = prints [prompt_line] v; rs = asks offer ci v c;
          (rs', ds, v') = lone_session h p g offer cs (snd (answers g h p rs ci)) (view_after h p offer (\<lambda>_. ci) v c)
      in (rs @ rs', dialed ci v c (Suc (length cs)) @ ds, v'))"

section \<open>Answers from indexes that others change\<close>

definition seen :: "(nat \<Rightarrow> byte) \<Rightarrow> string \<Rightarrow> u32 \<Rightarrow> request list \<Rightarrow> (nat \<Rightarrow> CentralIndex) \<Rightarrow> byte list list" where
  "seen g h p rs ix = concat (map (\<lambda>k. fst (answer g h p (rs ! k) (ix k))) [0..<length rs])"

definition readable :: "request \<Rightarrow> CentralIndex \<Rightarrow> bool" where
  "readable r ci \<longleftrightarrow> request_sendable r ci \<and> (\<forall>q \<in> set (rfcs ci). nul \<notin> set (host (peer q)))"

definition all_readable :: "request list \<Rightarrow> (nat \<Rightarrow> CentralIndex) \<Rightarrow> bool" where
  "all_readable rs ix \<longleftrightarrow> (\<forall>k < length rs. readable (rs ! k) (ix k))"

lemma seen_simps [simp]:
  "seen g h p [] ix = []"
  "seen g h p (r # rs) ix = fst (answer g h p r (ix 0)) @ seen g h p rs (\<lambda>k. ix (Suc k))"
  by (simp_all add: seen_def map_upt_Suc del: upt_Suc)

lemma all_readable_simps [simp]:
  "all_readable [] ix"
  "all_readable (r # rs) ix \<longleftrightarrow> readable r (ix 0) \<and> all_readable rs (\<lambda>k. ix (Suc k))"
  by (auto simp: all_readable_def less_Suc_eq_0_disj)

lemma seen_append: "seen g h p (rs @ rs') ix = seen g h p rs ix @ seen g h p rs' (\<lambda>k. ix (k + length rs))"
  by (induction rs arbitrary: ix) simp_all

lemma all_readable_append:
  "all_readable (rs @ rs') ix \<longleftrightarrow> all_readable rs ix \<and> all_readable rs' (\<lambda>k. ix (k + length rs))"
  by (induction rs arbitrary: ix) simp_all

abbreviation lone_ix :: "(nat \<Rightarrow> byte) \<Rightarrow> string \<Rightarrow> u32 \<Rightarrow> request list \<Rightarrow> CentralIndex \<Rightarrow> nat \<Rightarrow> CentralIndex" where
  "lone_ix g h p rs ci k \<equiv> snd (answers g h p (take k rs) ci)"

lemma lone_ix_Suc [simp]: "lone_ix g h p (r # rs) ci (Suc k) = lone_ix g h p rs (snd (answer g h p r ci)) k"
  by (simp add: case_prod_beta)

lemma seen_lone: "seen g h p rs (lone_ix g h p rs ci) = fst (answers g h p rs ci)"
proof (induction rs arbitrary: ci)
  case (Cons r rs)
  have "(\<lambda>k. lone_ix g h p (r # rs) ci (Suc k)) = lone_ix g h p rs (snd (answer g h p r ci))"
    by (simp add: case_prod_beta)
  with Cons show ?case by (simp add: case_prod_beta del: lone_ix_Suc take_Suc_Cons)
qed simp

lemma index_typed_answers: "index_typed ci \<Longrightarrow> index_typed (snd (answers g h p rs ci))"
proof (induction rs arbitrary: ci)
  case (Cons r rs)
  have "index_typed (snd (answer g h p r ci))" using Cons.prems by (cases r) (simp_all add: index_typed_add_rfc)
  with Cons.IH show ?case by (simp add: case_prod_beta)
qed simp

lemma all_readable_lone:
  assumes "all_sendable g h p rs ci" "index_typed ci"
  shows "all_readable rs (lone_ix g h p rs ci)"
  using assms
proof (induction rs arbitrary: ci)
  case (Cons r rs)
  have "index_typed (snd (answer g h p r ci))" using index_typed_answers [OF Cons.prems(2), of g h p "[r]"]
    by (simp add: case_prod_beta)
  moreover have "(\<lambda>k. lone_ix g h p (r # rs) ci (Suc k)) = lone_ix g h p rs (snd (answer g h p r ci))"
    by (simp add: case_prod_beta)
  ultimately show ?case using Cons index_typed_holders [OF Cons.prems(2)]
    by (simp add: readable_def del: lone_ix_Suc take_Suc_Cons)
qed simp

lemma lone_user_session:
  "lone_session h p g offer cs ci v = (rs, ds, v') \<Longrightarrow> user_session h p offer cs (lone_ix g h p rs ci) v = (rs, ds, v')"
proof (induction cs arbitrary: ci v rs ds)
  case (Cons c cs)
  let ?v = "prints [prompt_line] v"
  let ?a = "asks offer ci ?v c"
  obtain rs1 ds1 where rec: "lone_session h p g offer cs (snd (answers g h p ?a ci)) (view_after h p offer (\<lambda>_. ci) ?v c) = (rs1, ds1, v')"
      "rs = ?a @ rs1" "ds = dialed ci ?v c (Suc (length cs)) @ ds1"
    using Cons.prems by (auto simp: Let_def split: prod.splits)
  have view: "view_after h p offer (lone_ix g h p rs ci) ?v c = view_after h p offer (\<lambda>_. ci) ?v c"
    unfolding rec(2) by (cases c) (auto simp: looked_up_def case_prod_beta split: list.splits)
  have "(\<lambda>k. lone_ix g h p rs ci (k + length ?a)) = lone_ix g h p rs1 (snd (answers g h p ?a ci))"
    unfolding rec(2) by (simp add: answers_append)
  note tail = this Cons.IH [OF rec(1)]
  have zero: "lone_ix g h p rs ci 0 = ci" by simp
  show ?case unfolding user_session.simps Let_def zero view tail prod.case using rec(2,3) by simp
qed simp

section \<open>What a process shows\<close>

definition viewed :: "peer_state \<Rightarrow> user_view \<Rightarrow> bool" where
  "viewed st v \<longleftrightarrow> pr_log st = screen v \<and> fs_writable (pr_fs st) \<and> finite (dom (texts v)) \<and>
     fst (get_rfcs (pr_fs st)) = Inr (own_numbers v) \<and>
     (\<forall>n t. texts v n = Some t \<longrightarrow> 0 < sint n \<and> stores n t (pr_fs st))"

lemma sint_uint: "0 \<le> sint (n :: u32) \<Longrightarrow> sint n = uint n"
proof -
  assume n: "0 \<le> sint n"
  define k where "k = nat (sint n)"
  have k: "k < 2 ^ 31" "int k = sint n" using n sint_less [of n] by (simp_all add: k_def)
  have "sint n = sint (of_nat k :: u32)" using k sint_nonneg_small [of k] by simp
  then have "n = of_nat k" by (rule signed_word_eqI)
  with k show ?thesis by (simp add: unsigned_of_nat take_bit_nat_eq_self)
qed

lemma numbers_sorted:
  assumes "fst (get_rfcs fs) = Inr ns" "distinct ns" "\<forall>n \<in> set ns. 0 < sint n"
  shows "ns = sorted_list_of_set (set ns)"
proof -
  have "sorted_wrt (\<lambda>x y. \<not> int_less y x) ns" by (rule get_rfcs_sorted [OF assms(1)])
  then have "sorted_wrt (\<le>) ns"
  proof (rule sorted_wrt_mono_rel [rotated])
    fix x y assume xy: "x \<in> set ns" "y \<in> set ns" "\<not> int_less y x"
    then have "0 < sint x" "0 < sint y" using assms(3) by auto
    with xy(3) show "x \<le> y" by (simp add: int_less_def sint_uint word_le_def)
  qed
  then show ?thesis using assms(2) by (simp add: sorted_list_of_set.idem_if_sorted_distinct)
qed

lemma viewed_prints: "viewed st v \<Longrightarrow> viewed (st\<lparr>pr_log := pr_log st @ ls\<rparr>) (prints ls v)"
  by (simp add: viewed_def prints_def own_numbers_def)

lemma viewed_prompted: "viewed st v \<Longrightarrow> viewed (prompted st) (prints [prompt_line] v)"
  using viewed_prints [of st v "[prompt_line]"] by (simp add: prompted_def prompt_line_def)

lemma texts_prints [simp]: "texts (prints ls v) = texts v" "own_numbers (prints ls v) = own_numbers v"
  "looked_up (prints ls v) n = looked_up v n"
  by (simp_all add: prints_def own_numbers_def looked_up_def)

lemma viewed_numbers:
  assumes "viewed st v"
  shows "set (own_numbers v) = dom (texts v)" "distinct (own_numbers v)"
  using assms by (simp_all add: viewed_def own_numbers_def)

lemma viewed_stored:
  assumes "viewed st v" "texts v n = None" "0 < sint n" "plain_text t"
  shows "viewed \<lparr>pr_fs = snd (rm_add_rfc n t (pr_fs st)), pr_log = l\<rparr> (v\<lparr>texts := (texts v)(n \<mapsto> t), screen := l\<rparr>)"
proof -
  let ?fs = "pr_fs st" and ?v = "v\<lparr>texts := (texts v)(n \<mapsto> t), screen := l\<rparr>"
  let ?fs' = "snd (rm_add_rfc n t ?fs)"
  have v: "fs_writable ?fs" "finite (dom (texts v))" "fst (get_rfcs ?fs) = Inr (own_numbers v)"
      "\<And>m t. texts v m = Some t \<Longrightarrow> 0 < sint m \<and> stores m t ?fs"
    using assms(1) by (auto simp: viewed_def)
  have new: "n \<notin> set (own_numbers v)" using assms(2) viewed_numbers(1) [OF assms(1)] by auto
  obtain ms where ms: "fst (get_rfcs ?fs') = Inr ms" "mset ms = add_mset n (mset (own_numbers v))"
    using get_rfcs_after_add [OF v(3) new _ v(1)] assms(3) by fastforce
  then have set_ms: "set ms = insert n (dom (texts v))"
    using viewed_numbers(1) [OF assms(1)] by (metis set_mset_add_mset_insert set_mset_mset)
  have "distinct (n # own_numbers v)" using new viewed_numbers(2) [OF assms(1)] by simp
  then have "distinct ms" using ms(2) by (metis mset.simps(2) mset_eq_imp_distinct_iff)
  moreover have "\<forall>m \<in> set ms. 0 < sint m" using set_ms assms(3) v(4) by auto
  ultimately have "ms = own_numbers ?v"
    using numbers_sorted [OF ms(1)] set_ms by (simp add: own_numbers_def)
  moreover have "stores n t ?fs'"
    using stores_new [OF v(3) new _ v(1), of t] assms(3,4) by (simp add: plain_text_def)
  moreover have "stores m u ?fs'" if "texts v m = Some u" for m u
    using v(4) [OF that] stores_add_rfc [of m u ?fs n t] that assms(2,3) by fastforce
  moreover have "fs_writable ?fs'" using v(1) by (simp add: rm_add_rfc_def Let_def split: node.splits)
  ultimately show ?thesis using ms(1) v(2,4) assms(3) by (auto simp: viewed_def split: if_splits)
qed

section \<open>One command\<close>

text \<open>The peer a command connects to gives the text it is said to have.\<close>

definition peer_gives ::
    "'p sock_ops \<Rightarrow> (string \<Rightarrow> u16 \<Rightarrow> 'p result) \<Rightarrow> (nat \<Rightarrow> byte) \<Rightarrow> string \<Rightarrow> u32 \<Rightarrow> u32 \<Rightarrow> Client \<Rightarrow> string option \<Rightarrow> bool" where
  "peer_gives pops dial g h p n d t \<longleftrightarrow>
     (\<forall>st. \<exists>sp. get_from_peer pops dial g h p n d st = Inr (t \<noteq> None, fetched n d t st, sp))"

lemma viewed_fetched:
  assumes "viewed st v" "looked_up v n" "\<forall>body. t = Some body \<longrightarrow> plain_text body"
  shows "viewed (if t = None then fetched n d t st else notified (fst (add_rfc h p n ci)) (fetched n d t st))
    (downloaded h p ci n d t v)"
proof (cases t)
  case None
  then show ?thesis
    using viewed_prints [OF viewed_prints [OF assms(1)], of "[''Connected to peer '' @ print_client (host d) (port d)]"
        "[''Peer returned 404 for RFC'' @ dec_int (sint n)]"]
    by (simp add: fetched_def downloaded_def Let_def)
next
  case (Some body)
  note st = viewed_stored [OF assms(1), of n body]
  have log: "pr_log st = screen v" using assms(1) by (simp add: viewed_def)
  show ?thesis
    using st [of "screen v @ [''Connected to peer '' @ print_client (host d) (port d),
        ''Download of RFC'' @ dec_int (sint n) @ '' complete'']"]
      st [of "screen v @ [''Connected to peer '' @ print_client (host d) (port d),
        ''Download of RFC'' @ dec_int (sint n) @ '' complete'', ''Error notifying index'']"] assms(2,3) Some
    by (simp add: fetched_def downloaded_def notified_def prints_def looked_up_def log)
qed

context frame_socket
begin

lemma client_get_rfc_viewed:
  assumes "viewed st v" "conn s (seen g' h p (asks offer (ix 0) v (Get n)) ix @ ins) outs"
    and "all_readable (asks offer (ix 0) v (Get n)) ix" "well_typed (Get n)"
    and "\<forall>d. holder_dialed (ix 0) v (Get n) = Some (n, d) \<longrightarrow> peer_gives pops dial g h p n d (offer d (asked n)) \<and>
      (\<forall>body. offer d (asked n) = Some body \<longrightarrow> plain_text body)"
  shows "\<exists>st' s'. client_get_rfc ops pops dial g n h p (st, s) = Inr (st', s') \<and>
    viewed st' (view_after h p offer ix v (Get n)) \<and>
    conn s' ins (outs @ concat (map request_blocks (asks offer (ix 0) v (Get n))))"
proof -
  have dir: "fst (get_rfcs (pr_fs st)) = Inr (own_numbers v)" "set (own_numbers v) = dom (texts v)"
    using assms(1) viewed_numbers(1) by (simp_all add: viewed_def)
  note keeps = get_rfcs_keeps [OF dir(1)]
  have check: "check_if_rfc_stored n (pr_fs st) = (Inr (texts v n \<noteq> None), pr_fs st)"
    using dir keeps by (auto simp: check_if_rfc_stored_def case_prod_beta Let_def has_number_iff)
  show ?thesis
  proof (cases "looked_up v n")
    case False
    then show ?thesis using assms(1,2) check viewed_prints [OF assms(1)]
      by (auto simp: client_get_rfc_def looked_up_def)
  next
    case True
    then have n: "0 < sint n" "texts v n = None" by (simp_all add: looked_up_def)
    let ?cs = "find_rfcs n (ix 0)"
    let ?w = "lookup_wire g' ?cs"
    have send: "hosts_ok ?cs" "length (clients_wire ?cs) + 9 < 2 ^ 31"
      using assms(3) True sendable_lookup [of "ix 0" n] by (simp_all add: readable_def)
    have clean: "\<forall>d \<in> set ?cs. nul \<notin> set (host d)"
      using assms(3) True by (force simp: readable_def find_rfcs_def index_simps)
    obtain rest where rest: "seen g' h p (asks offer (ix 0) v (Get n)) ix = wire32 (ulen ?w) # ?w # rest"
      using True by auto
    with assms(2) have "conn s (wire32 (ulen ?w) # ?w # (rest @ ins)) outs" by simp
    from client_get_rfc_after_lookup [where dial = dial and pops = pops and g = g and h = h and p = p, OF this dir(1) n(1) _ refl send clean] dir(2) n(2)
    obtain s1 where 1: "conn s1 (rest @ ins) (outs @ request_blocks (Ask_lookup n))"
        "client_get_rfc ops pops dial g n h p (st, s) = (case ?cs of
           [] \<Rightarrow> Inr (st\<lparr>pr_log := pr_log st @ [''No nodes with RFC'' @ dec_int (sint n)]\<rparr>, s1)
         | c # _ \<Rightarrow> bnd (get_from_peer pops dial g h p n c st)
             (\<lambda>(got, st, _). if \<not> got then Inr (st, s1) else client_notify ops g n (st, s1)))" by auto
    show ?thesis
    proof (cases ?cs)
      case Nil
      with 1 rest True viewed_prints [OF assms(1), of "[''No nodes with RFC'' @ dec_int (sint n)]"] show ?thesis
        using n by (intro exI [of _ s1] exI) simp
    next
      case (Cons d ds)
      with True have "holder_dialed (ix 0) v (Get n) = Some (n, d)" by simp
      with assms(5) have d: "peer_gives pops dial g h p n d (offer d (asked n))" "\<forall>body. offer d (asked n) = Some body \<longrightarrow> plain_text body"
        by blast+
      let ?st = "fetched n d (offer d (asked n)) st" and ?ok = "fst (add_rfc h p n (ix 1))"
      from d(1) obtain sp where get: "get_from_peer pops dial g h p n d st = Inr (offer d (asked n) \<noteq> None, ?st, sp)"
        unfolding peer_gives_def by blast
      note after = viewed_fetched [OF assms(1) True d(2), of d h p "ix 1"]
      show ?thesis
      proof (cases "offer d (asked n)")
        case None
        then have "rest = []" using rest True Cons by simp
        with 1 Cons n get after None True show ?thesis by (intro exI [of _ s1] exI) simp
      next
        case (Some body)
        have "rest = [wire32 (if ?ok then 200 else 400)]" using rest True Cons Some by simp
        with 1(1) have "conn s1 (wire32 (if ?ok then 200 else 400) # ins) (outs @ request_blocks (Ask_lookup n))" by simp
        from client_notify_answered [OF this n(1), of g ?st]
        obtain s2 where "client_notify ops g n (?st, s1) = Inr (notified ?ok ?st, s2)"
            "conn s2 ins (outs @ request_blocks (Ask_lookup n) @ request_blocks (Ask_add n))" by auto
        with 1(2) Cons n get after Some True show ?thesis by (intro exI [of _ s2] exI) simp
      qed
    qed
  qed
qed

lemma run_command_viewed:
  assumes "viewed st v" "conn s (seen g' h p (asks offer (ix 0) v c) ix @ ins) outs"
    and "all_readable (asks offer (ix 0) v c) ix" "well_typed c"
    and "\<forall>n d. holder_dialed (ix 0) v c = Some (n, d) \<longrightarrow> peer_gives pops dial g h p n d (offer d (asked n)) \<and>
      (\<forall>body. offer d (asked n) = Some body \<longrightarrow> plain_text body)"
  shows "\<exists>st' s'. run_command ops pops dial g h p (command_line c) (st, s) = Inr (st', s') \<and>
    viewed st' (view_after h p offer ix v c) \<and>
    conn s' ins (outs @ concat (map request_blocks (asks offer (ix 0) v c)))"
proof (cases c)
  case Help
  with assms(1,2) viewed_prints [OF assms(1), of cli_help] show ?thesis
    by (auto simp: run_command_def get_match_def c_string_id nul_def)
next
  case (Typo l)
  with assms(1,2,4) viewed_prints [OF assms(1), of "[''Invalid command'']"] show ?thesis
    by (auto simp: run_command_def idle_line_def)
next
  case Show_index
  have send: "sendable (ix 0)" "\<forall>r \<in> set (rfcs (ix 0)). nul \<notin> set (host (peer r))"
    using assms(3) Show_index by (simp_all add: readable_def)
  have "conn s (fst (answer g' h p Ask_list (ix 0)) @ ins) outs" using assms(2) Show_index by simp
  from list_rfcs_remote_conn [OF this send, of g h p st]
  obtain s' where "list_rfcs_remote ops g h p (st, s) = Inr (st\<lparr>pr_log := pr_log st @ index_table (ix 0) h p\<rparr>, s')"
      "conn s' ins (outs @ [wire32 2])" by (auto simp: index_table_def)
  with Show_index viewed_prints [OF assms(1), of "index_table (ix 0) h p"] show ?thesis
    by (auto simp: run_command_def get_match_def c_string_id nul_def)
next
  case Show_own
  have dir: "fst (get_rfcs (pr_fs st)) = Inr (own_numbers v)" using assms(1) by (simp add: viewed_def)
  have "list_rfcs_local st = Inr (st\<lparr>pr_log := pr_log st @ local_table (own_numbers v)\<rparr>)"
    using dir get_rfcs_keeps [OF dir] by (simp add: list_rfcs_local_def local_table_def case_prod_beta Let_def)
  with assms(2) Show_own viewed_prints [OF assms(1), of "local_table (own_numbers v)"] show ?thesis
    by (auto simp: run_command_def get_match_def c_string_id nul_def)
next
  case (Get n)
  then have "\<forall>d. holder_dialed (ix 0) v (Get n) = Some (n, d) \<longrightarrow> peer_gives pops dial g h p n d (offer d (asked n)) \<and>
      (\<forall>body. offer d (asked n) = Some body \<longrightarrow> plain_text body)" using assms(5) by blast
  note got = client_get_rfc_viewed [OF assms(1) assms(2-4) [unfolded Get] this]
  have "run_command ops pops dial g h p (command_line c) (st, s) = client_get_rfc ops pops dial g n h p (st, s)"
    unfolding Get command_line.simps using assms(4) by (intro run_command_number) (simp add: Get)
  with got show ?thesis unfolding Get by simp
qed

section \<open>All commands\<close>

lemma command_loop_next:
  assumes "run_command ops pops (dial (length lines)) g a prt l (prompted st, s) = Inr (st', s')" "l \<noteq> ''quit''"
  shows "command_loop ops pops dial g a prt (l # lines) (st, s) = command_loop ops pops dial g a prt lines (st', s')"
  using assms by (subst command_loop.simps) simp

lemma not_quit: "well_typed c \<Longrightarrow> command_line c \<noteq> ''quit''"
  by (cases c) (auto simp: idle_line_def)

lemma command_loop_viewed:
  assumes "viewed st v" "conn s (seen g' h p rs ix @ ins) outs" "all_readable rs ix"
    and "list_all well_typed cs" "user_session h p offer cs ix v = (rs, ds, v')"
    and "\<forall>(k, n, d) \<in> set ds. peer_gives pops (dial k) g h p n d (offer d (asked n)) \<and>
      (\<forall>body. offer d (asked n) = Some body \<longrightarrow> plain_text body)"
  shows "\<exists>st' s'. command_loop ops pops dial g h p (map command_line cs @ [''quit'']) (st, s) = Some (Inr (st', s')) \<and>
    viewed st' v' \<and> conn s' ins (outs @ concat (map request_blocks rs))"
  using assms
proof (induction cs arbitrary: st s v ix rs ds outs)
  case Nil
  then show ?case using viewed_prompted [of st v] command_loop_quit [of pops dial g h p "[]" st s] by auto
next
  case (Cons c cs)
  let ?v = "prints [prompt_line] v" and ?lines = "map command_line cs @ [''quit'']"
  let ?rs = "asks offer (ix 0) ?v c" and ?dial = "dial (length ?lines)"
  let ?ix = "\<lambda>k. ix (k + length ?rs)" and ?v1 = "view_after h p offer ix ?v c"
  obtain rs1 ds1 where rec: "user_session h p offer cs ?ix ?v1 = (rs1, ds1, v')"
      "rs = ?rs @ rs1" "ds = dialed (ix 0) ?v c (Suc (length cs)) @ ds1"
    using Cons.prems(5) by (auto simp: Let_def split: prod.splits)
  have conn: "conn s (seen g' h p ?rs ix @ (seen g' h p rs1 ?ix @ ins)) outs"
    using Cons.prems(2) rec(2) by (simp add: seen_append)
  have good: "all_readable ?rs ix" "all_readable rs1 ?ix"
    using Cons.prems(3) rec(2) by (simp_all add: all_readable_append)
  have wt: "well_typed c" "list_all well_typed cs" using Cons.prems(4) by simp_all
  have give: "\<forall>n d. holder_dialed (ix 0) ?v c = Some (n, d) \<longrightarrow> peer_gives pops ?dial g h p n d (offer d (asked n)) \<and>
      (\<forall>body. offer d (asked n) = Some body \<longrightarrow> plain_text body)"
    using Cons.prems(6) rec(3) by (auto simp: dialed_def)
  from run_command_viewed [where ix = ix, OF viewed_prompted [OF Cons.prems(1)] conn good(1) wt(1) give]
  obtain st1 s1 where 1: "run_command ops pops ?dial g h p (command_line c) (prompted st, s) = Inr (st1, s1)"
      "viewed st1 ?v1" "conn s1 (seen g' h p rs1 ?ix @ ins) (outs @ concat (map request_blocks ?rs))" by blast
  from Cons.IH [OF 1(2,3) good(2) wt(2) rec(1)] Cons.prems(6) rec(3)
  obtain st2 s2 where 2: "command_loop ops pops dial g h p ?lines (st1, s1) = Some (Inr (st2, s2))" "viewed st2 v'"
      "conn s2 ins (outs @ concat (map request_blocks ?rs) @ concat (map request_blocks rs1))" by auto
  with command_loop_next [where dial = dial and lines = ?lines, OF 1(1) not_quit [OF wt(1)]] rec(2) show ?case by auto
qed

lemma client_session_viewed:
  assumes "viewed st v" "conn s (wire32 PROTOCOL_VERSION # map (\<lambda>_. wire32 200) (own_numbers v) @ seen g' h p rs ix) []"
    and "length h + 1 < 2 ^ 31" "all_readable rs ix" "list_all well_typed cs"
    and "user_session h p offer cs ix v = (rs, ds, v')"
    and "\<forall>(k, n, d) \<in> set ds. peer_gives pops (dial k) g h p n d (offer d (asked n)) \<and>
      (\<forall>body. offer d (asked n) = Some body \<longrightarrow> plain_text body)"
  shows "\<exists>st' s'. client_session ops pops dial g h p (map command_line cs @ [''quit'']) (st, s) = Inr (0, st', vclose ops s') \<and>
    viewed st' v' \<and> conn s' [] (session_blocks h p (map Ask_add (own_numbers v) @ rs) @ [wire32 4])"
proof -
  let ?lines = "map command_line cs @ [''quit'']"
  have dir: "fst (get_rfcs (pr_fs st)) = Inr (own_numbers v)" "\<forall>n \<in> set (own_numbers v). 0 < sint n"
    using assms(1) viewed_numbers(1) [OF assms(1)] by (auto simp: viewed_def)
  from client_session_start [OF assms(2,3) dir, of pops dial g p ?lines]
  obtain s1 where 1: "client_session ops pops dial g h p ?lines (st, s) =
      bnd (run_loop (command_loop ops pops dial g h p ?lines (st, s1)))
        (\<lambda>(st, s). bnd (client_disconnect ops s) (\<lambda>s. Inr (0, st, s)))"
      "conn s1 (seen g' h p rs ix) (session_blocks h p (map Ask_add (own_numbers v)))" by blast
  have "conn s1 (seen g' h p rs ix @ []) (session_blocks h p (map Ask_add (own_numbers v)))" using 1(2) by simp
  from command_loop_viewed [where dial = dial, OF assms(1) this assms(4-7)]
  obtain st2 s2 where 2: "command_loop ops pops dial g h p ?lines (st, s1) = Some (Inr (st2, s2))" "viewed st2 v'"
      "conn s2 [] (session_blocks h p (map Ask_add (own_numbers v) @ rs))"
    by (auto simp: session_blocks_def)
  from client_disconnect_conn [OF 2(3)] 1(1) 2(1,2) show ?thesis by (auto simp: run_loop_def)
qed

text \<open>A connection on which the peer's answer arrives.\<close>

lemma peer_gives_conn:
  assumes "conn s [wire32 (ulen (get_wire g' t)), get_wire g' t] []" "dial (host d) (ucast (port d)) = Inr s"
    and "0 < sint (asked n)" "length h + 1 < 2 ^ 31" "\<forall>body. t = Some body \<longrightarrow> plain_text body"
  shows "peer_gives ops dial g h p n d t"
  unfolding peer_gives_def
proof
  fix st
  have n: "0 < sint (ucast n :: u16)" using assms(3) by (simp only: sint_asked)
  have ok: "servable_text t" "\<forall>body. t = Some body \<longrightarrow> nul \<notin> set body"
    using assms(5) by (auto simp: servable_text_def plain_text_def split: option.splits)
  from get_from_peer_fetches [where dial = dial and c = d and n = n, OF assms(1,4,2) n refl ok, of g p st]
  show "\<exists>sp. get_from_peer ops dial g h p n d st = Inr (t \<noteq> None, fetched n d t st, sp)" by blast
qed

end

section \<open>The index in the meantime\<close>

lemma downloads_typed:
  assumes "user_session h p offer cs ix v = (rs, ds, v')" "(k, n, d) \<in> set ds" "list_all well_typed cs"
  shows "0 < sint (asked n)"
  using assms
proof (induction cs arbitrary: ix v rs ds)
  case (Cons c cs)
  show ?case
  proof (cases "(k, n, d) \<in> set (dialed (ix 0) (prints [prompt_line] v) c (Suc (length cs)))")
    case True
    then show ?thesis using Cons.prems(3)
      by (cases c) (auto simp: dialed_def looked_up_def split: if_splits list.splits option.splits)
  next
    case False
    with Cons.prems Cons.IH show ?thesis by (fastforce simp: Let_def split: prod.splits)
  qed
qed simp

lemma asks_proper: "list_all proper (asks offer ci v c)"
  by (cases c) (auto split: list.splits)

lemma user_session_proper: "user_session h p offer cs ix v = (rs, ds, v') \<Longrightarrow> list_all proper rs"
  by (induction cs arbitrary: ix v rs ds) (auto simp: Let_def asks_proper split: prod.splits)

text \<open>The index holds for the client exactly the numbers it has, so the index never refuses one of them.\<close>

lemma answers_of_command:
  assumes "c = \<lparr>host = h, port = p\<rparr>" "c \<in> connected (abs_index ci)" "own_held = (\<lambda>v. H \<union> (\<lambda>n. (n, c)) ` dom (texts v))"
    and "holds (abs_index ci) = own_held v" "\<forall>n. (n, c) \<notin> H" "ci' = snd (answers g h p (asks offer ci v cmd) ci)"
  shows "connected (abs_index ci') = connected (abs_index ci)" "holds (abs_index ci') = own_held (view_after h p offer (\<lambda>_. ci) v cmd)"
proof -
  have add: "abs_index (snd (add_rfc h p n ci)) = (abs_index ci)\<lparr>holds := insert (n, c) (holds (abs_index ci))\<rparr>" for n
    using assms(1,2) by (simp add: abs_index_add_rfc abs_offer_def)
  show "connected (abs_index ci') = connected (abs_index ci)"
    using assms(6) add by (cases cmd) (auto simp: case_prod_beta split: list.splits)
  show "holds (abs_index ci') = own_held (view_after h p offer (\<lambda>_. ci) v cmd)"
    using assms(3,4,6) add
    by (cases cmd) (auto simp: case_prod_beta looked_up_def downloaded_def Let_def split: list.splits option.splits)
qed

lemma lone_session_index:
  assumes "lone_session h p g offer cs ci v = (rs, ds, v')" "c = \<lparr>host = h, port = p\<rparr>" "c \<in> connected (abs_index ci)"
    and "holds (abs_index ci) = H \<union> (\<lambda>n. (n, c)) ` dom (texts v)" "\<forall>n. (n, c) \<notin> H"
  shows "connected (abs_index (snd (answers g h p rs ci))) = connected (abs_index ci) \<and>
    holds (abs_index (snd (answers g h p rs ci))) = H \<union> (\<lambda>n. (n, c)) ` dom (texts v')"
  using assms
proof (induction cs arbitrary: ci v rs ds)
  case Nil
  then show ?case by auto
next
  case (Cons cmd cs)
  let ?v = "prints [prompt_line] v"
  let ?ci = "snd (answers g h p (asks offer ci ?v cmd) ci)"
  obtain rs1 ds1 where rec: "lone_session h p g offer cs ?ci (view_after h p offer (\<lambda>_. ci) ?v cmd) = (rs1, ds1, v')"
      "rs = asks offer ci ?v cmd @ rs1"
    using Cons.prems(1) by (auto simp: Let_def split: prod.splits)
  have held: "holds (abs_index ci) = H \<union> (\<lambda>n. (n, c)) ` dom (texts ?v)" using Cons.prems(4) by simp
  note step = answers_of_command [OF Cons.prems(2,3) refl held Cons.prems(5) refl, of g offer cmd]
  from Cons.IH [OF rec(1) Cons.prems(2) _ step(2) Cons.prems(5)] Cons.prems(3) step(1) rec(2) show ?case
    by (simp add: answers_append)
qed

section \<open>Client and server\<close>

lemma user_session_end_to_end:
  assumes "viewed cst v" "index_typed (sv_index sst)" "c = \<lparr>host = h, port = p\<rparr>" "c \<notin> set (clients (sv_index sst))"
    and "nul \<notin> set h" "length h + 1 < 2 ^ 31" "list_all well_typed cs"
    and "ci = snd (add_client h p (sv_index sst))" "adds = map Ask_add (own_numbers v)"
    and "lone_session h p g' offer cs (snd (answers g' h p adds ci)) v = (rs, ds, v')"
    and "all_sendable g' h p (adds @ rs) ci"
    and "eclient_conn cr key iv pre sc (wire32 PROTOCOL_VERSION # fst (answers g' h p (adds @ rs) ci)) []"
    and "eserver_conn cr key iv pre' ss (session_blocks h p (adds @ rs) @ [wire32 4]) []"
    and "\<forall>(k, n, d) \<in> set ds. peer_gives pops (dial k) g h p n d (offer d (asked n)) \<and>
      (\<forall>body. offer d (asked n) = Some body \<longrightarrow> plain_text body)"
    and "during = snd (answers g' h p (adds @ rs) ci)"
  shows "\<exists>cst' sc' sst' ss'.
    client_session (eclient_ops cr g env) pops dial g h p (map command_line cs @ [''quit'']) (cst, sc) =
      Inr (0, cst', EncryptedClientSocket_disconnect env sc') \<and> viewed cst' v' \<and>
    eclient_conn cr key iv pre sc' [] (session_blocks h p (adds @ rs) @ [wire32 4]) \<and>
    server_client_handler (eserver_ops cr g') g' sst ss = Inr (True, sst', EncryptedServerSocket_close ss') \<and>
    eserver_conn cr key iv pre' ss' [] (wire32 PROTOCOL_VERSION # fst (answers g' h p (adds @ rs) ci)) \<and>
    sv_log sst' = sv_log sst @ session_log h p (adds @ rs) \<and>
    holds (abs_index during) = holds (abs_index (sv_index sst)) \<union> (\<lambda>n. (n, c)) ` dom (texts v') \<and>
    abs_index (sv_index sst') = abs_index (sv_index sst)"
proof -
  let ?ci = "snd (answers g' h p adds ci)"
  have wf: "index_wf (sv_index sst)" using assms(2) by (simp add: index_typed_def)
  have c: "c \<notin> connected (abs_index (sv_index sst))" using assms(4) by (simp add: abs_index_def)
  note nums = viewed_numbers [OF assms(1)]
  note r = register_new [OF wf assms(3) c nums(2) refl, where g = g', folded assms(8) assms(9)]
  have typed: "index_typed ?ci"
    using assms(2,5) by (simp add: assms(8) index_typed_answers index_typed_add_client)
  have new: "\<forall>n. (n, c) \<notin> holds (abs_index (sv_index sst))" using not_connected_no_holder [OF wf c] by blast
  have "c \<in> connected (abs_index ?ci)" using r(3) by simp
  note ix = lone_session_index [OF assms(10,3) this r(2) [unfolded nums(1)] new]
  have dur: "during = snd (answers g' h p rs ?ci)" using assms(15) by (simp add: answers_append)
  have held: "holds (abs_index during) = holds (abs_index (sv_index sst)) \<union> (\<lambda>n. (n, c)) ` dom (texts v')"
      "connected (abs_index during) = insert c (connected (abs_index (sv_index sst)))"
    using ix r(3) dur by simp_all
  have "index_wf during" using r(4) dur by (simp add: index_wf_answers)
  note restored = leave_restores [OF wf this assms(3) c held(2,1)]
  have "list_all proper (adds @ rs)"
    using user_session_proper [OF lone_user_session [OF assms(10)]] assms(9) by (auto simp: list_all_iff)
  from server_session_correct_aux [where g = g' and st = sst, OF assms(13,5,6) this] assms(11)
  obtain sst' ss' where s: "server_client_handler (eserver_ops cr g') g' sst ss =
        Inr (True, sst', EncryptedServerSocket_close ss')" "sv_index sst' = snd (remove_client h p during)"
      "eserver_conn cr key iv pre' ss' [] (wire32 PROTOCOL_VERSION # fst (answers g' h p (adds @ rs) ci))"
      "sv_log sst' = sv_log sst @ session_log h p (adds @ rs)"
    unfolding assms(8,15) by auto
  have conn: "eclient_conn cr key iv pre sc (wire32 PROTOCOL_VERSION # map (\<lambda>_. wire32 200) (own_numbers v) @
      seen g' h p rs (lone_ix g' h p rs ?ci)) []"
    using assms(12) r(1) by (simp add: answers_append seen_lone)
  have "all_sendable g' h p rs ?ci" using assms(11) by (simp add: all_sendable_append)
  from eclient_sock.client_session_viewed [where dial = dial, OF assms(1) conn assms(6) all_readable_lone [OF this typed]
      assms(7) lone_user_session [OF assms(10)] assms(14), of g env]
  obtain cst' sc' where cl: "client_session (eclient_ops cr g env) pops dial g h p (map command_line cs @ [''quit'']) (cst, sc) =
        Inr (0, cst', EncryptedClientSocket_disconnect env sc')" "viewed cst' v'"
      "eclient_conn cr key iv pre sc' [] (session_blocks h p (adds @ rs) @ [wire32 4])"
    by (auto simp: eclient_ops_def assms(9))
  show ?thesis using cl s held(1) restored by auto
qed

section \<open>The peers\<close>

text \<open>
  The connection a download is made over, from the kernel up: it is accepted, its ends agree on a
  secret, and each end is delivered what the other one sends.  A client that is told 404 closes the connection
  after its request, so the kernel of this peer tells it so, after taking some more blocks; this peer must not
  have an empty or an oversized file under the number its uninitialised variable happens to hold, which it reads next
  (\<open>empty_file_ends_peer\<close>).
\<close>

record peer_link =
  pl_env :: conn_env
  pl_client_draws :: draws
  pl_peer_draws :: draws
  pl_secret :: "byte list"
  pl_to_client :: kern
  pl_to_peer :: kern
  pl_peer :: peer_state

definition peer_ready ::
    "crypto \<Rightarrow> (nat \<Rightarrow> byte) \<Rightarrow> string \<Rightarrow> u32 \<Rightarrow> u32 \<Rightarrow> Client \<Rightarrow> string option \<Rightarrow> peer_link \<Rightarrow> bool" where
  "peer_ready cr g h p n d t l \<longleftrightarrow>
     link_ok cr (pl_peer_draws l) (pl_client_draws l) (pl_secret l) \<and>
     accepts (pl_env l) (host d) (ucast (port d)) (pl_to_client l) \<and>
     kern_conn (pl_to_client l) (to_client cr (pl_peer_draws l) (pl_secret l) [wire32 (ulen (get_wire g t)), get_wire g t]) [] \<and>
     (case t of
        Some body \<Rightarrow> plain_text body \<and> kern_conn (pl_to_peer l) (to_server cr (pl_peer_draws l) (pl_client_draws l)
          (pl_secret l) (identity_blocks h p @ [wire32 1, wire16 (ucast n), wire32 2])) []
      | None \<Rightarrow> servable_text (stored_text (scast (garbage_short g)) (pr_fs (pl_peer l))) \<and>
          (\<exists>k. kern_link (Leaving k) (pl_to_peer l) (to_server cr (pl_peer_draws l) (pl_client_draws l)
            (pl_secret l) (identity_blocks h p @ [wire32 1, wire16 (ucast n)])) [])) \<and>
     stored_text (asked n) (pr_fs (pl_peer l)) = t"

text \<open>Each download draws its own values.\<close>

definition peer_dial :: "crypto \<Rightarrow> (nat \<Rightarrow> byte) \<Rightarrow> (nat \<Rightarrow> peer_link) \<Rightarrow> nat \<Rightarrow> string \<Rightarrow> u16 \<Rightarrow> EncryptedClientSocket result" where
  "peer_dial cr g links k = client_dial cr g (pl_env (links k)) (\<lambda>_ _. pl_client_draws (links k))"

lemma peer_ready_plain: "peer_ready cr g h p n d t l \<Longrightarrow> \<forall>body. t = Some body \<longrightarrow> plain_text body"
  by (auto simp: peer_ready_def)

lemma peer_ready_gives:
  assumes "library_ok cr" "peer_ready cr g' h p n d t (links k)" "0 < sint (asked n)" "length h + 1 < 2 ^ 31"
  shows "peer_gives (eclient_ops cr g env) (peer_dial cr g links k) g h p n d t"
proof -
  let ?l = "links k"
  have l: "link_ok cr (pl_peer_draws ?l) (pl_client_draws ?l) (pl_secret ?l)"
      "accepts (pl_env ?l) (host d) (ucast (port d)) (pl_to_client ?l)"
      "kern_conn (pl_to_client ?l) (to_client cr (pl_peer_draws ?l) (pl_secret ?l) [wire32 (ulen (get_wire g' t)), get_wire g' t]) []"
    using assms(2) by (simp_all add: peer_ready_def)
  from opened_connection [where rnd = "\<lambda>_ _. pl_client_draws ?l", OF assms(1) l(1,3,2), of g]
  obtain s where s: "peer_dial cr g links k (host d) (ucast (port d)) = Inr s"
      "eclient_conn cr (session_key cr (pl_secret ?l)) (drawn_iv (pl_peer_draws ?l))
        (client_hello cr (pl_peer_draws ?l) (pl_client_draws ?l) (pl_secret ?l)) s [wire32 (ulen (get_wire g' t)), get_wire g' t] []"
    unfolding peer_dial_def by blast
  from eclient_sock.peer_gives_conn [where dial = "peer_dial cr g links k" and d = d, OF s(2,1) assms(3,4) peer_ready_plain [OF assms(2)]]
  show ?thesis .
qed

text \<open>
  The peer accepts the connection.  If it has the text, its handler returns, and it has sent what the client was
  delivered; if not, its process ends with SIGPIPE.
\<close>

definition peer_served :: "crypto \<Rightarrow> (nat \<Rightarrow> byte) \<Rightarrow> peer_link \<Rightarrow> bool" where
  "peer_served cr g l \<longleftrightarrow> (\<exists>s st' s'.
     EncryptedServerSocket_new cr g (pl_peer_draws l) (pl_to_peer l) = Inr s \<and>
     peer_handler (eserver_ops cr g) g (pl_peer l) s = Inr (True, st', s') \<and>
     sent (ss_kern (es_base s')) = rx_bytes (rx (pl_to_client l)))"

definition peer_killed :: "crypto \<Rightarrow> (nat \<Rightarrow> byte) \<Rightarrow> peer_link \<Rightarrow> bool" where
  "peer_killed cr g l \<longleftrightarrow> (\<exists>s.
     EncryptedServerSocket_new cr g (pl_peer_draws l) (pl_to_peer l) = Inr s \<and>
     peer_handler (eserver_ops cr g) g (pl_peer l) s = Inl Killed_by_SIGPIPE)"

lemma peer_ready_serves:
  assumes "library_ok cr" "peer_ready cr g' h p n d (Some body) l" "nul \<notin> set h" "length h + 1 < 2 ^ 31"
  shows "peer_served cr g' l"
proof -
  let ?w = "get_wire g' (Some body)"
  have l: "link_ok cr (pl_peer_draws l) (pl_client_draws l) (pl_secret l)"
      "kern_conn (pl_to_client l) (to_client cr (pl_peer_draws l) (pl_secret l) [wire32 (ulen ?w), ?w]) []"
      "kern_conn (pl_to_peer l) (to_server cr (pl_peer_draws l) (pl_client_draws l) (pl_secret l)
        (identity_blocks h p @ [wire32 1, wire16 (ucast n), wire32 2])) []"
      "stored_text (asked n) (pr_fs (pl_peer l)) = Some body" "plain_text body"
    using assms(2) by (simp_all add: peer_ready_def)
  obtain s where s: "EncryptedServerSocket_new cr g' (pl_peer_draws l) (pl_to_peer l) = Inr s"
      "eserver_conn cr (session_key cr (pl_secret l)) (drawn_iv (pl_peer_draws l))
        (server_hello cr (pl_peer_draws l) (pl_secret l)) s (identity_blocks h p @ [wire32 1, wire16 (ucast n), wire32 2] @ []) []"
    using accepted_connection [OF assms(1) l(1,3)] by auto
  have ok: "servable_text (Some body)" using l(5) by (simp add: servable_text_def plain_text_def)
  from eserver_sock.peer_handler_download [OF s(2) assms(3,4), of "pl_peer l" g' g'] ok l(4)
  obtain st' s' where "peer_handler (eserver_ops cr g') g' (pl_peer l) s = Inr (True, st', s')"
      "eserver_conn cr (session_key cr (pl_secret l)) (drawn_iv (pl_peer_draws l))
        (server_hello cr (pl_peer_draws l) (pl_secret l)) s' [] [wire32 (ulen ?w), ?w]"
    by (auto simp flip: asked_def)
  with s(1) eserver_conn_sent l(2) show ?thesis by (fastforce simp: peer_served_def kern_link_def)
qed

lemma peer_ready_kills:
  assumes "library_ok cr" "peer_ready cr g' h p n d None l" "nul \<notin> set h" "length h + 1 < 2 ^ 31"
  shows "peer_killed cr g' l"
proof -
  obtain k where l: "link_ok cr (pl_peer_draws l) (pl_client_draws l) (pl_secret l)"
      "kern_link (Leaving k) (pl_to_peer l) (to_server cr (pl_peer_draws l) (pl_client_draws l) (pl_secret l)
        (identity_blocks h p @ [wire32 1, wire16 (ucast n)])) []"
      "stored_text (asked n) (pr_fs (pl_peer l)) = None"
      "servable_text (stored_text (scast (garbage_short g')) (pr_fs (pl_peer l)))"
    using assms(2) by (auto simp: peer_ready_def)
  obtain s where s: "EncryptedServerSocket_new cr g' (pl_peer_draws l) (pl_to_peer l) = Inr s"
      "eserver_link (Leaving k) cr (session_key cr (pl_secret l)) (drawn_iv (pl_peer_draws l))
        (server_hello cr (pl_peer_draws l) (pl_secret l)) s (identity_blocks h p @ [wire32 1, wire16 (ucast n)]) []"
    using accepted_connection [OF assms(1) l(1,2)] by blast
  have "servable_text (stored_text (scast (ucast n :: u16)) (pr_fs (pl_peer l)))"
    using l(3) by (simp add: servable_text_def flip: asked_def)
  from eserver_closed.peer_handler_closed [OF s(2) assms(3,4) this l(4)] s(1) show ?thesis by (auto simp: peer_killed_def)
qed

text \<open>All downloads of a session.\<close>

lemma peers_ready:
  assumes "library_ok cr" "user_session h p offer cs ix v = (rs, ds, v')" "list_all well_typed cs"
    and "\<forall>(k, n, d) \<in> set ds. peer_ready cr g' h p n d (offer d (asked n)) (links k)" "nul \<notin> set h" "length h + 1 < 2 ^ 31"
  shows "\<forall>(k, n, d) \<in> set ds. peer_gives (eclient_ops cr g env) (peer_dial cr g links k) g h p n d (offer d (asked n)) \<and>
      (\<forall>body. offer d (asked n) = Some body \<longrightarrow> plain_text body)"
    and "\<forall>(k, n, d) \<in> set ds. if offer d (asked n) = None then peer_killed cr g' (links k) else peer_served cr g' (links k)"
proof -
  have ready: "peer_ready cr g' h p n d (offer d (asked n)) (links k)" if "(k, n, d) \<in> set ds" for k n d
    using assms(4) that by blast
  show "\<forall>(k, n, d) \<in> set ds. peer_gives (eclient_ops cr g env) (peer_dial cr g links k) g h p n d (offer d (asked n)) \<and>
      (\<forall>body. offer d (asked n) = Some body \<longrightarrow> plain_text body)"
  proof clarify
    fix k n d
    assume down: "(k, n, d) \<in> set ds"
    show "peer_gives (eclient_ops cr g env) (peer_dial cr g links k) g h p n d (offer d (asked n)) \<and>
        (\<forall>body. offer d (asked n) = Some body \<longrightarrow> plain_text body)"
      using peer_ready_gives [where links = links and k = k, OF assms(1) ready [OF down]
          downloads_typed [OF assms(2) down assms(3)] assms(6)] peer_ready_plain [OF ready [OF down]] by simp
  qed
  have "if offer d (asked n) = None then peer_killed cr g' (links k) else peer_served cr g' (links k)"
    if down: "(k, n, d) \<in> set ds" for k n d
  proof (cases "offer d (asked n)")
    case None
    then show ?thesis using peer_ready_kills [OF assms(1) ready [OF down, unfolded None] assms(5,6)] by simp
  next
    case (Some body)
    then show ?thesis using peer_ready_serves [OF assms(1) ready [OF down, unfolded Some] assms(5,6)] by simp
  qed
  then show "\<forall>(k, n, d) \<in> set ds. if offer d (asked n) = None then peer_killed cr g' (links k) else peer_served cr g' (links k)"
    by blast
qed

end
