(* ===== verification/Server_Runs.thy ===== *)
theory Server_Runs
  imports Server_Threads
begin

text \<open>
  Several complete sessions served at the same time, in every interleaving of their handlers.  As long as
  all that the clients offer could be sent in one answer, no step ends the process, no thread ever
  waits for another, and after as many steps as the sessions need all handlers have returned.
\<close>

section \<open>Sessions\<close>

record session =
  se_host :: string
  se_port :: u32
  se_requests :: "request list"

definition session_ok :: "session \<Rightarrow> bool" where
  "session_ok se \<longleftrightarrow> nul \<notin> set (se_host se) \<and> length (se_host se) + 1 < 2 ^ 31 \<and> list_all proper (se_requests se)"

definition session_client :: "session \<Rightarrow> Client" where
  "session_client se = \<lparr>host = se_host se, port = se_port se\<rparr>"

text \<open>What the client of a session sends.\<close>

definition session_input :: "session \<Rightarrow> byte list list" where
  "session_input se = session_blocks (se_host se) (se_port se) (se_requests se) @ [wire32 4]"

fun asked_adds :: "request list \<Rightarrow> u32 list" where
  "asked_adds [] = []"
| "asked_adds (r # rs) = (case r of Ask_add n \<Rightarrow> n # asked_adds rs | _ \<Rightarrow> asked_adds rs)"

lemma asked_adds_append: "asked_adds (rs @ rs') = asked_adds rs @ asked_adds rs'"
  by (induction rs) (auto split: request.split)

definition offered :: "session list \<Rightarrow> RFCHolder list" where
  "offered ses =
     concat (map (\<lambda>se. map (\<lambda>n. \<lparr>rfc = n, peer = session_client se\<rparr>) (asked_adds (se_requests se))) ses)"

text \<open>Entering, one step for each request and for DISCONNECT, and the two halves of \<open>remove_client\<close>.\<close>

definition session_steps :: "session \<Rightarrow> nat" where
  "session_steps se = length (se_requests se) + 4"

section \<open>An index that can always be sent\<close>

lemma sendable_offered:
  assumes "lists_wf ci" "set (rfcs ci) \<subseteq> set hs" "sendable \<lparr>clients = [], rfcs = hs\<rparr>"
  shows "sendable ci"
proof -
  have "length (holders_wire (rfcs ci)) \<le> length (holders_wire hs)"
    unfolding length_holders_wire using lists_wf_distinct [OF assms(1)] assms(2) by (rule sum_list_subset_distinct)
  with assms(2,3) show ?thesis by (auto simp: sendable_def holders_ok_iff)
qed

section \<open>A thread in its session\<close>

text \<open>\<open>in_session conn se k t\<close>: \<open>t\<close> serves the session \<open>se\<close>, and \<open>k\<close> of its steps are left.\<close>

fun in_session :: "('s \<Rightarrow> byte list list \<Rightarrow> byte list list \<Rightarrow> bool) \<Rightarrow> session \<Rightarrow> nat \<Rightarrow> 's thread \<Rightarrow> bool" where
  "in_session conn se k (Fresh s) \<longleftrightarrow> k = session_steps se \<and> conn s (session_input se) []"
| "in_session conn se k (Looping h p m s) \<longleftrightarrow> h = se_host se \<and> p = se_port se \<and>
     (\<exists>before left outs. se_requests se = before @ left \<and> k = length left + 3 \<and>
        conn s (concat (map request_blocks left) @ [wire32 4]) outs)"
| "in_session conn se k (Unlisting h p s) \<longleftrightarrow> h = se_host se \<and> p = se_port se \<and> k = 2"
| "in_session conn se k (Unlisted h p s) \<longleftrightarrow> h = se_host se \<and> p = se_port se \<and> k = 1"
| "in_session conn se k (Finished fin s) \<longleftrightarrow> fin \<and> k = 0"

lemma in_session_looping:
  "se_requests se = before @ left \<Longrightarrow> k = length left + 3 \<Longrightarrow>
    conn s (concat (map request_blocks left) @ [wire32 4]) outs \<Longrightarrow>
    in_session conn se k (Looping (se_host se) (se_port se) m s)"
  by auto

definition server_inv ::
    "('s \<Rightarrow> byte list list \<Rightarrow> byte list list \<Rightarrow> bool) \<Rightarrow> session list \<Rightarrow> nat list \<Rightarrow> 's server_world \<Rightarrow> bool" where
  "server_inv conn ses ks w \<longleftrightarrow>
     sw_failed w = None \<and> length (sw_threads w) = length ses \<and> length ks = length ses \<and>
     (\<forall>i < length ses. in_session conn (ses ! i) (ks ! i) (sw_threads w ! i)) \<and>
     lists_wf (sv_index (sw_state w)) \<and> set (rfcs (sv_index (sw_state w))) \<subseteq> set (offered ses)"

lemma server_inv_move:
  assumes "server_inv conn ses ks w" "i < length ses" "in_session conn (ses ! i) k t"
    and "lists_wf (sv_index st)" "set (rfcs (sv_index st)) \<subseteq> set (offered ses)"
  shows "server_inv conn ses (ks[i := k]) (server_move w i st t)"
  using assms by (auto simp: server_inv_def nth_list_update)

lemma offered_add:
  assumes "i < length ses" "se_requests (ses ! i) = before @ r # left" "r = Ask_add n"
  shows "\<lparr>rfc = n, peer = session_client (ses ! i)\<rparr> \<in> set (offered ses)"
proof -
  have "n \<in> set (asked_adds (se_requests (ses ! i)))" using assms(2,3) by (simp add: asked_adds_append)
  then show ?thesis using assms(1) unfolding offered_def by (auto intro!: bexI [of _ "ses ! i"])
qed

lemma rfcs_answer_offered:
  assumes "i < length ses" "se_requests (ses ! i) = before @ r # left" "set (rfcs ci) \<subseteq> set (offered ses)"
  shows "set (rfcs (snd (answer g (se_host (ses ! i)) (se_port (ses ! i)) r ci))) \<subseteq> set (offered ses)"
  using assms(3) offered_add [OF assms(1,2)] set_add_rfc [of "session_client (ses ! i)" _ ci]
  by (cases r) (auto simp: session_client_def split: if_splits)

lemma lists_wf_answer: "lists_wf ci \<Longrightarrow> lists_wf (snd (answer g h p r ci))"
  by (cases r) (simp_all add: lists_wf_add_rfc)

section \<open>Each step\<close>

context frame_socket
begin

lemma server_enter_conn:
  assumes "conn s (wire32 PROTOCOL_VERSION # identity_blocks h p @ ins) outs"
    and "nul \<notin> set h" "length h + 1 < 2 ^ 31"
  shows "\<exists>st' s'. server_enter ops g st s = Inr (Some (h, p), st', s') \<and>
    sv_index st' = snd (add_client h p (sv_index st)) \<and> conn s' ins (outs @ [wire32 PROTOCOL_VERSION])"
proof -
  from handler_start [OF assms(1), of g]
  obtain s1 s2 where 1: "send_int ops (htonl PROTOCOL_VERSION) s = Inr s1"
      "recv_int ops (load32 (fresh_bytes g 4)) s1 = Inr (htonl PROTOCOL_VERSION, s2)"
      "conn s2 (identity_blocks h p @ ins) (outs @ [wire32 PROTOCOL_VERSION])" by blast
  from 1(3) have "conn s2 (wire32 (ulen h) # string_bytes h # wire32 p # ins) (outs @ [wire32 PROTOCOL_VERSION])"
    by (simp add: identity_blocks_def)
  from recv_identity_conn [OF this assms(2,3), of g] 1(1,2) show ?thesis
    by (auto simp: server_enter_def case_prod_beta Let_def)
qed

lemma serve_message_disconnect:
  assumes "conn s (wire32 4 # ins) outs"
  shows "\<exists>s'. serve_message ops g h p m (st, s) = Inr (4, st, s') \<and> conn s' ins outs"
  using recv_int_conn [OF assms, of m] by (auto simp: serve_message_def)

text \<open>What the next step of a thread is, and that it is the only one.\<close>

lemma fresh_thread:
  assumes "server_inv conn ses ks w" "i < length ses" "session_ok (ses ! i)" "sw_threads w ! i = Fresh s"
  shows "\<exists>st s'. server_enter ops g (sw_state w) s = Inr (Some (se_host (ses ! i), se_port (ses ! i)), st, s') \<and>
    server_inv conn ses (ks[i := ks ! i - 1])
      (server_move w i st (Looping (se_host (ses ! i)) (se_port (ses ! i)) m s'))"
proof -
  let ?h = "se_host (ses ! i)" and ?p = "se_port (ses ! i)" and ?rs = "se_requests (ses ! i)"
  have "in_session conn (ses ! i) (ks ! i) (Fresh s)" using assms by (auto simp: server_inv_def)
  then have c: "conn s (wire32 PROTOCOL_VERSION # identity_blocks ?h ?p @ concat (map request_blocks ?rs) @ [wire32 4]) []"
      "ks ! i = length ?rs + 4"
    by (simp_all add: session_input_def session_blocks_def session_steps_def)
  have "nul \<notin> set ?h" "length ?h + 1 < 2 ^ 31" using assms(3) by (simp_all add: session_ok_def)
  from server_enter_conn [OF c(1) this, of g "sw_state w"]
  obtain st s' where 1: "server_enter ops g (sw_state w) s = Inr (Some (?h, ?p), st, s')"
      "sv_index st = snd (add_client ?h ?p (sv_index (sw_state w)))"
      "conn s' (concat (map request_blocks ?rs) @ [wire32 4]) [wire32 PROTOCOL_VERSION]" by auto
  have "in_session conn (ses ! i) (ks ! i - 1) (Looping ?h ?p m s')"
    using 1(3) c(2) by (intro in_session_looping [where before = "[]"]) simp_all
  from server_inv_move [OF assms(1,2) this, of st] assms(1) 1 show ?thesis
    by (auto simp: server_inv_def lists_wf_add_client)
qed

lemma looping_thread:
  assumes "server_inv conn ses ks w" "i < length ses" "session_ok (ses ! i)" "sendable \<lparr>clients = [], rfcs = offered ses\<rparr>"
    and "sw_threads w ! i = Looping h p m s"
  shows "\<exists>m' st s'. serve_message ops g h p m (sw_state w, s) = Inr (m', st, s') \<and>
    server_inv conn ses (ks[i := ks ! i - 1])
      (server_move w i st (if m' \<noteq> P2SMessage_int P2S_DISCONNECT then Looping h p m' s' else Unlisting h p s')) \<and> 0 < ks ! i"
proof -
  have "in_session conn (ses ! i) (ks ! i) (Looping h p m s)" using assms(1,2,5) by (auto simp: server_inv_def)
  then obtain before left outs where t: "h = se_host (ses ! i)" "p = se_port (ses ! i)"
      "se_requests (ses ! i) = before @ left" "ks ! i = length left + 3"
      "conn s (concat (map request_blocks left) @ [wire32 4]) outs" by auto
  have inv: "lists_wf (sv_index (sw_state w))" "set (rfcs (sv_index (sw_state w))) \<subseteq> set (offered ses)"
    using assms(1) by (simp_all add: server_inv_def)
  show ?thesis
  proof (cases left)
    case Nil
    then have "conn s [wire32 4] outs" using t(5) by simp
    from serve_message_disconnect [OF this, of g h p m "sw_state w"]
    obtain s' where "serve_message ops g h p m (sw_state w, s) = Inr (4, sw_state w, s')" by blast
    moreover have "in_session conn (ses ! i) (ks ! i - 1) (Unlisting h p s')" using t Nil by simp
    then have "server_inv conn ses (ks[i := ks ! i - 1]) (server_move w i (sw_state w) (Unlisting h p s'))"
      using server_inv_move [OF assms(1,2) _ inv] by blast
    ultimately show ?thesis using t(4) by (intro exI [of _ 4] exI [of _ "sw_state w"] exI [of _ s']) simp
  next
    case (Cons r left')
    have ok: "sendable (sv_index (sw_state w))" by (rule sendable_offered [OF inv assms(4)])
    have "request_sendable r (sv_index (sw_state w))" using ok by (cases r) simp_all
    moreover have pr: "proper r" using assms(3) t(3) Cons by (simp add: session_ok_def)
    moreover have "conn s (request_blocks r @ concat (map request_blocks left') @ [wire32 4]) outs" using t(5) Cons by simp
    ultimately obtain st s' where 1: "serve_message ops g h p m (sw_state w, s) = Inr (request_word r, st, s')"
        "sv_index st = snd (answer g h p r (sv_index (sw_state w)))"
        "conn s' (concat (map request_blocks left') @ [wire32 4]) (outs @ fst (answer g h p r (sv_index (sw_state w))))"
      using serve_message_conn by blast
    have "in_session conn (ses ! i) (ks ! i - 1) (Looping h p (request_word r) s')"
      unfolding t(1,2) using t(3,4) Cons 1(3) by (intro in_session_looping [where before = "before @ [r]"]) simp_all
    moreover have "lists_wf (sv_index st)" using lists_wf_answer [OF inv(1)] 1(2) by simp
    moreover have "set (rfcs (sv_index st)) \<subseteq> set (offered ses)"
      using rfcs_answer_offered [OF assms(2) t(3) [unfolded Cons] inv(2)] 1(2) t(1,2) by simp
    ultimately have "server_inv conn ses (ks[i := ks ! i - 1]) (server_move w i st (Looping h p (request_word r) s'))"
      by (rule server_inv_move [OF assms(1,2)])
    then show ?thesis
      using 1(1) request_word_proper [OF pr] t(4) Cons
      by (intro exI [of _ "request_word r"] exI [of _ st] exI [of _ s']) simp
  qed
qed

lemma server_inv_step:
  assumes "server_step ops g w w'" "server_inv conn ses ks w" "\<forall>se \<in> set ses. session_ok se"
    and "sendable \<lparr>clients = [], rfcs = offered ses\<rparr>"
  shows "\<exists>i < length ses. 0 < ks ! i \<and> server_inv conn ses (ks[i := ks ! i - 1]) w'"
  using assms
proof (induction rule: server_step.induct)
  case (enter w i s h p st s')
  then have i: "i < length ses" "session_ok (ses ! i)" by (simp_all add: server_inv_def)
  have "in_session conn (ses ! i) (ks ! i) (Fresh s)" using enter i(1) by (auto simp: server_inv_def)
  with fresh_thread [OF enter(5) i enter(3), of "g i" "load32 (fresh_bytes (g i) 4)"] enter(4) i(1) show ?case
    by (auto simp: session_steps_def intro!: exI [of _ i])
next
  case (reject w i s st s')
  then have i: "i < length ses" "session_ok (ses ! i)" by (simp_all add: server_inv_def)
  from fresh_thread [OF reject(5) i reject(3), of "g i"] reject(4) show ?case by auto
next
  case (serve w i h p m s m' st s')
  then have i: "i < length ses" "session_ok (ses ! i)" by (simp_all add: server_inv_def)
  from looping_thread [OF serve(5) i serve(7,3), of "g i"] serve(4) i(1) show ?case
    by (auto simp del: P2SMessage_int.simps intro!: exI [of _ i])
next
  case (unlist w i h p s)
  then have i: "i < length ses" by (simp add: server_inv_def)
  have t: "in_session conn (ses ! i) (ks ! i) (Unlisting h p s)" using unlist i by (auto simp: server_inv_def)
  have "server_inv conn ses (ks[i := 1]) (server_move w i (server_unlist h p (sw_state w)) (Unlisted h p s))"
  proof (rule server_inv_move [OF unlist(4) i])
    show "in_session conn (ses ! i) 1 (Unlisted h p s)" using t by simp
    show "lists_wf (sv_index (server_unlist h p (sw_state w)))"
      using unlist(4) by (simp add: server_inv_def server_unlist_def lists_wf_remove_rfcs)
    show "set (rfcs (sv_index (server_unlist h p (sw_state w)))) \<subseteq> set (offered ses)"
      using unlist(4) by (auto simp: server_inv_def server_unlist_def remove_client_rfcs_def index_simps)
  qed
  then show ?case using t i by (intro exI [of _ i]) simp
next
  case (forget w i h p s)
  then have i: "i < length ses" by (simp add: server_inv_def)
  have t: "in_session conn (ses ! i) (ks ! i) (Unlisted h p s)" using forget i by (auto simp: server_inv_def)
  have "server_inv conn ses (ks[i := 0]) (server_move w i (server_forget h p (sw_state w)) (Finished True (vclose ops s)))"
    using forget(4) t
    by (intro server_inv_move [OF forget(4) i])
      (auto simp: server_inv_def server_forget_def lists_wf_remove_entry)
  then show ?case using t i by (intro exI [of _ i]) simp
next
  case (fail_enter w i s e)
  then have i: "i < length ses" "session_ok (ses ! i)" by (simp_all add: server_inv_def)
  from fresh_thread [OF fail_enter(5) i fail_enter(3), of "g i"] fail_enter(4) show ?case by auto
next
  case (fail_serve w i h p m s e)
  then have i: "i < length ses" "session_ok (ses ! i)" by (simp_all add: server_inv_def)
  from looping_thread [OF fail_serve(5) i fail_serve(7,3), of "g i"] fail_serve(4) show ?case by auto
qed

text \<open>A thread that has steps left can take one.\<close>

lemma server_inv_progress:
  assumes "server_inv conn ses ks w" "\<forall>se \<in> set ses. session_ok se" "sendable \<lparr>clients = [], rfcs = offered ses\<rparr>"
    and "i < length ses" "0 < ks ! i"
  shows "\<exists>w'. server_step ops g w w'"
proof -
  have w: "sw_failed w = None" "i < length (sw_threads w)" "session_ok (ses ! i)"
      "in_session conn (ses ! i) (ks ! i) (sw_threads w ! i)"
    using assms by (simp_all add: server_inv_def)
  show ?thesis
  proof (cases "sw_threads w ! i")
    case (Fresh s)
    with fresh_thread [OF assms(1,4) w(3) Fresh, of "g i"] w(1,2) show ?thesis
      by (blast intro: server_step.enter)
  next
    case (Looping h p m s)
    with looping_thread [OF assms(1,4) w(3) assms(3) Looping, of "g i"] w(1,2) show ?thesis
      by (blast intro: server_step.serve)
  next
    case (Unlisting h p s)
    with w(1,2) show ?thesis by (blast intro: server_step.unlist)
  next
    case (Unlisted h p s)
    with w(1,2) show ?thesis by (blast intro: server_step.forget)
  next
    case (Finished fin s)
    with w(4) assms(5) show ?thesis by simp
  qed
qed

lemma server_inv_run:
  assumes "(server_step ops g ^^ n) w w'" "server_inv conn ses ks w" "\<forall>se \<in> set ses. session_ok se"
    and "sendable \<lparr>clients = [], rfcs = offered ses\<rparr>"
  shows "\<exists>ks'. server_inv conn ses ks' w' \<and> n + sum_list ks' = sum_list ks"
  using assms(1,2)
proof (induction n arbitrary: w')
  case 0
  then show ?case by auto
next
  case (Suc n)
  then obtain u where u: "(server_step ops g ^^ n) w u" "server_step ops g u w'" by auto
  from Suc.IH [OF u(1) Suc.prems(2)]
  obtain ks' where ks: "server_inv conn ses ks' u" "n + sum_list ks' = sum_list ks" by blast
  from server_inv_step [OF u(2) ks(1) assms(3,4)]
  obtain i where i: "i < length ses" "0 < ks' ! i" "server_inv conn ses (ks'[i := ks' ! i - 1]) w'" by blast
  have "i < length ks'" using ks(1) i(1) by (simp add: server_inv_def)
  then have "sum_list (ks'[i := ks' ! i - 1]) + 1 = sum_list ks'"
    using i(2) elem_le_sum_list [of i ks'] by (simp add: sum_list_update)
  then show ?case using i(3) ks(2) by (intro exI [of _ "ks'[i := ks' ! i - 1]"]) simp
qed

lemma server_inv_start:
  assumes "list_all2 (\<lambda>s se. conn s (session_input se) []) ss ses"
  shows "server_inv conn ses (map session_steps ses) (server_started ss)"
  using assms index_wf_empty
  by (auto simp: server_inv_def server_started_def list_all2_conv_all_nth CentralIndex_empty_def index_wf_def lists_wf_def)

text \<open>All in one: how long runs are and how they end.\<close>

lemma server_runs:
  assumes "list_all2 (\<lambda>s se. conn s (session_input se) []) ss ses" "\<forall>se \<in> set ses. session_ok se"
    and "sendable \<lparr>clients = [], rfcs = offered ses\<rparr>" "(server_step ops g ^^ n) (server_started ss) w"
  shows "sw_failed w = None \<and> n \<le> sum_list (map session_steps ses)"
    and "n < sum_list (map session_steps ses) \<Longrightarrow> \<exists>w'. server_step ops g w w'"
    and "n = sum_list (map session_steps ses) \<Longrightarrow> \<forall>t \<in> set (sw_threads w). \<exists>s. t = Finished True s"
    and "\<exists>ks. server_inv conn ses ks w"
proof -
  from server_inv_run [OF assms(4) server_inv_start [OF assms(1)] assms(2,3)]
  obtain ks where ks: "server_inv conn ses ks w" "n + sum_list ks = sum_list (map session_steps ses)" by blast
  then show "\<exists>ks. server_inv conn ses ks w" by blast
  show "sw_failed w = None \<and> n \<le> sum_list (map session_steps ses)" using ks by (simp add: server_inv_def)
  show "\<exists>w'. server_step ops g w w'" if "n < sum_list (map session_steps ses)"
  proof -
    have "sum_list ks \<noteq> 0" using that ks(2) by linarith
    then obtain k where "k \<in> set ks" "0 < k" unfolding sum_list_eq_0_iff by auto
    then obtain i where "i < length ses" "0 < ks ! i" using ks(1) by (auto simp: in_set_conv_nth server_inv_def)
    then show ?thesis by (rule server_inv_progress [OF ks(1) assms(2,3)])
  qed
  show "\<forall>t \<in> set (sw_threads w). \<exists>s. t = Finished True s" if "n = sum_list (map session_steps ses)"
  proof
    fix t assume "t \<in> set (sw_threads w)"
    then obtain i where i: "i < length ses" "t = sw_threads w ! i" using ks(1) by (auto simp: in_set_conv_nth server_inv_def)
    have "sum_list ks = 0" using that ks(2) by simp
    then have "ks ! i = 0" using ks(1) i(1) by (simp add: server_inv_def sum_list_eq_0_iff)
    then have "in_session conn (ses ! i) 0 t" using ks(1) i by (auto simp: server_inv_def)
    then show "\<exists>s. t = Finished True s" by (cases t) (auto simp: session_steps_def)
  qed
qed

end


context frame_socket
begin

lemma server_runs_exist:
  assumes "list_all2 (\<lambda>s se. conn s (session_input se) []) ss ses" "\<forall>se \<in> set ses. session_ok se"
    and "sendable \<lparr>clients = [], rfcs = offered ses\<rparr>" "n \<le> sum_list (map session_steps ses)"
  shows "\<exists>w. (server_step ops g ^^ n) (server_started ss) w"
  using assms(4)
proof (induction n)
  case (Suc n)
  then obtain u where u: "(server_step ops g ^^ n) (server_started ss) u" by auto
  obtain w where "server_step ops g u w" using server_runs(2) [OF assms(1-3) u] Suc.prems by auto
  with u show ?case by auto
qed simp

end

section \<open>Sessions with different identities\<close>

lemma active_session:
  assumes "server_inv conn ses ks w" "active (sessions_of w) i c"
  shows "i < length ses \<and> c = session_client (ses ! i)"
proof -
  have i: "i < length ses" using assms by (auto simp: active_def sessions_of_def server_inv_def split: if_splits)
  then have "in_session conn (ses ! i) (ks ! i) (sw_threads w ! i)" "i < length (sw_threads w)"
    using assms(1) by (simp_all add: server_inv_def)
  with i assms(2) show ?thesis
    by (cases "sw_threads w ! i") (auto simp: active_def phase_of_sessions session_client_def split: if_splits)
qed

lemma distinct_sessions_unique:
  assumes "server_inv conn ses ks w" "distinct (map session_client ses)"
  shows "unique_ids (sessions_of w)"
  unfolding unique_ids_def
proof (intro allI impI)
  fix i j c assume "active (sessions_of w) i c" "active (sessions_of w) j c"
  then have "i < length ses" "j < length ses" "map session_client ses ! i = map session_client ses ! j"
    using active_session [OF assms(1)] by auto
  then show "i = j" using assms(2) nth_eq_iff_index_eq [of "map session_client ses" i j] by simp
qed

text \<open>The contract of an encrypted connection, whatever its key.\<close>

definition encrypted_conn :: "crypto \<Rightarrow> EncryptedServerSocket \<Rightarrow> byte list list \<Rightarrow> byte list list \<Rightarrow> bool" where
  "encrypted_conn cr s ins outs \<longleftrightarrow> (\<exists>key iv pre. eserver_conn cr key iv pre s ins outs)"

interpretation any_eserver: frame_socket "eserver_ops cr g" "encrypted_conn cr"
  using eserver_sock.send_frame [of cr _ _ _ _ _ _ _ g] eserver_sock.recv_frame [of cr _ _ _ _ _ _ _ _ g]
  by unfold_locales (fastforce simp: encrypted_conn_def)+

lemma distinct_runs_wf:
  assumes "list_all2 (\<lambda>s se. encrypted_conn cr s (session_input se) []) ss ses" "\<forall>se \<in> set ses. session_ok se"
    and "sendable \<lparr>clients = [], rfcs = offered ses\<rparr>" "(server_step (eserver_ops cr g') g ^^ n) (server_started ss) w"
    and "distinct (map session_client ses)"
  shows "index_wf (sv_index (sw_state w))"
proof -
  have "reachable unique_step (sessions_of w)"
    using assms(4)
  proof (induction n arbitrary: w)
    case 0
    then have "w = server_started ss" by simp
    then show ?case by (simp add: sessions_of_started reachable.start)
  next
    case (Suc n)
    then obtain u where u: "(server_step (eserver_ops cr g') g ^^ n) (server_started ss) u"
        "server_step (eserver_ops cr g') g u w" by auto
    obtain ks where "server_inv (encrypted_conn cr) ses ks w"
      using any_eserver.server_runs(4) [OF assms(1-3) Suc.prems] by blast
    then have "unique_ids (sessions_of w)" by (rule distinct_sessions_unique [OF _ assms(5)])
    with server_step_session [OF u(2)] Suc.IH [OF u(1)] show ?case
      by (auto intro: reachable.onward simp: unique_step_def)
  qed
  then show ?thesis using unique_reachable_wf by fastforce
qed

section \<open>Properties\<close>

text \<open>
  C6. Any number of clients at once.  Let each connection deliver a whole session, and let the holders
  that all of them together offer fit in one answer.  Then in every interleaving of the handlers no step
  ends the process; as long as steps are left, one can be taken, so no handler waits for another; every
  run ends after exactly the number of steps the sessions need, and then all handlers have returned
  and marked themselves finished, and the index is empty.  If the clients have different
  identities, then at every moment every holder in the index is connected.
\<close>

theorem concurrent_sessions_complete:
  assumes "list_all2 (\<lambda>s se. encrypted_conn cr s (session_input se) []) ss ses" "\<forall>se \<in> set ses. session_ok se"
    and "sendable \<lparr>clients = [], rfcs = offered ses\<rparr>" "(server_step (eserver_ops cr g') g ^^ n) (server_started ss) w"
  shows "sw_failed w = None \<and> n \<le> sum_list (map session_steps ses) \<and>
    (n < sum_list (map session_steps ses) \<longrightarrow> (\<exists>w'. server_step (eserver_ops cr g') g w w')) \<and>
    (n = sum_list (map session_steps ses) \<longrightarrow>
       sv_index (sw_state w) = CentralIndex_empty \<and> (\<forall>t \<in> set (sw_threads w). \<exists>s. t = Finished True s)) \<and>
    (distinct (map session_client ses) \<longrightarrow> index_wf (sv_index (sw_state w)))"
proof -
  note runs = any_eserver.server_runs [OF assms]
  have "sv_index (sw_state w) = CentralIndex_empty" if full: "n = sum_list (map session_steps ses)"
  proof -
    have r: "reachable session_step (sessions_of w)"
      by (rule server_threads_reachable [OF relpowp_imp_rtranclp [OF assms(4)]])
    have "phase_of (sessions_of w) i = Waiting \<or> phase_of (sessions_of w) i = Ended" for i
    proof (cases "i < length (sw_threads w)")
      case True
      then obtain s where "sw_threads w ! i = Finished True s" using runs(3) [OF full] nth_mem by blast
      with True show ?thesis by (simp add: phase_of_sessions)
    qed (simp add: sessions_of_def)
    then show ?thesis using quiescent_index_empty [OF r] by simp
  qed
  with runs distinct_runs_wf [OF assms] show ?thesis by blast
qed

theorem concurrent_sessions_complete_witness:
  "sw_failed (server_started [demo_peer (session_input \<lparr>se_host = ''a'', se_port = 1, se_requests = [Ask_add 791, Ask_list]\<rparr>),
      demo_peer (session_input \<lparr>se_host = ''b'', se_port = 2, se_requests = [Ask_lookup 791]\<rparr>)]) = None \<and>
   (\<exists>w'. server_step (eserver_ops demo_crypto (\<lambda>_. 9)) (\<lambda>_ _. 9)
      (server_started [demo_peer (session_input \<lparr>se_host = ''a'', se_port = 1, se_requests = [Ask_add 791, Ask_list]\<rparr>),
        demo_peer (session_input \<lparr>se_host = ''b'', se_port = 2, se_requests = [Ask_lookup 791]\<rparr>)]) w')"
proof -
  let ?a = "\<lparr>se_host = ''a'', se_port = 1, se_requests = [Ask_add 791, Ask_list]\<rparr>"
  let ?b = "\<lparr>se_host = ''b'', se_port = 2, se_requests = [Ask_lookup 791]\<rparr>"
  let ?ss = "[demo_peer (session_input ?a), demo_peer (session_input ?b)]" and ?ses = "[?a, ?b]"
  have c: "list_all2 (\<lambda>s se. encrypted_conn demo_crypto s (session_input se) []) ?ss ?ses"
    using demo_peer_conn by (auto simp: encrypted_conn_def)
  have ok: "\<forall>se \<in> set ?ses. session_ok se" by (simp add: session_ok_def nul_def)
  have send: "sendable \<lparr>clients = [], rfcs = offered ?ses\<rparr>"
    by (simp add: sendable_def offered_def session_client_def length_holder_wire)
  have run: "(server_step (eserver_ops demo_crypto (\<lambda>_. 9)) (\<lambda>_ _. 9) ^^ 0) (server_started ?ss) (server_started ?ss)"
    by simp
  from concurrent_sessions_complete [OF c ok send run] show ?thesis by (simp add: session_steps_def)
qed

end
