(* ===== verification/Server_Isolation.thy ===== *)
theory Server_Isolation
  imports Server_Runs
begin

text \<open>
  What each of several clients sees that are served at the same time.  If their identities differ, no
  session can tell from its own registrations that there are others: whatever the interleaving, each
  request is answered as \<open>answer\<close> says on some well-formed index that holds, of this client, exactly the
  numbers it has registered before.
\<close>

section \<open>A client's own part of the index\<close>

definition own :: "CentralIndex \<Rightarrow> Client \<Rightarrow> u32 set" where
  "own ci c = {n. \<lparr>rfc = n, peer = c\<rparr> \<in> set (rfcs ci)}"

lemma own_add_client [simp]: "own (snd (add_client h p ci)) d = own ci d"
  by (simp add: own_def)

lemma own_add_rfc:
  "own (snd (add_rfc h p n ci)) d =
     own ci d \<union> (if d = \<lparr>host = h, port = p\<rparr> \<and> d \<in> set (clients ci) then {n} else {})"
  using set_add_rfc [of "\<lparr>host = h, port = p\<rparr>" n ci] by (auto simp: own_def)

lemma own_remove_rfcs: "own (remove_client_rfcs h p ci) d = (if d = \<lparr>host = h, port = p\<rparr> then {} else own ci d)"
  using rfcs_remove_client_rfcs [of "\<lparr>host = h, port = p\<rparr>" ci] by (auto simp: own_def)

lemma own_remove_entry [simp]: "own (remove_client_entry h p ci) d = own ci d"
  by (simp add: own_def)

lemma own_answer:
  "own (snd (answer g h p r ci)) d =
     own ci d \<union> (if d = \<lparr>host = h, port = p\<rparr> \<and> d \<in> set (clients ci) then set (asked_adds [r]) else {})"
  by (cases r) (auto simp: own_add_rfc)

lemma clients_answer [simp]: "clients (snd (answer g h p r ci)) = clients ci"
  by (cases r) simp_all

section \<open>What a client has been answered\<close>

definition snapshot :: "session list \<Rightarrow> session \<Rightarrow> request list \<Rightarrow> CentralIndex \<Rightarrow> bool" where
  "snapshot ses se before ci \<longleftrightarrow>
     index_wf ci \<and> set (rfcs ci) \<subseteq> set (offered ses) \<and> session_client se \<in> set (clients ci) \<and>
     own ci (session_client se) = set (asked_adds before)"

definition answered :: "(nat \<Rightarrow> byte) \<Rightarrow> session list \<Rightarrow> session \<Rightarrow> request list \<Rightarrow> byte list list list \<Rightarrow> bool" where
  "answered g ses se rs as \<longleftrightarrow>
     length as = length rs \<and>
     (\<forall>k < length rs. \<exists>ci. snapshot ses se (take k rs) ci \<and> as ! k = fst (answer g (se_host se) (se_port se) (rs ! k) ci))"

lemma answered_Nil [simp]: "answered g ses se [] as \<longleftrightarrow> as = []"
  by (auto simp: answered_def)

lemma answered_snoc:
  assumes "answered g ses se rs as" "snapshot ses se rs ci"
  shows "answered g ses se (rs @ [r]) (as @ [fst (answer g (se_host se) (se_port se) r ci)])"
  using assms by (auto simp: answered_def nth_append less_Suc_eq)

text \<open>An ADD is accepted exactly the first time.\<close>

lemma snapshot_add:
  assumes "snapshot ses se before ci"
  shows "fst (add_rfc (se_host se) (se_port se) n ci) \<longleftrightarrow> n \<notin> set (asked_adds before)"
  using assms
  by (auto simp: snapshot_def add_rfc_def index_simps own_def session_client_def Let_def split: option.splits)

lemma answered_add:
  assumes "answered g ses se rs as" "k < length rs" "rs ! k = Ask_add n"
  shows "as ! k = [wire32 (if n \<in> set (asked_adds (take k rs)) then 400 else 200)]"
proof -
  from assms obtain ci where "snapshot ses se (take k rs) ci" "as ! k = fst (answer g (se_host se) (se_port se) (rs ! k) ci)"
    unfolding answered_def by blast
  with snapshot_add [OF this(1), of n] assms(3) show ?thesis by simp
qed

section \<open>A thread and its client's view\<close>

fun in_view ::
    "('s \<Rightarrow> byte list list \<Rightarrow> byte list list \<Rightarrow> bool) \<Rightarrow> 's sock_ops \<Rightarrow> (nat \<Rightarrow> byte) \<Rightarrow> session list \<Rightarrow> CentralIndex \<Rightarrow>
     session \<Rightarrow> 's thread \<Rightarrow> bool" where
  "in_view conn ops g ses ci se (Fresh s) \<longleftrightarrow> conn s (session_input se) [] \<and> own ci (session_client se) = {}"
| "in_view conn ops g ses ci se (Looping h p m s) \<longleftrightarrow> h = se_host se \<and> p = se_port se \<and>
     (\<exists>before left as. se_requests se = before @ left \<and>
        conn s (concat (map request_blocks left) @ [wire32 4]) (wire32 PROTOCOL_VERSION # concat as) \<and>
        answered g ses se before as \<and> session_client se \<in> set (clients ci) \<and>
        own ci (session_client se) = set (asked_adds before))"
| "in_view conn ops g ses ci se (Unlisting h p s) \<longleftrightarrow> h = se_host se \<and> p = se_port se \<and>
     (\<exists>as. conn s [] (wire32 PROTOCOL_VERSION # concat as) \<and> answered g ses se (se_requests se) as)"
| "in_view conn ops g ses ci se (Unlisted h p s) \<longleftrightarrow> h = se_host se \<and> p = se_port se \<and>
     (\<exists>as. conn s [] (wire32 PROTOCOL_VERSION # concat as) \<and> answered g ses se (se_requests se) as) \<and>
     own ci (session_client se) = {}"
| "in_view conn ops g ses ci se (Finished fin s) \<longleftrightarrow>
     (\<exists>s' as. s = vclose ops s' \<and> conn s' [] (wire32 PROTOCOL_VERSION # concat as) \<and>
        answered g ses se (se_requests se) as) \<and>
     own ci (session_client se) = {}"

lemma in_view_looping:
  "se_requests se = before @ left \<Longrightarrow>
    conn s (concat (map request_blocks left) @ [wire32 4]) (wire32 PROTOCOL_VERSION # concat as) \<Longrightarrow>
    answered g ses se before as \<Longrightarrow> session_client se \<in> set (clients ci) \<Longrightarrow>
    own ci (session_client se) = set (asked_adds before) \<Longrightarrow>
    in_view conn ops g ses ci se (Looping (se_host se) (se_port se) m s)"
  by auto

lemma in_view_mono:
  assumes "in_view conn ops g ses ci se t" "own ci' (session_client se) = own ci (session_client se)"
    and "session_client se \<in> set (clients ci) \<Longrightarrow> session_client se \<in> set (clients ci')"
  shows "in_view conn ops g ses ci' se t"
  using assms by (cases t) auto

definition server_view ::
    "('s \<Rightarrow> byte list list \<Rightarrow> byte list list \<Rightarrow> bool) \<Rightarrow> 's sock_ops \<Rightarrow> (nat \<Rightarrow> nat \<Rightarrow> byte) \<Rightarrow> session list \<Rightarrow>
     's server_world \<Rightarrow> bool" where
  "server_view conn ops g ses w \<longleftrightarrow>
     length (sw_threads w) = length ses \<and>
     (\<forall>i < length ses. in_view conn ops (g i) ses (sv_index (sw_state w)) (ses ! i) (sw_threads w ! i))"

lemma server_view_move:
  assumes "server_view conn ops g ses w" "i < length ses" "distinct (map session_client ses)"
    and "in_view conn ops (g i) ses (sv_index st) (ses ! i) t"
    and "\<And>c. c \<noteq> session_client (ses ! i) \<Longrightarrow> own (sv_index st) c = own (sv_index (sw_state w)) c \<and>
      (c \<in> set (clients (sv_index (sw_state w))) \<longrightarrow> c \<in> set (clients (sv_index st)))"
  shows "server_view conn ops g ses (server_move w i st t)"
proof -
  have "in_view conn ops (g j) ses (sv_index st) (ses ! j) (sw_threads w ! j)" if "j < length ses" "j \<noteq> i" for j
  proof -
    have "session_client (ses ! j) \<noteq> session_client (ses ! i)"
      using that assms(2,3) nth_eq_iff_index_eq [of "map session_client ses" i j] by auto
    moreover have "in_view conn ops (g j) ses (sv_index (sw_state w)) (ses ! j) (sw_threads w ! j)"
      using assms(1) that(1) by (simp add: server_view_def)
    ultimately show ?thesis using in_view_mono assms(5) by blast
  qed
  then show ?thesis using assms(1,2,4) by (simp add: server_view_def nth_list_update)
qed

context frame_socket
begin

lemma server_view_step:
  assumes "server_step ops g w w'" "server_inv conn ses ks w" "server_view conn ops g ses w"
    and "index_wf (sv_index (sw_state w))" "\<forall>se \<in> set ses. session_ok se"
    and "sendable \<lparr>clients = [], rfcs = offered ses\<rparr>" "distinct (map session_client ses)"
  shows "server_view conn ops g ses w'"
  using assms server_inv_step [OF assms(1,2,5,6)]
proof (induction rule: server_step.induct)
  case (enter w i s h p st s')
  then have i: "i < length ses" "session_ok (ses ! i)" by (simp_all add: server_inv_def)
  let ?h = "se_host (ses ! i)" and ?p = "se_port (ses ! i)" and ?rs = "se_requests (ses ! i)"
  have "in_view conn ops (g i) ses (sv_index (sw_state w)) (ses ! i) (Fresh s)"
    using enter(3,6) i(1) by (auto simp: server_view_def)
  then have c: "conn s (wire32 PROTOCOL_VERSION # identity_blocks ?h ?p @ concat (map request_blocks ?rs) @ [wire32 4]) []"
      "own (sv_index (sw_state w)) (session_client (ses ! i)) = {}"
    by (simp_all add: session_input_def session_blocks_def)
  have "nul \<notin> set ?h" "length ?h + 1 < 2 ^ 31" using i(2) by (simp_all add: session_ok_def)
  from server_enter_conn [OF c(1) this, of "g i" "sw_state w"] enter(4)
  have 1: "h = ?h" "p = ?p" "sv_index st = snd (add_client ?h ?p (sv_index (sw_state w)))"
      "conn s' (concat (map request_blocks ?rs) @ [wire32 4]) [wire32 PROTOCOL_VERSION]" by auto
  have cl: "set (clients (sv_index st)) = insert (session_client (ses ! i)) (set (clients (sv_index (sw_state w))))"
    using set_clients_add_client [of "session_client (ses ! i)" "sv_index (sw_state w)"] 1(3) by (simp add: session_client_def)
  show ?case
  proof (rule server_view_move [OF enter(6) i(1) enter(10)])
    show "in_view conn ops (g i) ses (sv_index st) (ses ! i) (Looping h p (load32 (fresh_bytes (g i) 4)) s')"
      unfolding 1(1,2) using 1(3,4) cl c(2)
      by (intro in_view_looping [where before = "[]" and as = "[]"]) simp_all
  qed (use 1(3) cl in auto)
next
  case (reject w i s st s')
  then show ?case by (auto simp: server_inv_def nth_list_update)
next
  case (serve w i h p m s m' st s')
  then have i: "i < length ses" "session_ok (ses ! i)" by (simp_all add: server_inv_def)
  let ?c = "session_client (ses ! i)" and ?ci = "sv_index (sw_state w)"
  have "in_view conn ops (g i) ses ?ci (ses ! i) (Looping h p m s)" using serve(3,6) i(1) by (auto simp: server_view_def)
  then obtain before left as where t: "h = se_host (ses ! i)" "p = se_port (ses ! i)"
      "se_requests (ses ! i) = before @ left" "answered (g i) ses (ses ! i) before as" "?c \<in> set (clients ?ci)"
      "own ?ci ?c = set (asked_adds before)"
      "conn s (concat (map request_blocks left) @ [wire32 4]) (wire32 PROTOCOL_VERSION # concat as)" by auto
  show ?case
  proof (cases left)
    case Nil
    then have "conn s [wire32 4] (wire32 PROTOCOL_VERSION # concat as)" using t(7) by simp
    from serve_message_disconnect [OF this, of "g i" h p m "sw_state w"] serve(4)
    have 1: "m' = 4" "st = sw_state w" "conn s' [] (wire32 PROTOCOL_VERSION # concat as)" by auto
    then show ?thesis using t Nil by (intro server_view_move [OF serve(6) i(1) serve(10)]) auto
  next
    case (Cons r left')
    have inv: "lists_wf ?ci" "set (rfcs ?ci) \<subseteq> set (offered ses)" using serve(5) by (simp_all add: server_inv_def)
    have "request_sendable r ?ci" using sendable_offered [OF inv serve(9)] by (cases r) simp_all
    moreover have pr: "proper r" using i(2) t(3) Cons by (simp add: session_ok_def)
    moreover have "conn s (request_blocks r @ concat (map request_blocks left') @ [wire32 4]) (wire32 PROTOCOL_VERSION # concat as)"
      using t(7) Cons by simp
    ultimately have 1: "m' = request_word r" "sv_index st = snd (answer (g i) h p r ?ci)"
        "conn s' (concat (map request_blocks left') @ [wire32 4])
          ((wire32 PROTOCOL_VERSION # concat as) @ fst (answer (g i) h p r ?ci))"
      using serve_message_conn [where g = "g i" and h = h and p = p and m = m and st = "sw_state w"] serve(4) by fastforce+
    have "snapshot ses (ses ! i) before ?ci" using serve(7) inv(2) t(5,6) by (simp add: snapshot_def)
    from answered_snoc [OF t(4) this, of r] t(1,2)
    have a: "answered (g i) ses (ses ! i) (before @ [r]) (as @ [fst (answer (g i) h p r ?ci)])" by simp
    have "own (sv_index st) ?c = set (asked_adds (before @ [r]))"
      using t(1,2,5,6) by (simp add: 1(2) own_answer session_client_def asked_adds_append)
    then have "in_view conn ops (g i) ses (sv_index st) (ses ! i) (Looping h p m' s')"
      unfolding t(1,2) using t(1-3,5) Cons a 1(2,3)
      by (intro in_view_looping [where before = "before @ [r]" and left = left' and
            as = "as @ [fst (answer (g i) h p r ?ci)]"]) simp_all
    moreover have "m' \<noteq> 4" using request_word_proper [OF pr] 1(1) by simp
    ultimately show ?thesis
      using t(1,2)
      by (intro server_view_move [OF serve(6) i(1) serve(10)]) (auto simp: 1(2) own_answer session_client_def)
  qed
next
  case (unlist w i h p s)
  then have i: "i < length ses" by (simp add: server_inv_def)
  have t: "in_view conn ops (g i) ses (sv_index (sw_state w)) (ses ! i) (Unlisting h p s)"
    using unlist(3,5) i by (auto simp: server_view_def)
  then show ?case
    by (intro server_view_move [OF unlist(5) i unlist(9)])
      (auto simp: server_unlist_def own_remove_rfcs session_client_def)
next
  case (forget w i h p s)
  then have i: "i < length ses" by (simp add: server_inv_def)
  have t: "in_view conn ops (g i) ses (sv_index (sw_state w)) (ses ! i) (Unlisted h p s)"
    using forget(3,5) i by (auto simp: server_view_def)
  have cl: "c \<in> set (clients (remove_client_entry h p ci))" if "c \<in> set (clients ci)" "c \<noteq> \<lparr>host = h, port = p\<rparr>"
    for c ci h p
    using that clients_remove_client_entry [of "\<lparr>host = h, port = p\<rparr>" ci] by simp
  from t show ?case
    by (intro server_view_move [OF forget(5) i forget(9)])
      (auto simp: server_forget_def session_client_def intro!: cl)
qed (auto simp: server_inv_def)

end


section \<open>All runs\<close>

lemma server_view_start:
  assumes "list_all2 (\<lambda>s se. conn s (session_input se) []) ss ses"
  shows "server_view conn ops g ses (server_started ss)"
  using assms
  by (auto simp: server_view_def server_started_def list_all2_conv_all_nth CentralIndex_empty_def own_def)

lemma server_view_run:
  assumes "list_all2 (\<lambda>s se. encrypted_conn cr s (session_input se) []) ss ses" "\<forall>se \<in> set ses. session_ok se"
    and "sendable \<lparr>clients = [], rfcs = offered ses\<rparr>" "(server_step (eserver_ops cr g') g ^^ n) (server_started ss) w"
    and "distinct (map session_client ses)"
  shows "server_view (encrypted_conn cr) (eserver_ops cr g') g ses w"
  using assms(4)
proof (induction n arbitrary: w)
  case 0
  then show ?case using server_view_start [where conn = "encrypted_conn cr", OF assms(1)] by simp
next
  case (Suc n)
  then obtain u where u: "(server_step (eserver_ops cr g') g ^^ n) (server_started ss) u"
      "server_step (eserver_ops cr g') g u w" by auto
  obtain ks where "server_inv (encrypted_conn cr) ses ks u"
    using any_eserver.server_runs(4) [OF assms(1-3) u(1)] by blast
  from any_eserver.server_view_step [OF u(2) this Suc.IH [OF u(1)] distinct_runs_wf [OF assms(1-3) u(1) assms(5)]
      assms(2,3,5)]
  show ?case .
qed

section \<open>Properties\<close>

text \<open>
  C7. Sessions do not disturb each other.  Let clients with different identities be served at the same
  time.  When all handlers have returned, each client has been sent the protocol version and one
  answer to each request, in order; each answer is the one the abstract session gives on a well-formed index in
  which this client holds exactly the numbers it had registered before; in particular an ADD has been
  accepted exactly if it was the first one for its number, whatever the other clients did.
\<close>

theorem sessions_isolated:
  assumes "list_all2 (\<lambda>s se. encrypted_conn cr s (session_input se) []) ss ses" "\<forall>se \<in> set ses. session_ok se"
    and "sendable \<lparr>clients = [], rfcs = offered ses\<rparr>" "distinct (map session_client ses)"
    and "(server_step (eserver_ops cr g') g ^^ sum_list (map session_steps ses)) (server_started ss) w"
    and "i < length ses" "se = ses ! i"
  shows "\<exists>s as. sw_threads w ! i = Finished True (EncryptedServerSocket_close s) \<and>
    encrypted_conn cr s [] (wire32 PROTOCOL_VERSION # concat as) \<and> length as = length (se_requests se) \<and>
    (\<forall>k < length as. \<exists>ci. index_wf ci \<and> set (rfcs ci) \<subseteq> set (offered ses) \<and>
       {n. \<lparr>rfc = n, peer = session_client se\<rparr> \<in> set (rfcs ci)} = set (asked_adds (take k (se_requests se))) \<and>
       as ! k = fst (answer (g i) (se_host se) (se_port se) (se_requests se ! k) ci)) \<and>
    (\<forall>k n. k < length as \<longrightarrow> se_requests se ! k = Ask_add n \<longrightarrow>
       as ! k = [wire32 (if n \<in> set (asked_adds (take k (se_requests se))) then 400 else 200)])"
proof -
  have v: "server_view (encrypted_conn cr) (eserver_ops cr g') g ses w"
    by (rule server_view_run [OF assms(1-3,5,4)])
  then have i: "i < length (sw_threads w)" using assms(6) by (simp add: server_view_def)
  obtain s0 where t: "sw_threads w ! i = Finished True s0"
    using any_eserver.server_runs(3) [OF assms(1-3,5) refl] nth_mem [OF i] by blast
  have "in_view (encrypted_conn cr) (eserver_ops cr g') (g i) ses (sv_index (sw_state w)) se (Finished True s0)"
    using v assms(6,7) t by (auto simp: server_view_def)
  then obtain s as where s: "s0 = EncryptedServerSocket_close s" "encrypted_conn cr s [] (wire32 PROTOCOL_VERSION # concat as)"
      "answered (g i) ses se (se_requests se) as"
    by (auto simp: eserver_ops_def)
  from s(3) have l: "length as = length (se_requests se)" by (simp add: answered_def)
  have snap: "\<forall>k < length as. \<exists>ci. index_wf ci \<and> set (rfcs ci) \<subseteq> set (offered ses) \<and>
       {n. \<lparr>rfc = n, peer = session_client se\<rparr> \<in> set (rfcs ci)} = set (asked_adds (take k (se_requests se))) \<and>
       as ! k = fst (answer (g i) (se_host se) (se_port se) (se_requests se ! k) ci)"
    using s(3) unfolding answered_def snapshot_def own_def by metis
  have adds: "\<forall>k n. k < length as \<longrightarrow> se_requests se ! k = Ask_add n \<longrightarrow>
       as ! k = [wire32 (if n \<in> set (asked_adds (take k (se_requests se))) then 400 else 200)]"
    using answered_add [OF s(3)] l by simp
  show ?thesis
    by (intro exI [of _ s] exI [of _ as] conjI) (use t s(1,2) l snap adds in simp_all)
qed


theorem sessions_isolated_witness:
  "\<exists>w s. (server_step (eserver_ops demo_crypto (\<lambda>_. 9)) (\<lambda>_ _. 9) ^^ 11)
      (server_started [demo_peer (session_input \<lparr>se_host = ''a'', se_port = 1, se_requests = [Ask_add 791, Ask_add 791]\<rparr>),
        demo_peer (session_input \<lparr>se_host = ''b'', se_port = 2, se_requests = [Ask_add 791]\<rparr>)]) w \<and>
    sw_threads w ! 0 = Finished True (EncryptedServerSocket_close s) \<and>
    encrypted_conn demo_crypto s [] [wire32 PROTOCOL_VERSION, wire32 200, wire32 400]"
proof -
  let ?a = "\<lparr>se_host = ''a'', se_port = 1, se_requests = [Ask_add 791, Ask_add 791]\<rparr>"
  let ?b = "\<lparr>se_host = ''b'', se_port = 2, se_requests = [Ask_add 791]\<rparr>"
  let ?ss = "[demo_peer (session_input ?a), demo_peer (session_input ?b)]" and ?ses = "[?a, ?b]"
  let ?step = "server_step (eserver_ops demo_crypto (\<lambda>_. 9)) (\<lambda>_ _. 9)"
  have c: "list_all2 (\<lambda>s se. encrypted_conn demo_crypto s (session_input se) []) ?ss ?ses"
    using demo_peer_conn by (auto simp: encrypted_conn_def)
  have ok: "\<forall>se \<in> set ?ses. session_ok se" by (simp add: session_ok_def nul_def)
  have send: "sendable \<lparr>clients = [], rfcs = offered ?ses\<rparr>"
    by (simp add: sendable_def offered_def session_client_def length_holder_wire)
  have d: "distinct (map session_client ?ses)" by (simp add: session_client_def)
  have steps: "sum_list (map session_steps ?ses) = 11" by (simp add: session_steps_def)
  obtain w where w: "(?step ^^ sum_list (map session_steps ?ses)) (server_started ?ss) w"
    using any_eserver.server_runs_exist [OF c ok send order.refl, of "\<lambda>_. 9" "\<lambda>_ _. 9"] by blast
  have i: "0 < length ?ses" "?a = ?ses ! 0" by simp_all
  from sessions_isolated [OF c ok send d w i]
  obtain s as where s: "sw_threads w ! 0 = Finished True (EncryptedServerSocket_close s)"
      "encrypted_conn demo_crypto s [] (wire32 PROTOCOL_VERSION # concat as)" "length as = 2"
      "\<forall>k n. k < length as \<longrightarrow> [Ask_add 791, Ask_add 791] ! k = Ask_add n \<longrightarrow>
         as ! k = [wire32 (if n \<in> set (asked_adds (take k [Ask_add 791, Ask_add 791])) then 400 else 200)]"
    by auto
  have "as ! 0 = [wire32 200]" "as ! 1 = [wire32 400]" using s(3,4) by simp_all
  then have "as = [[wire32 200], [wire32 400]]" using s(3) by (auto simp: list_eq_iff_nth_eq less_Suc_eq numeral_2_eq_2)
  with s(1,2) w steps show ?thesis by auto
qed

end
