(* ===== verification/Users_At_Once.thy ===== *)
theory Users_At_Once
  imports User_Sessions Server_Isolation
begin

text \<open>
  Several users at the same time.  What the server answers a client while it serves others is what it would
  answer from some sequence of indexes (\<open>Server_Isolation\<close>), and from the answers of any such sequence the client
  program follows the abstract session of its user (\<open>User_Sessions\<close>).  Together: in every interleaving of the
  handlers, each user sees a session of its own.
\<close>

section \<open>The answers one client gets\<close>

lemma seen_adds:
  assumes "\<forall>k < length ns. fst (add_rfc h p (ns ! k) (ix k))"
  shows "seen g h p (map Ask_add ns) ix = map (\<lambda>_. wire32 200) ns"
  using assms
proof (induction ns arbitrary: ix)
  case (Cons n ns)
  have "fst (add_rfc h p n (ix 0))" using Cons.prems by force
  moreover have "\<forall>k < length ns. fst (add_rfc h p (ns ! k) (ix (Suc k)))" using Cons.prems by auto
  ultimately show ?case using Cons.IH [of "\<lambda>k. ix (Suc k)"] by simp
qed simp

lemma asked_adds_adds [simp]: "asked_adds (map Ask_add ns) = ns"
  by (induction ns) simp_all

lemma answered_seen:
  assumes "answered g ses se (map Ask_add ns @ rs) as" "distinct ns"
  shows "\<exists>ix. concat as = map (\<lambda>_. wire32 200) ns @ seen g (se_host se) (se_port se) rs ix \<and>
    (\<forall>k < length rs. snapshot ses se (map Ask_add ns @ take k rs) (ix k))"
proof -
  let ?all = "map Ask_add ns @ rs" and ?h = "se_host se" and ?p = "se_port se"
  have l: "length as = length ?all" using assms(1) by (simp add: answered_def)
  have "\<forall>k \<in> {..<length ?all}. \<exists>ci. snapshot ses se (take k ?all) ci \<and> as ! k = fst (answer g ?h ?p (?all ! k) ci)"
    using assms(1) by (auto simp: answered_def)
  from bchoice [OF this] obtain ix where
    ix: "\<And>k. k < length ?all \<Longrightarrow> snapshot ses se (take k ?all) (ix k)"
      "\<And>k. k < length ?all \<Longrightarrow> as ! k = fst (answer g ?h ?p (?all ! k) (ix k))" by blast
  have "as = map (\<lambda>k. fst (answer g ?h ?p (?all ! k) (ix k))) [0..<length ?all]"
    using l ix(2) by (intro nth_equalityI) (simp_all del: length_append)
  then have "concat as = seen g ?h ?p ?all ix" by (simp add: seen_def del: length_append)
  moreover have "fst (add_rfc ?h ?p (ns ! k) (ix k))" if "k < length ns" for k
  proof -
    have "snapshot ses se (map Ask_add (take k ns)) (ix k)" using ix(1) [of k] that by (simp add: take_map)
    moreover have "ns ! k \<notin> set (take k ns)" using that assms(2) by (auto simp: in_set_conv_nth nth_eq_iff_index_eq)
    ultimately show ?thesis using snapshot_add by simp
  qed
  moreover have "snapshot ses se (map Ask_add ns @ take k rs) (ix (k + length ns))" if "k < length rs" for k
    using ix(1) [of "k + length ns"] that by simp
  ultimately show ?thesis
    by (intro exI [of _ "\<lambda>k. ix (k + length ns)"]) (simp add: seen_append seen_adds)
qed

lemma snapshot_readable:
  assumes "snapshot ses se before ci" "\<forall>se \<in> set ses. session_ok se" "sendable \<lparr>clients = [], rfcs = offered ses\<rparr>"
  shows "readable r ci"
proof -
  have ci: "index_wf ci" "set (rfcs ci) \<subseteq> set (offered ses)" using assms(1) by (simp_all add: snapshot_def)
  then have "sendable ci" using sendable_offered [OF _ ci(2) assms(3)] by (simp add: index_wf_def)
  moreover have "nul \<notin> set (host (peer q))" if "q \<in> set (rfcs ci)" for q
    using that ci(2) assms(2) by (force simp: offered_def session_client_def session_ok_def)
  ultimately show ?thesis by (cases r) (simp_all add: readable_def)
qed

section \<open>Properties\<close>

text \<open>The connection a download is made over is up, and the answer \<open>t\<close> of the peer arrives on it.\<close>

definition peer_delivers ::
    "crypto \<Rightarrow> (nat \<Rightarrow> byte) \<Rightarrow> (string \<Rightarrow> u16 \<Rightarrow> EncryptedClientSocket result) \<Rightarrow> Client \<Rightarrow> string option \<Rightarrow> bool" where
  "peer_delivers cr g dial d t \<longleftrightarrow> (\<forall>body. t = Some body \<longrightarrow> plain_text body) \<and>
     (\<exists>key iv pre s. dial (host d) (ucast (port d)) = Inr s \<and>
       eclient_conn cr key iv pre s [wire32 (ulen (get_wire g t)), get_wire g t] [])"

lemma peers_deliver:
  assumes "user_session h p offer cs ix v = (rs, ds, v')" "list_all well_typed cs" "length h + 1 < 2 ^ 31"
    and "\<forall>(k, n, d) \<in> set ds. peer_delivers cr g' (dial k) d (offer d (asked n))"
  shows "\<forall>(k, n, d) \<in> set ds. peer_gives (eclient_ops cr g env) (dial k) g h p n d (offer d (asked n)) \<and>
      (\<forall>body. offer d (asked n) = Some body \<longrightarrow> plain_text body)"
proof clarify
  fix k n d assume down: "(k, n, d) \<in> set ds"
  then have "peer_delivers cr g' (dial k) d (offer d (asked n))" using assms(4) by blast
  then obtain key iv pre s where s: "dial k (host d) (ucast (port d)) = Inr s"
      "eclient_conn cr key iv pre s [wire32 (ulen (get_wire g' (offer d (asked n)))), get_wire g' (offer d (asked n))] []"
      "\<forall>body. offer d (asked n) = Some body \<longrightarrow> plain_text body" by (auto simp: peer_delivers_def)
  have n: "0 < sint (asked n)" using downloads_typed [OF assms(1) down assms(2)] .
  from eclient_sock.peer_gives_conn [where dial = "dial k" and d = d, OF s(2,1) n assms(3) s(3)] s(3)
  show "peer_gives (eclient_ops cr g env) (dial k) g h p n d (offer d (asked n)) \<and>
      (\<forall>body. offer d (asked n) = Some body \<longrightarrow> plain_text body)" by blast
qed

text \<open>
  C8. Users at the same time.  Let any clients with different identities be served at once, one of
  them the program of a user with the texts of \<open>v\<close>, which has registered them.  Whatever the interleaving of the
  handlers, there is a sequence \<open>ix\<close> of well-formed indexes, in each of which this client holds exactly what it
  has registered so far, such that: its handler has returned and has answered from these indexes; and if the
  requests are those the user's commands make of \<open>ix\<close>, and the client is delivered the answers, then the
  program ends with exit code 0, after printing and storing exactly what the abstract session on \<open>ix\<close> says.
\<close>

theorem users_at_once:
  assumes "list_all2 (\<lambda>s se. encrypted_conn cr s (session_input se) []) ss ses" "\<forall>se \<in> set ses. session_ok se"
    and "sendable \<lparr>clients = [], rfcs = offered ses\<rparr>" "distinct (map session_client ses)"
    and "(server_step (eserver_ops cr g') g ^^ sum_list (map session_steps ses)) (server_started ss) w"
    and "i < length ses" "ses ! i = \<lparr>se_host = h, se_port = p, se_requests = map Ask_add (own_numbers v) @ rs\<rparr>"
    and "viewed cst v" "list_all well_typed cs"
  shows "\<exists>s ix. sw_threads w ! i = Finished True (EncryptedServerSocket_close s) \<and>
    encrypted_conn cr s [] (wire32 PROTOCOL_VERSION # map (\<lambda>_. wire32 200) (own_numbers v) @ seen (g i) h p rs ix) \<and>
    (\<forall>k < length rs. index_wf (ix k) \<and> set (rfcs (ix k)) \<subseteq> set (offered ses) \<and>
      own (ix k) \<lparr>host = h, port = p\<rparr> = set (own_numbers v) \<union> set (asked_adds (take k rs))) \<and>
    (\<forall>key iv pre sc dial ds v'. user_session h p offer cs ix v = (rs, ds, v') \<longrightarrow>
      (\<forall>(k, n, d) \<in> set ds. peer_delivers cr gp (dial k) d (offer d (asked n))) \<longrightarrow>
      eclient_conn cr key iv pre sc
        (wire32 PROTOCOL_VERSION # map (\<lambda>_. wire32 200) (own_numbers v) @ seen (g i) h p rs ix) [] \<longrightarrow>
      (\<exists>cst' sc'. client_session (eclient_ops cr gc env) (eclient_ops cr gc env) dial gc h p
          (map command_line cs @ [''quit'']) (cst, sc) = Inr (0, cst', EncryptedClientSocket_disconnect env sc') \<and>
        viewed cst' v' \<and>
        eclient_conn cr key iv pre sc' [] (session_blocks h p (map Ask_add (own_numbers v) @ rs) @ [wire32 4])))"
proof -
  let ?se = "ses ! i"
  have view: "server_view (encrypted_conn cr) (eserver_ops cr g') g ses w"
    by (rule server_view_run [OF assms(1-3,5,4)])
  then have i: "i < length (sw_threads w)" using assms(6) by (simp add: server_view_def)
  obtain s0 where t: "sw_threads w ! i = Finished True s0"
    using any_eserver.server_runs(3) [OF assms(1-3,5) refl] nth_mem [OF i] by blast
  have "in_view (encrypted_conn cr) (eserver_ops cr g') (g i) ses (sv_index (sw_state w)) ?se (Finished True s0)"
    using view assms(6) t by (auto simp: server_view_def)
  then obtain s as where s: "s0 = EncryptedServerSocket_close s" "encrypted_conn cr s [] (wire32 PROTOCOL_VERSION # concat as)"
      "answered (g i) ses ?se (map Ask_add (own_numbers v) @ rs) as"
    by (auto simp: eserver_ops_def assms(7))
  obtain ix where ix: "concat as = map (\<lambda>_. wire32 200) (own_numbers v) @ seen (g i) h p rs ix"
      "\<forall>k < length rs. snapshot ses ?se (map Ask_add (own_numbers v) @ take k rs) (ix k)"
    using answered_seen [OF s(3) viewed_numbers(2) [OF assms(8)]] by (auto simp: assms(7))
  have len: "length h + 1 < 2 ^ 31" using assms(2,6,7) nth_mem [OF assms(6)] by (force simp: session_ok_def)
  have good: "all_readable rs ix" using ix(2) snapshot_readable [OF _ assms(2,3)] by (auto simp: all_readable_def)
  have ixs: "\<forall>k < length rs. index_wf (ix k) \<and> set (rfcs (ix k)) \<subseteq> set (offered ses) \<and>
      own (ix k) \<lparr>host = h, port = p\<rparr> = set (own_numbers v) \<union> set (asked_adds (take k rs))"
    using ix(2) by (simp add: snapshot_def asked_adds_append session_client_def assms(7))
  have client: "\<exists>cst' sc'. client_session (eclient_ops cr gc env) (eclient_ops cr gc env) dial gc h p
        (map command_line cs @ [''quit'']) (cst, sc) = Inr (0, cst', EncryptedClientSocket_disconnect env sc') \<and>
      viewed cst' v' \<and> eclient_conn cr key iv pre sc' [] (session_blocks h p (map Ask_add (own_numbers v) @ rs) @ [wire32 4])"
    if us: "user_session h p offer cs ix v = (rs, ds, v')" "\<forall>(k, n, d) \<in> set ds. peer_delivers cr gp (dial k) d (offer d (asked n))"
      "eclient_conn cr key iv pre sc
        (wire32 PROTOCOL_VERSION # map (\<lambda>_. wire32 200) (own_numbers v) @ seen (g i) h p rs ix) []"
    for key iv pre sc dial ds v'
    using eclient_sock.client_session_viewed [where dial = dial, OF assms(8) us(3) len good assms(9) us(1)
        peers_deliver [where dial = dial, OF us(1) assms(9) len us(2)], of gc env] by (simp add: eclient_ops_def)
  show ?thesis by (intro exI [of _ s] exI [of _ ix] conjI) (use t s(1,2) ix(1) ixs client in \<open>simp_all\<close>)
qed

definition demo_own :: user_view where
  "demo_own = \<lparr>texts = [1 \<mapsto> ''ip''], screen = []\<rparr>"

lemma demo_own_viewed: "viewed (demo_files [(rfc_filename 1, RegFile ''ip'')]) demo_own" "own_numbers demo_own = [1]"
  using demo_files_one(1) [where n = 1]
  by (simp_all add: viewed_def demo_own_def own_numbers_def stores_def demo_files_def)

theorem users_at_once_witness:
  "\<exists>w s ix cst' sc'. (server_step (eserver_ops demo_crypto (\<lambda>_. 9)) (\<lambda>_ _. 9) ^^ 11)
      (server_started [demo_peer (session_input \<lparr>se_host = ''a'', se_port = 1, se_requests = [Ask_add 1, Ask_list]\<rparr>),
        demo_peer (session_input \<lparr>se_host = ''b'', se_port = 2, se_requests = [Ask_add 791]\<rparr>)]) w \<and>
    sw_threads w ! 0 = Finished True (EncryptedServerSocket_close s) \<and>
    client_session demo_ops demo_ops (\<lambda>_ _ _. Inr (demo_end [])) (\<lambda>_. 0) ''a'' 1 [''list'', ''quit'']
      (demo_files [(rfc_filename 1, RegFile ''ip'')],
       demo_end (wire32 PROTOCOL_VERSION # wire32 200 # seen (\<lambda>_. 9) ''a'' 1 [Ask_list] ix)) =
      Inr (0, cst', EncryptedClientSocket_disconnect (demo_env no_kern) sc') \<and>
    pr_log cst' = [prompt_line] @ index_table (ix 0) ''a'' 1 @ [prompt_line] \<and>
    own (ix 0) \<lparr>host = ''a'', port = 1\<rparr> = {1}"
proof -
  let ?a = "\<lparr>se_host = ''a'', se_port = 1, se_requests = [Ask_add 1, Ask_list]\<rparr>"
  let ?b = "\<lparr>se_host = ''b'', se_port = 2, se_requests = [Ask_add 791]\<rparr>"
  let ?ss = "[demo_peer (session_input ?a), demo_peer (session_input ?b)]" and ?ses = "[?a, ?b]"
  let ?step = "server_step (eserver_ops demo_crypto (\<lambda>_. 9)) (\<lambda>_ _. 9)"
  have c: "list_all2 (\<lambda>s se. encrypted_conn demo_crypto s (session_input se) []) ?ss ?ses"
    using demo_peer_conn by (auto simp: encrypted_conn_def)
  have ok: "\<forall>se \<in> set ?ses. session_ok se" by (simp add: session_ok_def nul_def)
  have send: "sendable \<lparr>clients = [], rfcs = offered ?ses\<rparr>"
    by (simp add: sendable_def offered_def session_client_def length_holder_wire)
  have d: "distinct (map session_client ?ses)" by (simp add: session_client_def)
  have steps: "sum_list (map session_steps ?ses) = 11" by (simp add: session_steps_def)
  obtain w where w: "(?step ^^ sum_list (map session_steps ?ses)) (server_started ?ss) w"
    using any_eserver.server_runs_exist [OF c ok send order.refl, of "\<lambda>_. 9" "\<lambda>_ _. 9"] by blast
  have i: "0 < length ?ses"
      "?ses ! 0 = \<lparr>se_host = ''a'', se_port = 1, se_requests = map Ask_add (own_numbers demo_own) @ [Ask_list]\<rparr>"
    by (simp_all add: demo_own_viewed(2))
  have wt: "list_all well_typed [Show_index]" by simp
  let ?dial = "\<lambda>(_ :: nat) (_ :: string) (_ :: u16). Inr (demo_end []) :: EncryptedClientSocket result"
  have us: "user_session ''a'' 1 (\<lambda>_ _. None) [Show_index] ix demo_own = ([Ask_list], [],
      demo_own\<lparr>screen := [prompt_line] @ index_table (ix 0) ''a'' 1 @ [prompt_line]\<rparr>)" for ix
    by (simp add: dialed_def prints_def demo_own_def)
  have none: "\<And>x. x \<in> set [] \<Longrightarrow> case x of (k, n, e) \<Rightarrow> peer_delivers demo_crypto (\<lambda>_. 9) (?dial k) e None" by simp
  from users_at_once [OF c ok send d w i demo_own_viewed(1) wt, where gc = "\<lambda>_. 0" and env = "demo_env no_kern"
      and offer = "\<lambda>_ _. None" and gp = "\<lambda>_. 9"]
  show ?thesis
  proof (elim exE conjE, goal_cases)
    case (1 s ix)
    from 1(4) [rule_format, where dial = ?dial, OF us none demo_end_conn] obtain cst' sc' where
      "client_session demo_ops demo_ops ?dial (\<lambda>_. 0) ''a'' 1 [''list'', ''quit''] (demo_files [(rfc_filename 1, RegFile ''ip'')],
         demo_end (wire32 PROTOCOL_VERSION # wire32 200 # seen (\<lambda>_. 9) ''a'' 1 [Ask_list] ix)) =
        Inr (0, cst', EncryptedClientSocket_disconnect (demo_env no_kern) sc')"
      "pr_log cst' = [prompt_line] @ index_table (ix 0) ''a'' 1 @ [prompt_line]"
      by (auto simp: viewed_def demo_own_viewed(2))
    moreover have "own (ix 0) \<lparr>host = ''a'', port = 1\<rparr> = {1}" using 1(3) by (simp add: demo_own_viewed(2))
    ultimately show ?case using 1(1) w [unfolded steps] by blast
  qed
qed

end
