(* ===== verification/Failed_Calls.thy ===== *)
theory Failed_Calls
  imports Secure_Channel
begin

text \<open>
  One \<open>::send\<close> or \<open>::recv\<close> that fails on a connection that is encrypted and otherwise
  works.  \<open>Sockets\<close> has what the loops of the plain sockets make of it (\<open>send_loop_fails_first\<close>,
  \<open>recv_fault\<close>); here are the consequences for a block and its tag, and for the other end.
\<close>

section \<open>A send that fails\<close>

lemma EncryptedServerSocket_send_fails:
  assumes "crypto_ok cr" "fd_open (ss_kern (es_base s))" "\<not> gone (ss_kern (es_base s))"
    and "txq (ss_kern (es_base s)) = TxError # q" "tx_clean q" "d \<noteq> []" "length d < 2 ^ 64"
  shows "fst (EncryptedServerSocket_send cr d s) \<and>
    sent (ss_kern (es_base (snd (EncryptedServerSocket_send cr d s)))) =
      sent (ss_kern (es_base s)) @ snd (seal cr (es_key s) (es_iv s) CIP_HEADER d)"
proof -
  let ?b = "es_base s" and ?ct = "fst (seal cr (es_key s) (es_iv s) CIP_HEADER d)"
    and ?mac = "snd (seal cr (es_key s) (es_iv s) CIP_HEADER d)"
  have len: "length ?ct < 2 ^ 64" "?ct \<noteq> []" "length ?mac < 2 ^ 64"
    using crypto_okD [OF assms(1)] assms(6,7) by (simp_all add: MAC_LEN_def flip: length_greater_0_conv)
  have "sys_send bs (ss_kern ?b) = (-1, (ss_kern ?b)\<lparr>txq := q\<rparr>)" for bs
    using assms(2-4) by (simp add: sys_send_def)
  from send_loop_fails_first [OF this of_nat_length_pos [OF len(2,1)]]
  have 1: "ServerSocket_send ?ct ?b = (True, ?b\<lparr>ss_kern := (ss_kern ?b)\<lparr>txq := q\<rparr>\<rparr>)"
    by (simp add: ServerSocket_send_def)
  let ?b1 = "?b\<lparr>ss_kern := (ss_kern ?b)\<lparr>txq := q\<rparr>\<rparr>"
  obtain q' where "ServerSocket_send ?mac ?b1 =
      (True, ?b1\<lparr>ss_kern := (ss_kern ?b1)\<lparr>sent := sent (ss_kern ?b1) @ ?mac, txq := q'\<rparr>\<rparr>)"
    using ServerSocket_send_clean [of ?b1 ?mac] assms(2,3,5) len(3) by auto
  with 1 show ?thesis by (simp add: EncryptedServerSocket_send_def case_prod_beta Let_def)
qed

text \<open>
  C40. One system call that fails, and the receiver waits for ever.  If the first \<open>::send\<close> of a block fails, none of
  the block is sent, but the error is taken for a success and the tag follows alone; the call returns
  true.  The client that waits for the block takes bytes of the tag for it and does not return, even if the
  connection stays up.
\<close>

theorem failed_send_hangs_client:
  assumes "crypto_ok cr" "fd_open (ss_kern (es_base s))" "\<not> gone (ss_kern (es_base s))"
    and "txq (ss_kern (es_base s)) = TxError # q" "tx_clean q" "d \<noteq> []" "length d < 2 ^ 64"
    and "w = drop (length (sent (ss_kern (es_base s)))) (sent (ss_kern (es_base (snd (EncryptedServerSocket_send cr d s)))))"
    and "kern_conn (cs_kern (ec_base c)) w p" "length buf = length d" "16 \<le> usable cr (length d)"
  shows "fst (EncryptedServerSocket_send cr d s) \<and> EncryptedClientSocket_recv cr g buf c = Inl Diverges"
proof
  note send = EncryptedServerSocket_send_fails [OF assms(1-7)]
  show "fst (EncryptedServerSocket_send cr d s)" using send by blast
  let ?f = "fresh_bytes g (length buf)" and ?k = "cs_kern (ec_base c)"
  have w: "length w = 16" using send assms(8) crypto_okD [OF assms(1)] by (simp add: MAC_LEN_def)
  have k: "fd_open ?k" "rx_clean (rx ?k)" "rx_bytes (rx ?k) = w" using assms(9) by (simp_all add: kern_link_def)
  show "EncryptedClientSocket_recv cr g buf c = Inl Diverges"
  proof (cases "16 < length d")
    case True
    then have "ClientSocket_recv ?f (ec_base c) = Inl Diverges"
      using k w assms(7,10) by (intro client_recv_short) simp_all
    then show ?thesis by (simp add: EncryptedClientSocket_recv_def)
  next
    case False
    then have "w = take (length d) w @ drop (length d) w" "length (take (length d) w) = length d" using w by simp_all
    with assms(9) have "kern_conn ?k (take (length d) w @ drop (length d) w) p" by simp
    from ClientSocket_recv_kern [OF this, of ?f] False w assms(7,10)
    obtain k1 where 1: "ClientSocket_recv ?f (ec_base c) = Inr (True, take (length d) w, (ec_base c)\<lparr>cs_kern := k1\<rparr>)"
        "kern_conn k1 (drop (length d) w) p" by auto
    have "length (drop (length d) w) < 16" using w assms(6) by (simp flip: length_greater_0_conv)
    then have "ClientSocket_recv (fresh_bytes g MAC_LEN) ((ec_base c)\<lparr>cs_kern := k1\<rparr>) = Inl Diverges"
      using 1(2) by (intro client_recv_short) (simp_all add: kern_link_def MAC_LEN_def)
    then show ?thesis using 1(1) assms(10,11) by (simp add: EncryptedClientSocket_recv_def MAC_LEN_def)
  qed
qed

definition demo_failing :: EncryptedServerSocket where
  "demo_failing = (demo_server [])\<lparr>es_base := (es_base (demo_server []))\<lparr>ss_kern := (kern_with [])\<lparr>txq := [TxError]\<rparr>\<rparr>\<rparr>"

theorem failed_send_hangs_client_witness:
  "EncryptedClientSocket_recv demo_crypto (\<lambda>_. 0) [0, 0, 0, 0]
     \<lparr>ec_base = (ClientSocket_new ''127.0.0.1'' 8080)\<lparr>cs_kern := kern_with
        (sent (ss_kern (es_base (snd (EncryptedServerSocket_send demo_crypto [0, 0, 0, 1] demo_failing)))))\<rparr>,
      ec_iv = replicate 12 5, ec_key = Some (replicate 32 7)\<rparr> = Inl Diverges"
proof -
  let ?k = "ss_kern (es_base demo_failing)"
  let ?w = "sent (ss_kern (es_base (snd (EncryptedServerSocket_send demo_crypto [0, 0, 0, 1] demo_failing))))"
  let ?c = "\<lparr>ec_base = (ClientSocket_new ''127.0.0.1'' 8080)\<lparr>cs_kern := kern_with ?w\<rparr>,
      ec_iv = replicate 12 5, ec_key = Some (replicate 32 7)\<rparr>"
  have k: "fd_open ?k" "\<not> gone ?k" "txq ?k = TxError # []" "tx_clean []"
    by (simp_all add: demo_failing_def kern_with_def gone_def)
  have d: "[0, 0, 0, 1 :: byte] \<noteq> []" "length [0, 0, 0, 1 :: byte] < 2 ^ 64" by simp_all
  have w: "?w = drop (length (sent ?k)) ?w" by (simp add: demo_failing_def kern_with_def)
  have c: "kern_conn (cs_kern (ec_base ?c)) ?w []" using kern_conn_kern_with by simp
  have "length [0, 0, 0, 0 :: byte] = length [0, 0, 0, 1 :: byte]" "16 \<le> usable demo_crypto (length [0, 0, 0, 1 :: byte])"
    by (simp_all add: demo_crypto_def)
  from failed_send_hangs_client [OF crypto_ok_demo k d w c this] show ?thesis by blast
qed

section \<open>A receive that fails\<close>

text \<open>What is read when byte \<open>length a - 1\<close> of the stream \<open>a @ b\<close> is lost.\<close>

lemma lost_byte:
  assumes "a @ b = x @ i" "a \<noteq> []" "length a < length x"
  shows "length (butlast a @ b) = length x + length i - 1" "drop (length x) (butlast a @ b) = tl i"
    "b = take (length x - (length a - 1)) b @ drop (length x - (length a - 1)) b"
proof -
  have l: "length a + length b = length x + length i" using assms(1) by (simp flip: length_append)
  then show "length (butlast a @ b) = length x + length i - 1" using assms(2,3) by (simp flip: length_greater_0_conv)
  have "drop (length x) (butlast a @ b) = drop (length x + 1) (a @ b)"
    using assms(2,3) by (cases a rule: rev_cases) (simp_all add: Suc_diff_le)
  then show "drop (length x) (butlast a @ b) = tl i" using assms(1) by (simp add: drop_Suc)
  show "b = take (length x - (length a - 1)) b @ drop (length x - (length a - 1)) b" by simp
qed

lemma failed_recv_client:
  assumes "fd_open (cs_kern (ec_base c))" "rx (cs_kern (ec_base c)) = es1 @ RxError # es2" "rx_clean es1" "rx_clean es2"
    and "rx_bytes es1 @ rx_bytes es2 = sealed cr key iv d" "crypto_ok cr"
    and "rx_bytes es1 \<noteq> []" "length (rx_bytes es1) < length d"
    and "length buf = length d" "length d < 2 ^ 64" "16 \<le> usable cr (length d)"
  shows "EncryptedClientSocket_recv cr g buf c = Inl Diverges"
proof -
  let ?f = "fresh_bytes g (length buf)" and ?a = "rx_bytes es1" and ?k = "cs_kern (ec_base c)"
  let ?n = "length d - (length ?a - 1)"
  have l: "length ?a + length (rx_bytes es2) = length d + 16"
    using arg_cong [OF assms(5), of length] crypto_okD [OF assms(6)] by (simp add: sealed_def MAC_LEN_def)
  have f: "length ?a < length ?f" "length ?f < 2 ^ 64" "length ?f = length ?a - 1 + length (take ?n (rx_bytes es2))"
    using assms(7-10) l by simp_all
  have b: "rx_bytes es2 = take ?n (rx_bytes es2) @ drop ?n (rx_bytes es2)" by simp
  obtain es where
      1: "ClientSocket_recv ?f (ec_base c) =
        Inr (True, butlast ?a @ take ?n (rx_bytes es2), (ec_base c)\<lparr>cs_kern := ?k\<lparr>rx := es\<rparr>\<rparr>)"
      "rx_clean es" "rx_bytes es = drop ?n (rx_bytes es2)"
    by (rule ClientSocket_recv_fault [OF assms(1-4) refl assms(7) f(1,2) b f(3)])
  have "length (rx_bytes es) < 16" using 1(3) l assms(7,8) by (simp flip: length_greater_0_conv)
  then have "ClientSocket_recv (fresh_bytes g MAC_LEN) ((ec_base c)\<lparr>cs_kern := ?k\<lparr>rx := es\<rparr>\<rparr>) = Inl Diverges"
    using 1(2) assms(1) by (intro client_recv_short) (simp_all add: MAC_LEN_def)
  then show ?thesis using 1(1) assms(9,11) by (simp add: EncryptedClientSocket_recv_def MAC_LEN_def)
qed

lemma failed_recv_server:
  assumes "fd_open (ss_kern (es_base s))" "rx (ss_kern (es_base s)) = es1 @ RxError # es2" "rx_clean es1" "rx_clean es2"
    and "w = butlast (rx_bytes es1) @ rx_bytes es2" "length buf + 16 \<le> length w"
    and "rx_bytes es1 \<noteq> []" "length (rx_bytes es1) < length buf"
    and "length buf < 2 ^ 64" "16 \<le> usable cr (length buf)"
  obtains b where "EncryptedServerSocket_recv cr g buf s =
      (let (ok, pt) = unseal cr (es_key s) (es_iv s) CIP_HEADER (take (length buf) w) (take 16 (drop (length buf) w))
       in Inr (ok, pt, s\<lparr>es_base := b\<rparr>))"
    "rx_clean (rx (ss_kern b))" "rx_bytes (rx (ss_kern b)) = drop (length buf + 16) w"
proof -
  let ?f = "fresh_bytes g (length buf)" and ?a = "rx_bytes es1" and ?k = "ss_kern (es_base s)"
  let ?n = "length buf - (length ?a - 1)"
  have l: "length w = length ?a - 1 + length (rx_bytes es2)" using assms(5) by simp
  have f: "length ?a < length ?f" "length ?f < 2 ^ 64" "length ?f = length ?a - 1 + length (take ?n (rx_bytes es2))"
    using assms(6-9) l by simp_all
  have b: "rx_bytes es2 = take ?n (rx_bytes es2) @ drop ?n (rx_bytes es2)" by simp
  have w: "take (length buf) w = butlast ?a @ take ?n (rx_bytes es2)" "drop (length buf) w = drop ?n (rx_bytes es2)"
    using assms(5,8) by simp_all
  obtain es where
      1: "ServerSocket_recv ?f (es_base s) = (True, take (length buf) w, (es_base s)\<lparr>ss_kern := ?k\<lparr>rx := es\<rparr>\<rparr>)"
      "rx_clean es" "rx_bytes es = drop (length buf) w"
    unfolding w by (rule ServerSocket_recv_fault [OF assms(1-4) refl assms(7) f(1,2) b f(3)])
  have "length (fresh_bytes g MAC_LEN) \<le> length (rx_bytes es)" using 1(3) assms(6) by (simp add: MAC_LEN_def)
  then obtain es' where
      2: "ServerSocket_recv (fresh_bytes g MAC_LEN) ((es_base s)\<lparr>ss_kern := ?k\<lparr>rx := es\<rparr>\<rparr>) =
        (True, take 16 (drop (length buf) w), (es_base s)\<lparr>ss_kern := ?k\<lparr>rx := es'\<rparr>\<rparr>)"
      "rx_clean es'" "rx_bytes es' = drop 16 (drop (length buf) w)"
    using ServerSocket_recv_clean [of "(es_base s)\<lparr>ss_kern := ?k\<lparr>rx := es\<rparr>\<rparr>" "fresh_bytes g MAC_LEN"] assms(1) 1(2,3)
    by (auto simp: MAC_LEN_def)
  show ?thesis
    by (rule that [of "(es_base s)\<lparr>ss_kern := ?k\<lparr>rx := es'\<rparr>\<rparr>"])
      (use 1(1) 2 assms(10) in \<open>simp_all add: EncryptedServerSocket_recv_def MAC_LEN_def case_prod_beta add.commute\<close>)
qed

text \<open>
  C24. One system call that fails, and the connection is out of step.  A sealed block and then the bytes \<open>i\<close>
  arrive, but after part of the block one \<open>::recv\<close> fails: the byte received last is lost, and the
  first byte after the block is taken as the last of its tag.  If nothing follows, the client does not return
  although all of its answer has arrived; if something follows, the server decrypts the rest of the block
  one byte out of place, and what it leaves for its next call lacks the first byte.
\<close>

theorem failed_recv_shifts_connection:
  assumes "crypto_ok cr" "fd_open k" "rx k = es1 @ RxError # es2" "rx_clean es1" "rx_clean es2"
    and "rx_bytes es1 @ rx_bytes es2 = sealed cr key iv d @ i" "rx_bytes es1 \<noteq> []" "length (rx_bytes es1) < length d"
    and "length buf = length d" "length d < 2 ^ 64" "16 \<le> usable cr (length d)"
    and "w = butlast (rx_bytes es1) @ rx_bytes es2" "cs_kern (ec_base c) = k" "ss_kern (es_base s) = k"
  shows "(i = [] \<longrightarrow> EncryptedClientSocket_recv cr g buf c = Inl Diverges) \<and>
    (i \<noteq> [] \<longrightarrow> (\<exists>ok pt s'. EncryptedServerSocket_recv cr g buf s = Inr (ok, pt, s') \<and>
       unseal cr (es_key s) (es_iv s) CIP_HEADER (take (length d) w) (take 16 (drop (length d) w)) = (ok, pt) \<and>
       rx_clean (rx (ss_kern (es_base s'))) \<and> rx_bytes (rx (ss_kern (es_base s'))) = tl i))"
proof (intro conjI impI)
  assume "i = []"
  then show "EncryptedClientSocket_recv cr g buf c = Inl Diverges"
    using failed_recv_client [of c es1 es2 cr key iv d buf g] assms by simp
next
  assume i: "i \<noteq> []"
  have x: "length (sealed cr key iv d) = length d + 16"
    using crypto_okD [OF assms(1)] by (simp add: sealed_def MAC_LEN_def)
  have "length (rx_bytes es1) < length (sealed cr key iv d)" using x assms(8) by simp
  note w = lost_byte [OF assms(6,7) this, folded assms(12), unfolded x]
  from w(1) i assms(9) have "length buf + 16 \<le> length w" by (simp flip: length_greater_0_conv)
  note wl = this
  have es: "fd_open (ss_kern (es_base s))" "rx (ss_kern (es_base s)) = es1 @ RxError # es2"
      "length (rx_bytes es1) < length buf" "length buf < 2 ^ 64" "16 \<le> usable cr (length buf)"
    using assms(2,3,8-11,14) by simp_all
  obtain b where "EncryptedServerSocket_recv cr g buf s =
      (let (ok, pt) = unseal cr (es_key s) (es_iv s) CIP_HEADER (take (length d) w) (take 16 (drop (length d) w))
       in Inr (ok, pt, s\<lparr>es_base := b\<rparr>))" "rx_clean (rx (ss_kern b))" "rx_bytes (rx (ss_kern b)) = tl i"
    by (rule failed_recv_server [OF es(1,2) assms(4,5,12) wl assms(7) es(3-5), of g]) (simp add: assms(9) w(2))
  then show "\<exists>ok pt s'. EncryptedServerSocket_recv cr g buf s = Inr (ok, pt, s') \<and>
       unseal cr (es_key s) (es_iv s) CIP_HEADER (take (length d) w) (take 16 (drop (length d) w)) = (ok, pt) \<and>
       rx_clean (rx (ss_kern (es_base s'))) \<and> rx_bytes (rx (ss_kern (es_base s'))) = tl i"
    by (cases "unseal cr (es_key s) (es_iv s) CIP_HEADER (take (length d) w) (take 16 (drop (length d) w))") simp
qed

definition demo_faulty :: "byte list \<Rightarrow> nat \<Rightarrow> kern" where
  "demo_faulty w n = (kern_with [])\<lparr>rx := [Arrived (take n w), RxError, Arrived (drop n w)]\<rparr>"

lemma demo_faulty_fits:
  assumes "w = sealed demo_crypto (replicate 32 7) (replicate 12 5) [0, 0, 0, 1] @ i" "k = demo_faulty w 2"
  obtains es1 es2 where "fd_open k" "rx k = es1 @ RxError # es2" "rx_clean es1" "rx_clean es2"
    "rx_bytes es1 @ rx_bytes es2 = w" "rx_bytes es1 \<noteq> []" "length (rx_bytes es1) < 4"
proof -
  have "length w = 20 + length i"
    using crypto_okD [OF crypto_ok_demo] assms(1) by (simp add: sealed_def MAC_LEN_def)
  then have "take 2 w \<noteq> []" "drop 2 w \<noteq> []" by (auto simp flip: length_greater_0_conv)
  then show ?thesis
    by (intro that [of "[Arrived (take 2 w)]" "[Arrived (drop 2 w)]"])
      (simp_all add: assms(2) demo_faulty_def kern_with_def)
qed

theorem failed_recv_shifts_connection_witness:
  "EncryptedClientSocket_recv demo_crypto (\<lambda>_. 0) [0, 0, 0, 0]
     \<lparr>ec_base = (ClientSocket_new ''127.0.0.1'' 8080)\<lparr>cs_kern :=
        demo_faulty (sealed demo_crypto (replicate 32 7) (replicate 12 5) [0, 0, 0, 1]) 2\<rparr>,
      ec_iv = replicate 12 5, ec_key = Some (replicate 32 7)\<rparr> = Inl Diverges \<and>
   (\<exists>ok pt s'. EncryptedServerSocket_recv demo_crypto (\<lambda>_. 0) [0, 0, 0, 0]
      ((demo_server [])\<lparr>es_base := ServerSocket_new
        (demo_faulty (sealed demo_crypto (replicate 32 7) (replicate 12 5) [0, 0, 0, 1] @ [8, 9]) 2)\<rparr>) =
      Inr (ok, pt, s') \<and> rx_bytes (rx (ss_kern (es_base s'))) = [9])"
proof
  let ?w = "sealed demo_crypto (replicate 32 7) (replicate 12 5) [0, 0, 0, 1]"
  let ?c = "\<lambda>k. \<lparr>ec_base = (ClientSocket_new ''127.0.0.1'' 8080)\<lparr>cs_kern := k\<rparr>,
      ec_iv = replicate 12 5, ec_key = Some (replicate 32 7)\<rparr>"
  let ?s = "\<lambda>k. (demo_server [])\<lparr>es_base := ServerSocket_new k\<rparr>"
  have d: "length [0, 0, 0, 0 :: byte] = length [0, 0, 0, 1 :: byte]" "length [0, 0, 0, 1 :: byte] < 2 ^ 64"
      "16 \<le> usable demo_crypto (length [0, 0, 0, 1 :: byte])"
    by (simp_all add: demo_crypto_def)
  have ends: "cs_kern (ec_base (?c k)) = k" "ss_kern (es_base (?s k)) = k" for k
    by (simp_all add: ServerSocket_new_def)
  have four: "length [0, 0, 0, 1 :: byte] = 4" by simp
  obtain es1 es2 where k: "fd_open (demo_faulty ?w 2)" "rx (demo_faulty ?w 2) = es1 @ RxError # es2"
      "rx_clean es1" "rx_clean es2" "rx_bytes es1 @ rx_bytes es2 = ?w" "rx_bytes es1 \<noteq> []" "length (rx_bytes es1) < 4"
    by (rule demo_faulty_fits [of ?w "[]"]) simp_all
  from k(5) have "rx_bytes es1 @ rx_bytes es2 = ?w @ []" by simp
  from failed_recv_shifts_connection [OF crypto_ok_demo k(1-4) this k(6,7) [folded four] d refl ends]
  show "EncryptedClientSocket_recv demo_crypto (\<lambda>_. 0) [0, 0, 0, 0] (?c (demo_faulty ?w 2)) = Inl Diverges" by blast
  obtain es1 es2 where k: "fd_open (demo_faulty (?w @ [8, 9]) 2)" "rx (demo_faulty (?w @ [8, 9]) 2) = es1 @ RxError # es2"
      "rx_clean es1" "rx_clean es2" "rx_bytes es1 @ rx_bytes es2 = ?w @ [8, 9]" "rx_bytes es1 \<noteq> []" "length (rx_bytes es1) < 4"
    by (rule demo_faulty_fits [of "?w @ [8, 9]" "[8, 9]"]) simp_all
  have i: "[8, 9 :: byte] \<noteq> []" "tl [8, 9 :: byte] = [9]" by simp_all
  from failed_recv_shifts_connection [OF crypto_ok_demo k(1-6) k(7) [folded four] d refl ends, of "\<lambda>_. 0"] i
  show "\<exists>ok pt s'. EncryptedServerSocket_recv demo_crypto (\<lambda>_. 0) [0, 0, 0, 0] (?s (demo_faulty (?w @ [8, 9]) 2)) =
      Inr (ok, pt, s') \<and> rx_bytes (rx (ss_kern (es_base s'))) = [9]" by metis
qed

end
