(* ===== verification/Client_Failures.thy ===== *)
theory Client_Failures
  imports System_Sessions Closed_Downloads
begin

text \<open>
  Connections that are refused.  \<open>connect\<close> of a client socket reports a failure on the error stream
  only; the encrypted socket then has no key, the first \<open>send\<close> throws, and nothing in the client
  catches the exception.  So it goes at the start of the client when the index is not there, and at a
  download when the holder that the index names is gone.  A holder or an index that takes the request and
  then closes the connection, or ends its side of it, without an answer makes the client wait for ever.
\<close>

section \<open>A socket that is not connected\<close>

definition refuses :: "conn_env \<Rightarrow> string \<Rightarrow> u16 \<Rightarrow> bool" where
  "refuses env addr prt \<longleftrightarrow> ce_pton env addr \<le> 0 \<or> fst (ce_connect env addr (htons prt)) < 0"

lemma refused_dial:
  assumes "refuses env addr prt"
  shows "\<exists>s. client_dial cr g env rnd addr prt = Inr s \<and> ec_key s = None"
  using assms
  by (auto simp: client_dial_def EncryptedClientSocket_connect_def EncryptedClientSocket_new_def
      ClientSocket_connect_def ClientSocket_new_def ClientSocket_is_connected_def refuses_def Let_def
      split: prod.splits)

lemma keyless_send:
  "ec_key s = None \<Longrightarrow> send_int (eclient_ops cr g env) w s = Inl (Throws CryptoPP_BadState)"
  by (simp add: send_int_def send_bytes_def eclient_ops_def EncryptedClientSocket_send_def)

lemma get_from_peer_refused:
  assumes "refuses env (host d) (ucast (port d))"
  shows "get_from_peer (eclient_ops cr g env') (client_dial cr g env rnd) g h p n d st =
    Inl (Throws CryptoPP_BadState)"
  using refused_dial [OF assms, of cr g rnd] keyless_send [of _ cr g env']
  by (auto simp: get_from_peer_def Let_def)

lemma client_session_refused_index:
  "ec_key s = None \<Longrightarrow> client_session (eclient_ops cr g env) pops dial g h p lines (st, s) =
    Inl (Throws CryptoPP_BadState)"
  by (simp add: client_session_def keyless_send)

section \<open>The download fails\<close>

context frame_socket
begin

lemma client_get_rfc_fails:
  assumes "conn s [wire32 (ulen w), w] outs" "fst (get_rfcs (pr_fs st)) = Inr ns"
    and "0 < sint n" "n \<notin> set ns" "w = lookup_wire g' (c # cs)" "hosts_ok (c # cs)"
    and "length (clients_wire (c # cs)) + 9 < 2 ^ 31" "\<forall>d \<in> set (c # cs). nul \<notin> set (host d)"
    and "get_from_peer pops dial g h p n c st = Inl e"
  shows "client_get_rfc ops pops dial g n h p (st, s) = Inl e"
  using client_get_rfc_after_lookup [where dial = dial and pops = pops and g = g and h = h and p = p, OF assms(1-8)] assms(9) by auto

lemma client_session_get_fails:
  assumes "conn s (wire32 PROTOCOL_VERSION # map (\<lambda>_. wire32 200) ns @ [wire32 (ulen w), w]) []"
    and "length h + 1 < 2 ^ 31" "fst (get_rfcs (pr_fs st)) = Inr ns" "\<forall>n \<in> set ns. 0 < sint n"
    and "0 < sint n" "n \<notin> set ns" "w = lookup_wire g' (c # cs)" "hosts_ok (c # cs)"
    and "length (clients_wire (c # cs)) + 9 < 2 ^ 31" "\<forall>d \<in> set (c # cs). nul \<notin> set (host d)"
    and "get_from_peer pops (dial (length lines)) g h p n c (prompted st) = Inl e"
  shows "client_session ops pops dial g h p ((''get '' @ dec_int (sint n)) # lines) (st, s) = Inl e"
proof -
  let ?lines = "(''get '' @ dec_int (sint n)) # lines"
  from client_session_start [OF assms(1-4), of pops dial g p ?lines]
  obtain s1 where 1: "client_session ops pops dial g h p ?lines (st, s) =
      bnd (run_loop (command_loop ops pops dial g h p ?lines (st, s1)))
        (\<lambda>(st, s). bnd (client_disconnect ops s) (\<lambda>s. Inr (0, st, s)))"
      "conn s1 [wire32 (ulen w), w] (session_blocks h p (map Ask_add ns))" by blast
  have "fst (get_rfcs (pr_fs (prompted st))) = Inr ns" using assms(3) by simp
  from client_get_rfc_fails [OF 1(2) this assms(5-11)]
  have "run_command ops pops (dial (length lines)) g h p (''get '' @ dec_int (sint n)) (prompted st, s1) = Inl e"
    unfolding run_command_get [OF assms(5)] .
  then have "command_loop ops pops dial g h p ?lines (st, s1) = Some (Inl e)"
    by (subst command_loop.simps) simp
  then show ?thesis unfolding 1(1) by (simp add: run_loop_def)
qed

end

section \<open>A connection that is ended without an answer\<close>

text \<open>
  A client-side \<open>recv\<close> does not come back once the other side has closed the connection or ended its side of
  it, since its loop does not count the empty reads.
\<close>

locale hanging_socket = frame_socket ops conn
  for ops :: "'s sock_ops" and conn +
  assumes recv_hangs: "conn s [] outs \<Longrightarrow> buf \<noteq> [] \<Longrightarrow> length buf < 2 ^ 64 \<Longrightarrow> vrecv ops buf s = Inl Diverges"
begin

lemma recv_int_hangs: "conn s [] outs \<Longrightarrow> recv_int ops old s = Inl Diverges"
  using recv_hangs [of s outs "store32 old"]
  by (simp add: recv_int_def recv_bytes_def flip: length_greater_0_conv)

text \<open>A holder that takes the request and does not answer it, and an index that does so.\<close>

lemma get_from_peer_hangs:
  assumes "conn s0 [] []" "length my_host + 1 < 2 ^ 31" "dial (host c) (ucast (port c)) = Inr s0"
    and "0 < sint (ucast n :: u16)"
  shows "get_from_peer ops dial g my_host my_port n c st = Inl Diverges"
proof -
  from get_from_peer_start [where n = n and dial = dial and c = c, OF assms, of my_port]
  obtain s1 s2 s3 s4 s5 where 1: "send_int ops (htonl (ulen my_host)) s0 = Inr s1"
      "send_ptr ops (Bytes (string_bytes my_host)) (length my_host) s1 = Inr s2"
      "send_int ops (htonl my_port) s2 = Inr s3" "send_int ops (htonl 1) s3 = Inr s4"
      "send_ptr ops (Bytes (wire16 (ucast n))) 2 s4 = Inr s5"
      "conn s5 [] (identity_blocks my_host my_port @ [wire32 1, wire16 (ucast n)])" by blast
  have enc: "GetRFCMessage_to_bytes g (GetRFCMessage_new (ucast n)) = Inr (Bytes (wire16 (ucast n)))"
    using assms(4) by (simp add: codec_simps GetRFCMessage_is_valid_def GetRFCMessage_new_def)
  show ?thesis
    using assms(3) 1 enc recv_int_hangs [OF 1(6)] length_steps(2) [OF assms(2)]
    by (simp add: get_from_peer_def GetRFCMessage_message_size_def)
qed

lemma list_rfcs_remote_hangs:
  assumes "conn s [] outs"
  shows "list_rfcs_remote ops g h p (st, s) = Inl Diverges"
proof -
  obtain s1 where "send_int ops (htonl 2) s = Inr s1" "conn s1 [] (outs @ [wire32 2])"
    using send_int_conn [OF assms] by blast
  with recv_int_hangs [OF this(2)] show ?thesis by (simp add: list_rfcs_remote_def)
qed

end

interpretation eclient_hangs: hanging_socket "eclient_ops cr g env" "eclient_link e cr key iv pre"
proof (rule hanging_socket.intro [OF eclient_link_frame], unfold_locales)
  fix s outs and buf :: "byte list"
  assume "eclient_link e cr key iv pre s [] outs" and buf: "buf \<noteq> []" "length buf < 2 ^ 64"
  then have "fd_open (cs_kern (ec_base s))" "rx_clean (rx (cs_kern (ec_base s)))" "rx_bytes (rx (cs_kern (ec_base s))) = []"
    by (simp_all add: eclient_link_def kern_link_def)
  then have "client_recv_loop (of_nat (length buf)) 0 0 (fresh_bytes g (length buf)) (cs_kern (ec_base s)) = None"
    using buf unat_len [OF buf(2)] by (intro client_recv_loop_short) simp_all
  then show "vrecv (eclient_ops cr g env) buf s = Inl Diverges"
    by (simp add: eclient_ops_def EncryptedClientSocket_recv_def ClientSocket_recv_def)
qed

section \<open>A lookup that finds a holder\<close>

lemma register_and_lookup:
  assumes "index_wf ci" "c = \<lparr>host = h, port = p\<rparr>" "c \<notin> connected (abs_index ci)" "distinct ns"
    and "n \<notin> set ns" "rs = map Ask_add ns @ [Ask_lookup n]"
    and "ci1 = snd (add_client h p ci)" "w = lookup_wire g (find_rfcs n ci)"
  shows "fst (answers g h p rs ci1) = map (\<lambda>_. wire32 200) ns @ [wire32 (ulen w), w]"
    and "all_sendable g h p rs ci1 \<Longrightarrow> hosts_ok (find_rfcs n ci)"
    and "all_sendable g h p rs ci1 \<Longrightarrow> length (clients_wire (find_rfcs n ci)) + 9 < 2 ^ 31"
proof -
  define ci2 where "ci2 = snd (answers g h p (map Ask_add ns) ci1)"
  note r = register_new [OF assms(1-4) ci2_def [unfolded assms(7)]]
  have found: "find_rfcs n ci2 = find_rfcs n ci"
    using r(2,4) assms(1,5) by (intro find_rfcs_determined) (auto simp: index_wf_def)
  then show "fst (answers g h p rs ci1) = map (\<lambda>_. wire32 200) ns @ [wire32 (ulen w), w]"
    using r(1) by (simp add: assms(6-8) answers_append ci2_def)
  assume "all_sendable g h p rs ci1"
  then have "sendable ci2" by (simp add: assms(6) all_sendable_append ci2_def)
  then show "hosts_ok (find_rfcs n ci)" "length (clients_wire (find_rfcs n ci)) + 9 < 2 ^ 31"
    using sendable_lookup [of ci2 n] found by simp_all
qed

section \<open>Properties\<close>

text \<open>
  A client that is started while the index cannot be reached ends with an uncaught exception: it
  says that it is connected, and then sends over a socket whose cipher has no key.
\<close>

lemma unreachable_index_ends_client:
  assumes "length argv = 4" "stoi (argv ! 3) = Inr p" "fs_node fs = Directory es"
    and "refuses env ''127.0.0.1'' 8080"
  shows "client_main (eclient_ops cr g env) (client_dial cr g env rnd) pops dial g lenv argv lines fs =
    Inl (Throws CryptoPP_BadState)"
proof -
  obtain s where "client_dial cr g env rnd ''127.0.0.1'' 8080 = Inr s" "ec_key s = None"
    using refused_dial [OF assms(4)] by blast
  with assms(1-3) show ?thesis
    by (simp add: client_main_def RFCManager_new_def verify_path_def case_prod_beta Let_def
        client_session_refused_index)
qed

definition demo_refusing :: conn_env where
  "demo_refusing = \<lparr>ce_socket = 3, ce_pton = (\<lambda>_. 1), ce_connect = (\<lambda>_ _. (-1, no_kern)), ce_close = 0\<rparr>"

lemma unreachable_index_ends_client_witness:
  "client_main (eclient_ops demo_crypto (\<lambda>_. 0) demo_refusing)
     (client_dial demo_crypto (\<lambda>_. 0) demo_refusing (\<lambda>_ _. demo_draws 4)) demo_ops (\<lambda>_ _ _. Inr (demo_end [])) (\<lambda>_. 0)
     \<lparr>le_socket = 4, le_setsockopt = 0, le_bind = 0, le_listen = 0\<rparr>
     [''client'', ''rfcs'', ''c'', dec_nat 3] [''quit''] (pr_fs (demo_files [])) = Inl (Throws CryptoPP_BadState)"
  by (rule unreachable_index_ends_client [where p = 3 and es = "[]"])
    (use stoi_dec_nat [of 3] in \<open>simp_all add: demo_files_def refuses_def demo_refusing_def\<close>)

text \<open>
  C28. One dead client takes the others with it.  If the first holder the index names for a number refuses
  connections, the client that asks for the number ends with an uncaught exception in the middle of
  its session.  With its process its connection to the index is closed, without DISCONNECT; its handler there
  goes on answering the lookup and so ends the process of the index server, however many more blocks \<open>k\<close>
  the kernel takes before it raises SIGPIPE.
\<close>

theorem dead_peer_spreads:
  assumes "index_wf (sv_index sst)" "\<lparr>host = h, port = p\<rparr> \<notin> set (clients (sv_index sst))"
    and "fst (get_rfcs (pr_fs cst)) = Inr ns" "\<forall>m \<in> set ns. 0 < sint m" "distinct ns" "n \<notin> set ns" "0 < sint n"
    and "rs = map Ask_add ns @ [Ask_lookup n]" "ci = snd (add_client h p (sv_index sst))"
    and "eclient_conn cr key iv pre sc (wire32 PROTOCOL_VERSION # fst (answers g' h p rs ci)) []"
    and "eserver_link (Leaving k) cr key iv pre' ss (session_blocks h p rs) []"
    and "all_sendable g' h p rs ci" "nul \<notin> set h" "length h + 1 < 2 ^ 31"
    and "find_rfcs n (sv_index sst) = d # ds" "\<forall>e \<in> set (d # ds). nul \<notin> set (host e)"
    and "refuses (envs (length lines)) (host d) (ucast (port d))"
    and "left = snd (answers g' h p rs ci)" "sendable left"
    and "sendable (snd (add_rfc h p (garbage_number g') left))"
  shows "client_session (eclient_ops cr g env) (eclient_ops cr g env) (\<lambda>k. client_dial cr g (envs k) (rnd k)) g h p
      ((''get '' @ dec_int (sint n)) # lines) (cst, sc) = Inl (Throws CryptoPP_BadState) \<and>
    server_client_handler (eserver_ops cr g') g' sst ss = Inl Killed_by_SIGPIPE"
proof -
  let ?c = "\<lparr>host = h, port = p\<rparr>"
  have c: "?c \<notin> connected (abs_index (sv_index sst))" using assms(2) by (simp add: abs_index_def)
  note r = register_and_lookup [OF assms(1) refl c assms(5,6,8,9) refl, of g']
  let ?w = "lookup_wire g' (d # ds)"
  have ok: "hosts_ok (d # ds)" "length (clients_wire (d # ds)) + 9 < 2 ^ 31"
    using r(2,3) assms(12,15) by simp_all
  have "eclient_conn cr key iv pre sc (wire32 PROTOCOL_VERSION # map (\<lambda>_. wire32 200) ns @
      [wire32 (ulen ?w), ?w]) []"
    using assms(10,15) r(1) by simp
  from eclient_sock.client_session_get_fails [where dial = "\<lambda>k. client_dial cr g (envs k) (rnd k)" and lines = lines, OF this assms(14,3,4,7,6) refl ok assms(16)
      get_from_peer_refused [OF assms(17)]]
  have 1: "client_session (eclient_ops cr g env) (eclient_ops cr g env) (\<lambda>k. client_dial cr g (envs k) (rnd k)) g h p
      ((''get '' @ dec_int (sint n)) # lines) (cst, sc) = Inl (Throws CryptoPP_BadState)" .
  have last: "list_all proper rs" "rs \<noteq> []" "request_word (last rs) \<in> {1, 2, 3}"
    using assms(8) by (simp_all add: list_all_iff)
  note all = assms(12) [unfolded assms(9)] and left = assms(18) [unfolded assms(9)]
  from eserver_closed.handler_closed [where st = sst and ci = left and g = g',
      OF assms(11,13,14) last(1) all left assms(19,20) last(2,3)]
  have "server_client_handler (eserver_ops cr g') g' sst ss = Inl Killed_by_SIGPIPE" .
  with 1 show ?thesis by blast
qed

theorem dead_peer_spreads_witness:
  "client_session (eclient_ops demo_crypto (\<lambda>_. 0) demo_refusing) (eclient_ops demo_crypto (\<lambda>_. 0) demo_refusing)
      (\<lambda>k. client_dial demo_crypto (\<lambda>_. 0) demo_refusing (\<lambda>_ _. demo_draws 4)) (\<lambda>_. 0) ''c'' 3
      ((''get '' @ dec_int (sint (791 :: u32))) # [''quit''])
      (demo_files [(rfc_filename 1, RegFile ''ip'')], demo_end (wire32 PROTOCOL_VERSION #
        fst (answers (\<lambda>_. 0) ''c'' 3 [Ask_add 1, Ask_lookup 791] (snd (add_client ''c'' 3 demo_index))))) =
      Inl (Throws CryptoPP_BadState) \<and>
    server_client_handler (eserver_ops demo_crypto (\<lambda>_. 0)) (\<lambda>_. 0) \<lparr>sv_index = demo_index, sv_log = []\<rparr>
      (leaving 2 (demo_peer (session_blocks ''c'' 3 [Ask_add 1, Ask_lookup 791]))) = Inl Killed_by_SIGPIPE"
proof -
  let ?sst = "\<lparr>sv_index = demo_index, sv_log = []\<rparr>" and ?rs = "[Ask_add 1, Ask_lookup 791]"
  let ?ci = "snd (add_client ''c'' 3 demo_index)"
  have wf: "index_wf (sv_index ?sst)" by (simp add: index_wf_demo)
  have new: "\<lparr>host = ''c'', port = 3\<rparr> \<notin> set (clients (sv_index ?sst))" by (simp add: demo_index_def)
  note dir = demo_files_one(1) [where n = 1, simplified]
  have ns: "\<forall>m \<in> set [1 :: u32]. 0 < sint m" "distinct [1 :: u32]" "(791 :: u32) \<notin> set [1]" "0 < sint (791 :: u32)"
    by simp_all
  have rs: "?rs = map Ask_add [1] @ [Ask_lookup 791]" by simp
  have ci: "?ci = snd (add_client ''c'' 3 (sv_index ?sst))" by simp
  have ok: "all_sendable (\<lambda>_. 0) ''c'' 3 ?rs ?ci" by (simp add: demo_session_simps demo_index_def)
  have h: "nul \<notin> set ''c''" "length ''c'' + 1 < 2 ^ 31" by (simp_all add: nul_def)
  have found: "find_rfcs 791 (sv_index ?sst) = \<lparr>host = ''b'', port = 2\<rparr> # []"
    by (simp add: demo_index_def find_rfcs_def)
  have hosts: "\<forall>e \<in> set (\<lparr>host = ''b'', port = 2\<rparr> # []). nul \<notin> set (host e)" by (simp add: nul_def)
  have ref: "refuses demo_refusing (host \<lparr>host = ''b'', port = 2\<rparr>) (ucast (port \<lparr>host = ''b'', port = 2\<rparr>))"
    by (simp add: refuses_def demo_refusing_def)
  have left: "sendable (snd (answers (\<lambda>_. 0) ''c'' 3 ?rs ?ci))"
      "sendable (snd (add_rfc ''c'' 3 (garbage_number (\<lambda>_. 0)) (snd (answers (\<lambda>_. 0) ''c'' 3 ?rs ?ci))))"
    by (simp_all add: demo_session_simps demo_index_def)
  from dead_peer_spreads [where g = "\<lambda>_. 0" and rnd = "\<lambda>_ _ _. demo_draws 4" and envs = "\<lambda>_. demo_refusing" and lines = "[''quit'']",
      OF wf new dir ns rs ci demo_end_conn demo_leaving_conn ok h found hosts ref refl left]
  show ?thesis by blast
qed


text \<open>
  C30. No answer hangs the client.  A holder that takes the request for a number and then closes the connection
  (\<open>Leaving\<close>), or ends its side of it (\<open>Stays\<close>), without an answer makes the client wait for ever: the
  loop of its \<open>recv\<close> goes round on empty reads, so \<open>get_from_peer\<close> does not return and the session with the
  index does not go on, whatever the user types next; and so does an index that takes the request of \<open>list\<close> and
  then does the same.  In both cases the other side has read all that was sent to it, so that its end is an empty read
  and not an error.
\<close>

theorem closed_connection_hangs_client:
  assumes "eclient_conn cr key iv pre sc (wire32 PROTOCOL_VERSION # map (\<lambda>_. wire32 200) ns @ [wire32 (ulen w), w]) []"
    and "length h + 1 < 2 ^ 31" "fst (get_rfcs (pr_fs st)) = Inr ns" "\<forall>m \<in> set ns. 0 < sint m"
    and "0 < sint n" "0 < sint (asked n)" "n \<notin> set ns" "w = lookup_wire g' (c # cs)" "hosts_ok (c # cs)"
    and "length (clients_wire (c # cs)) + 9 < 2 ^ 31" "\<forall>d \<in> set (c # cs). nul \<notin> set (host d)"
    and "dial (length lines) (host c) (ucast (port c)) = Inr sp" "eclient_link e cr key' iv' pre' sp [] []"
    and "eclient_link e' cr key iv pre'' si [] outs"
  shows "client_session (eclient_ops cr g env) (eclient_ops cr g env) dial g h p
      ((''get '' @ dec_int (sint n)) # lines) (st, sc) = Inl Diverges \<and>
    run_command (eclient_ops cr g env) (eclient_ops cr g env) (dial 0) g h p ''list'' (st, si) = Inl Diverges"
proof
  have n: "0 < sint (ucast n :: u16)" using assms(6) by (simp add: sint_asked)
  show "client_session (eclient_ops cr g env) (eclient_ops cr g env) dial g h p
      ((''get '' @ dec_int (sint n)) # lines) (st, sc) = Inl Diverges"
    using eclient_sock.client_session_get_fails [where dial = dial and lines = lines, OF assms(1-5,7-11) 
        eclient_hangs.get_from_peer_hangs [where dial = "dial (length lines)" and c = c and n = n, OF assms(13,2,12) n]] .
  show "run_command (eclient_ops cr g env) (eclient_ops cr g env) (dial 0) g h p ''list'' (st, si) = Inl Diverges"
    using eclient_hangs.list_rfcs_remote_hangs [OF assms(14)] by (simp add: run_command_def get_match_def c_string_id nul_def)
qed

text \<open>A holder that closes, and an index that ends its side.\<close>

definition closing :: "nat \<Rightarrow> EncryptedClientSocket \<Rightarrow> EncryptedClientSocket" where
  "closing n s = s\<lparr>ec_base := (ec_base s)\<lparr>cs_kern := (cs_kern (ec_base s))\<lparr>peer_end := Leaving n\<rparr>\<rparr>\<rparr>"

lemma closing_conn:
  "eclient_conn cr key iv pre s ins outs \<Longrightarrow> eclient_link (Leaving n) cr key iv pre (closing n s) ins outs"
  by (simp add: eclient_link_def kern_link_def closing_def)

theorem closed_connection_hangs_client_witness:
  "client_session (eclient_ops demo_crypto (\<lambda>_. 0) demo_refusing) (eclient_ops demo_crypto (\<lambda>_. 0) demo_refusing)
      (\<lambda>_ _ _. Inr (closing 2 (demo_end []))) (\<lambda>_. 0) ''c'' 3 ((''get '' @ dec_int (sint (791 :: u32))) # [''quit''])
      (demo_files [(rfc_filename 1, RegFile ''ip'')], demo_end (wire32 PROTOCOL_VERSION # map (\<lambda>_. wire32 200) [1 :: u32] @
        [wire32 (ulen (lookup_wire (\<lambda>_. 0) (\<lparr>host = ''b'', port = 2\<rparr> # []))), lookup_wire (\<lambda>_. 0) (\<lparr>host = ''b'', port = 2\<rparr> # [])])) =
    Inl Diverges"
proof -
  note dir = demo_files_one(1) [where n = 1, simplified]
  have ns: "\<forall>m \<in> set [1 :: u32]. 0 < sint m" "0 < sint (791 :: u32)" "0 < sint (asked 791)" "(791 :: u32) \<notin> set [1]"
    by simp_all
  have h: "length ''c'' + 1 < 2 ^ 31" by simp
  have b: "hosts_ok (\<lparr>host = ''b'', port = 2\<rparr> # [])" "length (clients_wire (\<lparr>host = ''b'', port = 2\<rparr> # [])) + 9 < 2 ^ 31"
      "\<forall>d \<in> set (\<lparr>host = ''b'', port = 2\<rparr> # []). nul \<notin> set (host d)"
    by (simp_all add: length_client_wire nul_def)
  from closed_connection_hangs_client [where g = "\<lambda>_. 0" and p = 3 and lines = "[''quit'']" and env = demo_refusing
      and dial = "\<lambda>_ _ _. Inr (closing 2 (demo_end []))",
      OF demo_end_conn h dir ns refl b refl closing_conn [OF demo_end_conn] demo_end_conn]
  show ?thesis by blast
qed

end
