(* ===== verification/Tampering.thy ===== *)
theory Tampering
  imports Client_Failures
begin

text \<open>
  Blocks whose tags do not verify.  \<open>recv\<close> of an encrypted socket returns false for such a block,
  but by then the buffer holds what the cipher made of it, and no caller above the sockets looks at the
  result.  So the handlers meet their contract over a connection on which nothing is authentic, and
  whoever can alter the bytes on the wire decides what the two programs do.
\<close>

unbundle bit_operations_syntax

section \<open>Connections with unauthentic blocks\<close>

text \<open>What arrives is a list of blocks, each with the 16 bytes that stand where its tag would be.\<close>

definition opened :: "crypto \<Rightarrow> byte list \<Rightarrow> byte list \<Rightarrow> byte list \<times> byte list \<Rightarrow> byte list" where
  "opened cr key iv = (\<lambda>(ct, tag). snd (unseal cr key iv CIP_HEADER ct tag))"

definition arriving :: "(byte list \<times> byte list) list \<Rightarrow> byte list" where
  "arriving bs = concat (map (\<lambda>(ct, tag). ct @ tag) bs)"

lemma arriving_simps [simp]: "arriving [] = []" "arriving ((ct, tag) # bs) = ct @ tag @ arriving bs"
  by (simp_all add: arriving_def)

definition opens_to :: "crypto \<Rightarrow> byte list \<Rightarrow> byte list \<Rightarrow> (byte list \<times> byte list) list \<Rightarrow> byte list list \<Rightarrow> bool" where
  "opens_to cr key iv = list_all2 (\<lambda>(ct, tag) d.
     opened cr key iv (ct, tag) = d \<and> length ct = length d \<and> length tag = MAC_LEN)"

definition altered_server_conn ::
    "crypto \<Rightarrow> byte list \<Rightarrow> byte list \<Rightarrow> byte list \<Rightarrow> EncryptedServerSocket \<Rightarrow> byte list list \<Rightarrow> byte list list \<Rightarrow> bool" where
  "altered_server_conn cr key iv pre s ins outs \<longleftrightarrow>
     crypto_ok cr \<and> tags_fit cr ins \<and> es_key s = key \<and> es_iv s = iv \<and>
     (\<exists>bs. opens_to cr key iv bs ins \<and>
        kern_conn (ss_kern (es_base s)) (arriving bs) (pre @ sealed_all cr key iv outs))"

definition altered_client_conn ::
    "crypto \<Rightarrow> byte list \<Rightarrow> byte list \<Rightarrow> byte list \<Rightarrow> EncryptedClientSocket \<Rightarrow> byte list list \<Rightarrow> byte list list \<Rightarrow> bool" where
  "altered_client_conn cr key iv pre s ins outs \<longleftrightarrow>
     crypto_ok cr \<and> tags_fit cr ins \<and> ec_key s = Some key \<and> ec_iv s = iv \<and>
     (\<exists>bs. opens_to cr key iv bs ins \<and>
        kern_conn (cs_kern (ec_base s)) (arriving bs) (pre @ sealed_all cr key iv outs))"

lemma opens_to_Cons:
  assumes "opens_to cr key iv bs (f # ins)"
  obtains ct tag bs' where "bs = (ct, tag) # bs'" "snd (unseal cr key iv CIP_HEADER ct tag) = f"
    "length ct = length f" "length tag = MAC_LEN" "opens_to cr key iv bs' ins"
  using assms by (auto simp: opens_to_def opened_def list_all2_Cons2)

interpretation altered_server: frame_socket "eserver_ops cr g" "altered_server_conn cr key iv pre"
proof
  fix s ins outs and d :: "byte list"
  assume "altered_server_conn cr key iv pre s ins outs" and d: "length d < 2 ^ 64"
  then obtain bs where s: "crypto_ok cr" "tags_fit cr ins" "es_key s = key" "es_iv s = iv" "opens_to cr key iv bs ins"
      "kern_conn (ss_kern (es_base s)) (arriving bs) (pre @ sealed_all cr key iv outs)"
    by (auto simp: altered_server_conn_def)
  from EncryptedServerSocket_send_kern [OF s(1,6) d] s(1-5)
  show "\<exists>s'. vsend (eserver_ops cr g) d s = Inr (True, s') \<and> altered_server_conn cr key iv pre s' ins (outs @ [d])"
    by (fastforce simp: altered_server_conn_def eserver_ops_def kern_link_def)
next
  fix s f ins outs and buf :: "byte list"
  assume "altered_server_conn cr key iv pre s (f # ins) outs" and buf: "length buf = length f" "length f < 2 ^ 64"
  then obtain bs where s: "crypto_ok cr" "tags_fit cr (f # ins)" "es_key s = key" "es_iv s = iv"
      "opens_to cr key iv bs (f # ins)"
      "kern_conn (ss_kern (es_base s)) (arriving bs) (pre @ sealed_all cr key iv outs)"
    by (auto simp: altered_server_conn_def)
  from s(5) obtain ct tag bs' where b: "bs = (ct, tag) # bs'" "snd (unseal cr key iv CIP_HEADER ct tag) = f"
      "length ct = length f" "length tag = MAC_LEN" "opens_to cr key iv bs' ins" by (rule opens_to_Cons)
  have "kern_conn (ss_kern (es_base s)) (ct @ tag @ arriving bs') (pre @ sealed_all cr key iv outs)"
    using s(6) b(1) by simp
  from EncryptedServerSocket_recv_block [OF this, of buf cr g] s(1-4) b(2-5) buf
  show "\<exists>ok s'. vrecv (eserver_ops cr g) buf s = Inr (ok, f, s') \<and> altered_server_conn cr key iv pre s' ins outs"
    by (auto simp: altered_server_conn_def eserver_ops_def tags_fit_def case_prod_beta)
qed

interpretation altered_client: frame_socket "eclient_ops cr g env" "altered_client_conn cr key iv pre"
proof
  fix s ins outs and d :: "byte list"
  assume "altered_client_conn cr key iv pre s ins outs" and d: "length d < 2 ^ 64"
  then obtain bs where s: "crypto_ok cr" "tags_fit cr ins" "ec_key s = Some key" "ec_iv s = iv" "opens_to cr key iv bs ins"
      "kern_conn (cs_kern (ec_base s)) (arriving bs) (pre @ sealed_all cr key iv outs)"
    by (auto simp: altered_client_conn_def)
  from EncryptedClientSocket_send_kern [OF s(1,3,6) d] s(1-5)
  show "\<exists>s'. vsend (eclient_ops cr g env) d s = Inr (True, s') \<and> altered_client_conn cr key iv pre s' ins (outs @ [d])"
    by (fastforce simp: altered_client_conn_def eclient_ops_def kern_link_def)
next
  fix s f ins outs and buf :: "byte list"
  assume "altered_client_conn cr key iv pre s (f # ins) outs" and buf: "length buf = length f" "length f < 2 ^ 64"
  then obtain bs where s: "crypto_ok cr" "tags_fit cr (f # ins)" "ec_key s = Some key" "ec_iv s = iv"
      "opens_to cr key iv bs (f # ins)"
      "kern_conn (cs_kern (ec_base s)) (arriving bs) (pre @ sealed_all cr key iv outs)"
    by (auto simp: altered_client_conn_def)
  from s(5) obtain ct tag bs' where b: "bs = (ct, tag) # bs'" "snd (unseal cr key iv CIP_HEADER ct tag) = f"
      "length ct = length f" "length tag = MAC_LEN" "opens_to cr key iv bs' ins" by (rule opens_to_Cons)
  have "kern_conn (cs_kern (ec_base s)) (ct @ tag @ arriving bs') (pre @ sealed_all cr key iv outs)"
    using s(6) b(1) by simp
  from EncryptedClientSocket_recv_block [OF s(3) this, of buf cr g] s(1-4) b(2-5) buf
  show "\<exists>ok s'. vrecv (eclient_ops cr g env) buf s = Inr (ok, f, s') \<and> altered_client_conn cr key iv pre s' ins outs"
    by (auto simp: altered_client_conn_def eclient_ops_def tags_fit_def case_prod_beta)
qed

section \<open>Altering a sealed block\<close>

text \<open>
  As the library works, \<open>DecryptAndVerify\<close> writes the decrypted text before it compares the tag, and
  decryption adds the key stream again.
\<close>

definition opens_unverified :: "crypto \<Rightarrow> (byte list \<Rightarrow> byte list \<Rightarrow> nat \<Rightarrow> byte) \<Rightarrow> bool" where
  "opens_unverified cr ks \<longleftrightarrow>
     (\<forall>k iv h ct tag. snd (unseal cr k iv h ct tag) = map (\<lambda>j. ct ! j XOR ks k iv j) [0..<length ct])"

text \<open>
  Somebody on the wire knows, or guesses, that a sealed block is \<open>original\<close>, wants \<open>planted\<close>, and
  replaces the ciphertext by its exclusive or with the difference, and the tag by anything.
\<close>

record forgery =
  original :: "byte list"
  planted :: "byte list"
  forged_tag :: "byte list"

definition forgeable :: "forgery list \<Rightarrow> bool" where
  "forgeable fs \<longleftrightarrow> (\<forall>f \<in> set fs. length (planted f) = length (original f) \<and> length (forged_tag f) = MAC_LEN)"

definition forge :: "crypto \<Rightarrow> byte list \<Rightarrow> byte list \<Rightarrow> forgery \<Rightarrow> byte list \<times> byte list" where
  "forge cr key iv f =
     (map2 (XOR) (fst (seal cr key iv CIP_HEADER (original f))) (map2 (XOR) (original f) (planted f)), forged_tag f)"

lemma opened_forge:
  assumes "crypto_ok cr" "stream_cipher cr ks" "opens_unverified cr ks" "length (planted f) = length (original f)"
  shows "opened cr key iv (forge cr key iv f) = planted f"
    and "length (fst (forge cr key iv f)) = length (planted f)"
proof -
  show len: "length (fst (forge cr key iv f)) = length (planted f)"
    using assms(4) crypto_okD [OF assms(1)] by (simp add: forge_def)
  have x: "((a XOR k) XOR (a XOR b)) XOR k = b" for a b k :: byte
    by (simp add: xor.assoc xor.left_commute [of a] xor.commute [of k])
  show "opened cr key iv (forge cr key iv f) = planted f"
  proof (rule nth_equalityI)
    show "length (opened cr key iv (forge cr key iv f)) = length (planted f)"
      using assms(3) len by (simp add: opened_def opens_unverified_def case_prod_beta)
    fix j assume "j < length (opened cr key iv (forge cr key iv f))"
    then have j: "j < length (planted f)"
      using assms(3) len by (simp add: opened_def opens_unverified_def case_prod_beta)
    have "opened cr key iv (forge cr key iv f) ! j = fst (forge cr key iv f) ! j XOR ks key iv j"
      using assms(3) len j by (simp add: opened_def opens_unverified_def case_prod_beta)
    also have "fst (forge cr key iv f) ! j = (original f ! j XOR ks key iv j) XOR (original f ! j XOR planted f ! j)"
      using j assms(4) by (simp add: forge_def stream_cipherD [OF assms(2)])
    also have "\<dots> XOR ks key iv j = planted f ! j" by (rule x)
    finally show "opened cr key iv (forge cr key iv f) ! j = planted f ! j" .
  qed
qed

lemma opens_to_forged:
  assumes "crypto_ok cr" "stream_cipher cr ks" "opens_unverified cr ks" "forgeable fs"
  shows "opens_to cr key iv (map (forge cr key iv) fs) (map planted fs)"
  using assms(4) opened_forge [OF assms(1-3)]
  by (auto simp: opens_to_def list_all2_conv_all_nth forgeable_def case_prod_beta)
    (simp add: forge_def)

section \<open>Properties\<close>

text \<open>
  C33. Nothing that arrives at the server is authenticated after the handshake.  Whoever can alter the
  bytes on the wire, and knows what the client sends, can turn its session into any other one of the
  same block lengths: he adds the difference to each ciphertext and puts any bytes in the place of the
  tags.  The handler serves the planted requests just as if the client had made them, for the
  host and port that were planted, and returns normally.
\<close>

theorem tampered_session_obeyed:
  assumes "crypto_ok cr" "stream_cipher cr ks" "opens_unverified cr ks"
    and "forgeable fs" "tags_fit cr (map planted fs)" "map planted fs = session_blocks h p rs @ [wire32 4]"
    and "kern_conn (ss_kern (es_base s)) (arriving (map (forge cr (es_key s) (es_iv s)) fs)) pre"
    and "nul \<notin> set h" "length h + 1 < 2 ^ 31" "list_all proper rs"
    and "all_sendable g h p rs (snd (add_client h p (sv_index st)))"
  shows "\<exists>st' s'. server_client_handler (eserver_ops cr g) g st s =
      Inr (True, st', EncryptedServerSocket_close s') \<and>
    sv_index st' = snd (remove_client h p (snd (answers g h p rs (snd (add_client h p (sv_index st)))))) \<and>
    sv_log st' = sv_log st @ session_log h p rs \<and>
    sent (ss_kern (es_base s')) = pre @ sealed_all cr (es_key s) (es_iv s)
      (wire32 PROTOCOL_VERSION # fst (answers g h p rs (snd (add_client h p (sv_index st)))))"
proof -
  have "altered_server_conn cr (es_key s) (es_iv s) pre s (session_blocks h p rs @ wire32 4 # []) []"
    using assms(1,5-7) opens_to_forged [OF assms(1-4), of "es_key s" "es_iv s"]
    by (auto simp: altered_server_conn_def)
  from altered_server.handler_session [OF this assms(8-11), of g] show ?thesis
    by (fastforce simp: eserver_ops_def altered_server_conn_def kern_link_def)
qed

text \<open>A session that only lists the index, in whose place one that adds an RFC is planted.\<close>

definition demo_forgeries :: "byte list list \<Rightarrow> byte list list \<Rightarrow> forgery list" where
  "demo_forgeries ds es = map (\<lambda>(d, e). \<lparr>original = d, planted = e, forged_tag = replicate 16 0\<rparr>) (zip ds es)"

lemma planted_demo: "length ds = length es \<Longrightarrow> map planted (demo_forgeries ds es) = es"
  by (simp add: demo_forgeries_def comp_def case_prod_beta)

lemma forgeable_demo: "list_all2 (\<lambda>d e. length d = length e) ds es \<Longrightarrow> forgeable (demo_forgeries ds es)"
  by (auto simp: demo_forgeries_def forgeable_def MAC_LEN_def list_all2_iff)

lemma opens_unverified_demo: "opens_unverified demo_crypto (\<lambda>k iv j. hd k + hd iv)"
  by (auto simp: opens_unverified_def demo_crypto_def demo_unseal_def Let_def intro!: nth_equalityI)

lemma tags_fit_demo: "tags_fit demo_crypto ds"
  by (simp add: tags_fit_def demo_crypto_def MAC_LEN_def le_max_iff_disj)

theorem tampered_session_obeyed_witness:
  "\<exists>st' s'. server_client_handler (eserver_ops demo_crypto (\<lambda>_. 9)) (\<lambda>_. 9) demo_state
       (demo_server (arriving (map (forge demo_crypto (replicate 32 7) (replicate 12 5))
          (demo_forgeries (session_blocks ''a'' 1 [Ask_add 7] @ [wire32 4])
             (session_blocks ''b'' 2 [Ask_add 791] @ [wire32 4]))))) = Inr (True, st', s') \<and>
     sv_log st' = session_log ''b'' 2 [Ask_add 791]"
proof -
  let ?ds = "session_blocks ''a'' 1 [Ask_add 7] @ [wire32 4]"
  let ?es = "session_blocks ''b'' 2 [Ask_add 791] @ [wire32 4]"
  let ?s = "demo_server (arriving (map (forge demo_crypto (replicate 32 7) (replicate 12 5)) (demo_forgeries ?ds ?es)))"
  have len: "list_all2 (\<lambda>d e. length d = length e) ?ds ?es"
    by (simp add: session_blocks_def identity_blocks_def wire32_def wire16_def)
  have pl: "map planted (demo_forgeries ?ds ?es) = ?es"
    by (rule planted_demo) (simp add: session_blocks_def identity_blocks_def wire32_def wire16_def)
  have k: "kern_conn (ss_kern (es_base ?s)) (arriving (map (forge demo_crypto (es_key ?s) (es_iv ?s)) (demo_forgeries ?ds ?es))) []"
    by (simp add: kern_conn_kern_with)
  have h: "nul \<notin> set ''b''" "length ''b'' + 1 < 2 ^ 31" "list_all proper [Ask_add 791]"
    "all_sendable (\<lambda>_. 9) ''b'' 2 [Ask_add 791] (snd (add_client ''b'' 2 (sv_index demo_state)))"
    by (simp_all add: demo_session_simps)
  from tampered_session_obeyed [OF crypto_ok_demo stream_cipher_demo opens_unverified_demo forgeable_demo [OF len]
      tags_fit_demo pl k h]
  obtain st' s' where "server_client_handler (eserver_ops demo_crypto (\<lambda>_. 9)) (\<lambda>_. 9) demo_state ?s =
      Inr (True, st', EncryptedServerSocket_close s')" "sv_log st' = sv_log demo_state @ session_log ''b'' 2 [Ask_add 791]"
    by blast
  then show ?thesis by (auto simp: demo_state_def)
qed

text \<open>
  C34. Nor is what a client downloads.  If the text a peer sends is known on the wire, which it is for
  an RFC, another text of the same length can be planted; the client stores it under the number
  it has asked for, and \<open>get_content\<close> gives it to everybody who asks this client later.
\<close>

theorem tampered_download_stored:
  assumes "crypto_ok cr" "stream_cipher cr ks" "opens_unverified cr ks" "forgeable fs" "tags_fit cr (map planted fs)"
    and "map original fs = [wire32 (ulen v), v]" "v = get_wire g' (Some genuine)"
    and "map planted fs = [wire32 (ulen w), w]" "w = get_wire g' (Some body)"
    and "ec_key sc = Some key"
    and "kern_conn (cs_kern (ec_base sc)) (arriving (map (forge cr key (ec_iv sc)) fs)) pre"
    and "dial (host c) (ucast (port c)) = Inr sc"
    and "0 < sint n" "sint n < 2 ^ 15" "length h + 1 < 2 ^ 31"
    and "body \<noteq> []" "length body + 9 < 2 ^ 31" "nul \<notin> set body" "eof_char \<notin> set body"
    and "fs_node (pr_fs cst) = Directory es" "fs_readable (pr_fs cst)" "fs_writable (pr_fs cst)"
    and "0 < fs_fds (pr_fs cst)" "map_of es (rfc_filename n) \<noteq> Some SubDir"
  shows "\<exists>cst' sc'. get_from_peer (eclient_ops cr g env) dial g h p n c cst =
      Inr (True, cst', EncryptedClientSocket_disconnect env sc') \<and>
    fst (get_content n (pr_fs cst')) = Inr body \<and>
    sent (cs_kern (ec_base sc')) = pre @ sealed_all cr key (ec_iv sc)
      (identity_blocks h p @ [wire32 1, wire16 (ucast n), wire32 2])"
proof -
  have conn: "altered_client_conn cr key (ec_iv sc) pre sc [wire32 (ulen w), w] []"
    using assms(1,5,8,10,11) opens_to_forged [OF assms(1-4), of key "ec_iv sc"]
    by (auto simp: altered_client_conn_def)
  have n: "0 < sint (ucast n :: u16)" using scast_ucast_short [of n] assms(13,14) by simp
  have ok: "servable_text (Some body)" using assms(16,17) by (simp add: servable_text_def)
  from altered_client.get_from_peer_found [where dial = dial and c = c and n = n,
      OF conn assms(15,12) n assms(9) ok assms(18), of g env g p cst]
  obtain cst' sc' where cl: "get_from_peer (eclient_ops cr g env) dial g h p n c cst =
        Inr (True, cst', EncryptedClientSocket_disconnect env sc')"
      "pr_fs cst' = snd (rm_add_rfc n body (pr_fs cst))"
      "altered_client_conn cr key (ec_iv sc) pre sc' [] (identity_blocks h p @ [wire32 1, wire16 (ucast n), wire32 2])"
    by (auto simp: eclient_ops_def)
  moreover have "fst (get_content n (pr_fs cst')) = Inr body"
    using get_content_after_add [OF assms(20-24,18,19)] cl(2) by simp
  ultimately show ?thesis by (auto simp: altered_client_conn_def kern_link_def)
qed

definition demo_end_bytes :: "byte list \<Rightarrow> EncryptedClientSocket" where
  "demo_end_bytes bs =
     \<lparr>ec_base = (ClientSocket_new ''127.0.0.1'' 8080)\<lparr>cs_kern := kern_with bs\<rparr>,
      ec_iv = replicate 12 5, ec_key = Some (replicate 32 7)\<rparr>"

theorem tampered_download_stored_witness:
  "\<exists>cst' sc'. get_from_peer (eclient_ops demo_crypto (\<lambda>_. 0) (demo_env no_kern))
      (\<lambda>_ _. Inr (demo_end_bytes (arriving (map (forge demo_crypto (replicate 32 7) (replicate 12 5))
         (demo_forgeries [wire32 (ulen (get_wire (\<lambda>_. 9) (Some ''good''))), get_wire (\<lambda>_. 9) (Some ''good'')]
            [wire32 (ulen (get_wire (\<lambda>_. 9) (Some ''evil''))), get_wire (\<lambda>_. 9) (Some ''evil'')])))))
      (\<lambda>_. 0) ''a'' 1 791 \<lparr>host = ''b'', port = 2\<rparr> (demo_files []) = Inr (True, cst', sc') \<and>
    fst (get_content 791 (pr_fs cst')) = Inr ''evil''"
proof -
  let ?good = "get_wire (\<lambda>_. 9) (Some ''good'')" and ?evil = "get_wire (\<lambda>_. 9) (Some ''evil'')"
  let ?ds = "[wire32 (ulen ?good), ?good]" and ?es = "[wire32 (ulen ?evil), ?evil]"
  let ?fs = "demo_forgeries ?ds ?es"
  let ?s = "demo_end_bytes (arriving (map (forge demo_crypto (replicate 32 7) (replicate 12 5)) ?fs))"
  have "length ?good = length ?evil" by (simp add: get_wire_def)
  then have len: "list_all2 (\<lambda>d e. length d = length e) ?ds ?es" by simp
  have og: "map original ?fs = ?ds" and pl: "map planted ?fs = ?es" by (simp_all add: demo_forgeries_def)
  have key: "ec_key ?s = Some (replicate 32 7)" by (simp add: demo_end_bytes_def)
  have k: "kern_conn (cs_kern (ec_base ?s)) (arriving (map (forge demo_crypto (replicate 32 7) (ec_iv ?s)) ?fs)) []"
    by (simp add: demo_end_bytes_def kern_conn_kern_with)
  have n: "0 < sint (791 :: u32)" "sint (791 :: u32) < 2 ^ 15" "length ''a'' + 1 < 2 ^ 31" by simp_all
  have b: "''evil'' \<noteq> []" "length ''evil'' + 9 < 2 ^ 31" "nul \<notin> set ''evil''" "eof_char \<notin> set ''evil''"
    by (simp_all add: nul_def eof_char_def)
  have d: "fs_node (pr_fs (demo_files [])) = Directory []" "fs_readable (pr_fs (demo_files []))"
      "fs_writable (pr_fs (demo_files []))" "0 < fs_fds (pr_fs (demo_files []))"
      "map_of [] (rfc_filename 791) \<noteq> Some SubDir"
    by (simp_all add: demo_files_def)
  from tampered_download_stored [where dial = "\<lambda>_ _. Inr ?s" and c = "\<lparr>host = ''b'', port = 2\<rparr>" and g = "\<lambda>_. 0"
      and env = "demo_env no_kern" and p = 1,
      OF crypto_ok_demo stream_cipher_demo opens_unverified_demo forgeable_demo [OF len] tags_fit_demo og refl pl refl
        key k refl n b d]
  show ?thesis by blast
qed

end
