(* ===== verification/Shared_Directory.thy ===== *)
theory Shared_Directory
  imports System_Sessions
begin

text \<open>
  The two threads of a client that use its directory (\<open>src/client.cpp\<close>, \<open>src/rfc_manager.cpp\<close>): the
  main thread stores what it downloads, the handlers serve other clients from the same files.  No
  lock and no temporary file keeps them apart.  Here \<open>RFCManager::add_rfc\<close> is taken apart into the calls it
  makes of the C library: \<open>fopen\<close> makes the file or empties it, \<open>fprintf\<close> hands the text to a buffer,
  which reaches the file piece by piece, the last piece in \<open>fclose\<close>.  A \<open>get_content\<close> is one step, which
  favours the program.
\<close>

section \<open>The calls of \<open>add_rfc\<close>\<close>

definition rm_fopen :: "u32 \<Rightarrow> filesys \<Rightarrow> bool \<times> filesys" where
  "rm_fopen number fs =
     (let filename = rfc_filename number
      in case fs_node fs of
          Directory es \<Rightarrow>
            if fs_writable fs \<and> 0 < fs_fds fs \<and> map_of es filename \<noteq> Some SubDir
            then (True, fs\<lparr>fs_node := Directory (file_write filename [] es), fs_fds := fs_fds fs - 1\<rparr>)
            else (False, fs)
        | _ \<Rightarrow> (False, fs))"

text \<open>The first \<open>k\<close> characters of the text are in the file.\<close>

definition rm_flushed :: "u32 \<Rightarrow> string \<Rightarrow> nat \<Rightarrow> filesys \<Rightarrow> filesys" where
  "rm_flushed number content k fs =
     (case fs_node fs of
        Directory es \<Rightarrow> fs\<lparr>fs_node := Directory (file_write (rfc_filename number) (take k (c_string content)) es)\<rparr>
      | _ \<Rightarrow> fs)"

definition rm_fclose :: "u32 \<Rightarrow> string \<Rightarrow> filesys \<Rightarrow> filesys" where
  "rm_fclose number content fs =
     (let fs = rm_flushed number content (length (c_string content)) fs in fs\<lparr>fs_fds := fs_fds fs + 1\<rparr>)"

lemma file_write_twice: "file_write n b (file_write n a es) = file_write n b es"
proof (cases "map_of es n")
  case None
  then have "map (\<lambda>(m, e). if m = n then (m, RegFile b) else (m, e)) es = es"
    by (intro map_idI) (auto simp: map_of_eq_None_iff rev_image_eqI)
  with None show ?thesis by (simp add: file_write_def map_of_append map_add_def)
next
  case (Some x)
  then have "map_of (file_write n a es) n \<noteq> None" by (simp add: map_of_file_write)
  with Some show ?thesis by (simp add: file_write_def comp_def case_prod_beta if_distrib cong: if_cong)
qed

lemma rm_add_rfc_calls:
  "rm_add_rfc n content fs =
     (let (ok, fs) = rm_fopen n fs in if ok then (True, rm_fclose n content fs) else (False, fs))"
  by (simp add: rm_add_rfc_def rm_fopen_def rm_fclose_def rm_flushed_def file_write_twice Let_def split: node.split)

section \<open>The threads\<close>

text \<open>
  \<open>ct_storing\<close>: the number and the text the main thread is storing, and how much of it has reached the
  file; \<open>ct_stored\<close>: the texts stored so far.  A user's number comes from \<open>\d+\<close>, so it is not negative.
\<close>

record client_threads =
  ct_dir :: filesys
  ct_storing :: "(u32 \<times> string \<times> nat) option"
  ct_stored :: "u32 \<Rightarrow> string option"

inductive dir_step :: "client_threads \<Rightarrow> client_threads \<Rightarrow> bool" where
  fopen: "ct_storing w = None \<Longrightarrow> 0 \<le> sint n \<Longrightarrow> rm_fopen n (ct_dir w) = (True, fs) \<Longrightarrow>
    dir_step w (w\<lparr>ct_dir := fs, ct_storing := Some (n, content, 0)\<rparr>)"
| flush: "ct_storing w = Some (n, content, k) \<Longrightarrow> k \<le> k' \<Longrightarrow>
    dir_step w (w\<lparr>ct_dir := rm_flushed n content k' (ct_dir w), ct_storing := Some (n, content, k')\<rparr>)"
| fclose: "ct_storing w = Some (n, content, k) \<Longrightarrow>
    dir_step w (w\<lparr>ct_dir := rm_fclose n content (ct_dir w), ct_storing := None,
                  ct_stored := (ct_stored w)(n := Some content)\<rparr>)"
| serve: "dir_step w (w\<lparr>ct_dir := snd (get_content n (ct_dir w))\<rparr>)"
| names: "ct_storing w = None \<Longrightarrow> dir_step w (w\<lparr>ct_dir := snd (get_rfcs (ct_dir w))\<rparr>)"

definition dir_started :: "filesys \<Rightarrow> client_threads" where
  "dir_started fs = \<lparr>ct_dir = fs, ct_storing = None, ct_stored = (\<lambda>_. None)\<rparr>"

definition dir_reachable :: "filesys \<Rightarrow> client_threads \<Rightarrow> bool" where
  "dir_reachable fs w \<longleftrightarrow> dir_step\<^sup>*\<^sup>* (dir_started fs) w"

lemma dir_reachable_start: "dir_reachable fs (dir_started fs)"
  by (simp add: dir_reachable_def)

lemma dir_reachable_step: "dir_reachable fs u \<Longrightarrow> dir_step u v \<Longrightarrow> dir_reachable fs v"
  unfolding dir_reachable_def by (rule rtranclp.rtrancl_into_rtrancl)

lemma dir_reachable_induct [consumes 1, case_names start step]:
  assumes "dir_reachable fs w" "P (dir_started fs)"
    and "\<And>u v. P u \<Longrightarrow> dir_step u v \<Longrightarrow> P v"
  shows "P w"
  using assms(1) unfolding dir_reachable_def
  by (induction rule: rtranclp_induct) (use assms(2,3) in blast)+

section \<open>What is in the files\<close>

definition settled :: "(string \<times> entry) list \<Rightarrow> client_threads \<Rightarrow> u32 \<Rightarrow> entry option" where
  "settled es w n =
     (case ct_stored w n of Some c \<Rightarrow> Some (RegFile (c_string c)) | None \<Rightarrow> map_of es (rfc_filename n))"

definition visible :: "(string \<times> entry) list \<Rightarrow> client_threads \<Rightarrow> u32 \<Rightarrow> entry option" where
  "visible es w n =
     (case ct_storing w of
        Some (m, c, k) \<Rightarrow> if m = n then Some (RegFile (take k (c_string c))) else settled es w n
      | None \<Rightarrow> settled es w n)"

definition dir_inv :: "(string \<times> entry) list \<Rightarrow> client_threads \<Rightarrow> bool" where
  "dir_inv es0 w \<longleftrightarrow>
     (\<exists>es. fs_node (ct_dir w) = Directory es \<and> (\<forall>n. 0 \<le> sint n \<longrightarrow> map_of es (rfc_filename n) = visible es0 w n)) \<and>
     (\<forall>n c k. ct_storing w = Some (n, c, k) \<longrightarrow> 0 \<le> sint n)"

lemma file_write_number:
  assumes "0 \<le> sint m" "0 \<le> sint n"
  shows "map_of (file_write (rfc_filename m) text es) (rfc_filename n) =
    (if m = n then Some (RegFile text) else map_of es (rfc_filename n))"
proof (cases "m = n")
  case True
  then show ?thesis by (simp add: map_of_file_write)
next
  case False
  then have "rfc_filename n \<noteq> rfc_filename m" using rfc_filename_inj [OF assms] by auto
  with False show ?thesis by (simp add: map_of_file_write)
qed

lemma get_content_node [simp]: "fs_node (snd (get_content n fs)) = fs_node fs"
  by (auto simp: get_content_def Let_def split: node.splits option.splits)

lemma get_rfcs_node [simp]: "fs_node (snd (get_rfcs fs)) = fs_node fs"
  by (auto simp: get_rfcs_def Let_def split: node.splits sum.splits)

lemma settled_dir [simp]: "settled es (w\<lparr>ct_dir := fs\<rparr>) n = settled es w n"
  by (simp add: settled_def)

lemma visible_dir [simp]: "visible es (w\<lparr>ct_dir := fs\<rparr>) n = visible es w n"
  by (simp add: visible_def split: option.split)

lemma dir_inv_step: "dir_step u v \<Longrightarrow> dir_inv es0 u \<Longrightarrow> dir_inv es0 v"
proof (induction rule: dir_step.induct)
  case (fopen w n fs content)
  then show ?case
    by (auto simp: dir_inv_def visible_def settled_def rm_fopen_def Let_def file_write_number
        split: node.splits if_splits)
next
  case (flush w n content k k')
  then show ?case
    by (fastforce simp: dir_inv_def visible_def settled_def rm_flushed_def file_write_number split: node.splits)
next
  case (fclose w n content k)
  then show ?case
    by (fastforce simp: dir_inv_def visible_def settled_def rm_flushed_def rm_fclose_def Let_def file_write_number
        split: node.splits)
next
  case (serve w n)
  then show ?case by (simp add: dir_inv_def)
next
  case (names w)
  then show ?case by (simp add: dir_inv_def)
qed

lemma reachable_dir_inv:
  assumes "dir_reachable fs w" "fs_node fs = Directory es"
  shows "dir_inv es w"
  using assms(1)
proof (induction rule: dir_reachable_induct)
  case start
  show ?case using assms(2) by (simp add: dir_inv_def dir_started_def visible_def settled_def)
next
  case (step u v)
  then show ?case by (blast intro: dir_inv_step)
qed


text \<open>The text \<open>get_content\<close> makes of a file.\<close>

definition text_of :: "entry \<Rightarrow> string" where
  "text_of e = (case e of RegFile text \<Rightarrow> takeWhile (\<lambda>c. c \<noteq> eof_char) text | SubDir \<Rightarrow> [])"

lemma get_content_visible:
  assumes "dir_inv es w" "0 \<le> sint n" "fst (get_content n (ct_dir w)) = Inr text"
  shows "\<exists>e. visible es w n = Some e \<and> text = text_of e"
  using assms
  by (auto simp: dir_inv_def get_content_def Let_def text_of_def split: option.splits if_splits)

text \<open>A text of which \<open>k\<close> characters have reached the file.\<close>

definition storing_world :: "filesys \<Rightarrow> u32 \<Rightarrow> string \<Rightarrow> nat \<Rightarrow> client_threads" where
  "storing_world fs n body k =
     \<lparr>ct_dir = rm_flushed n body k (snd (rm_fopen n fs)), ct_storing = Some (n, body, k), ct_stored = (\<lambda>_. None)\<rparr>"

lemma storing_world_reachable:
  assumes "0 \<le> sint n" "fst (rm_fopen n fs)"
  shows "dir_reachable fs (storing_world fs n body k)"
proof -
  let ?u = "(dir_started fs)\<lparr>ct_dir := snd (rm_fopen n fs), ct_storing := Some (n, body, 0)\<rparr>"
  have "dir_step (dir_started fs) ?u"
    using assms by (intro dir_step.fopen) (simp_all add: dir_started_def prod_eq_iff)
  then have "dir_reachable fs ?u" by (rule dir_reachable_step [OF dir_reachable_start])
  moreover have "dir_step ?u (storing_world fs n body k)"
    using dir_step.flush [of ?u n body 0 k] by (simp add: storing_world_def dir_started_def)
  ultimately show ?thesis by (rule dir_reachable_step)
qed

lemma storing_world_text:
  assumes "fs_node fs = Directory es" "fs_readable fs" "1 < fs_fds fs" "fst (rm_fopen n fs)"
    and "nul \<notin> set body" "eof_char \<notin> set body"
  shows "stored_text n (ct_dir (storing_world fs n body k)) = Some (take k body)"
proof -
  have "takeWhile (\<lambda>c. c \<noteq> eof_char) (take k body) = take k body"
    using assms(6) by (auto simp: takeWhile_eq_all_conv dest: in_set_takeD)
  then show ?thesis
    using assms
    by (simp add: stored_text_def storing_world_def rm_fopen_def rm_flushed_def get_content_def map_of_file_write
        c_string_id Let_def split: if_splits)
qed

section \<open>Properties\<close>

text \<open>
  C35. What the other clients are served while the main thread stores texts, however the calls of the
  threads interleave: a number that is not being stored is served from the text last stored under it, up
  to the first NUL and 0xFF, or from the file that was there when the client started; a number that is
  being stored is served from the part of its new text that has reached the file.
\<close>

theorem served_text_follows_store:
  assumes "dir_reachable fs w" "fs_node fs = Directory es" "0 \<le> sint n"
    and "fst (get_content n (ct_dir w)) = Inr text"
  shows "(\<forall>c k. ct_storing w = Some (n, c, k) \<longrightarrow> text = text_of (RegFile (take k (c_string c)))) \<and>
    ((\<forall>c k. ct_storing w \<noteq> Some (n, c, k)) \<longrightarrow>
       (case ct_stored w n of
          Some c \<Rightarrow> text = text_of (RegFile (c_string c))
        | None \<Rightarrow> \<exists>e. map_of es (rfc_filename n) = Some e \<and> text = text_of e))"
proof -
  obtain e where "visible es w n = Some e" "text = text_of e"
    using get_content_visible [OF reachable_dir_inv [OF assms(1,2)] assms(3,4)] by blast
  then show ?thesis by (auto simp: visible_def settled_def split: option.splits if_splits)
qed

lemma demo_fopen: "fst (rm_fopen 7 (pr_fs (demo_files [])))"
  by (simp add: rm_fopen_def demo_files_def)

theorem served_text_follows_store_witness:
  "dir_reachable (pr_fs (demo_files [])) (storing_world (pr_fs (demo_files [])) 7 ''text'' 2) \<and>
   fst (get_content 7 (ct_dir (storing_world (pr_fs (demo_files [])) 7 ''text'' 2))) = Inr (text_of (RegFile ''te''))"
proof -
  let ?fs = "pr_fs (demo_files [])" and ?w = "storing_world (pr_fs (demo_files [])) 7 ''text'' 2"
  have n: "0 \<le> sint (7 :: u32)" by simp
  note w = storing_world_reachable [OF n demo_fopen, of "''text''" 2]
  have node: "fs_node ?fs = Directory []" by (simp add: demo_files_def)
  have "stored_text 7 (ct_dir ?w) = Some (take 2 ''text'')"
    by (rule storing_world_text [OF node _ _ demo_fopen]) (simp_all add: demo_files_def nul_def eof_char_def)
  then obtain t where t: "fst (get_content 7 (ct_dir ?w)) = Inr t" by (auto simp: stored_text_def split: sum.splits)
  from served_text_follows_store [OF w node n t] have "t = text_of (RegFile (take 2 (c_string ''text'')))"
    by (simp add: storing_world_def)
  then show ?thesis using w t by (simp add: c_string_id nul_def)
qed

text \<open>
  C36. A download can be served before it is complete.  While a client stores the text of a number, another
  client that asks for this number gets, with code 200, whatever part of it has reached the file, and will
  store and offer this part as the RFC; and before the first part has reached the file the request ends the
  serving client.
\<close>

theorem half_stored_text_served:
  assumes "fs_node fs = Directory es" "fs_readable fs" "1 < fs_fds fs" "fst (rm_fopen n fs)"
    and "nul \<notin> set body" "eof_char \<notin> set body" "length body + 9 < 2 ^ 31" "0 < sint n" "sint n < 2 ^ 15"
    and "eserver_conn cr key iv pre s (identity_blocks h p @ [wire32 1, wire16 (ucast n), wire32 2]) []"
    and "nul \<notin> set h" "length h + 1 < 2 ^ 31" "v = get_wire g (Some (take k body))"
  shows "\<exists>w. dir_reachable fs w \<and> ct_storing w = Some (n, body, k) \<and>
    (if take k body = [] then peer_handler (eserver_ops cr g) g (st\<lparr>pr_fs := ct_dir w\<rparr>) s = Inl Undefined_Behaviour
     else \<exists>st' s'. peer_handler (eserver_ops cr g) g (st\<lparr>pr_fs := ct_dir w\<rparr>) s = Inr (True, st', s') \<and>
       eserver_conn cr key iv pre s' [] [wire32 (ulen v), v])"
proof -
  let ?w = "storing_world fs n body k"
  have n: "(scast (ucast n :: u16) :: u32) = n" using scast_ucast_short [of n] assms(8,9) by simp
  have got: "stored_text (scast (ucast n :: u16)) (ct_dir ?w) = Some (take k body)"
    unfolding n by (rule storing_world_text [OF assms(1-6)])
  have w: "dir_reachable fs ?w" "ct_storing ?w = Some (n, body, k)"
    using storing_world_reachable [OF _ assms(4)] assms(8) by (simp_all add: storing_world_def)
  show ?thesis
  proof (cases "take k body = []")
    case True
    have "peer_handler (eserver_ops cr g) g (st\<lparr>pr_fs := ct_dir ?w\<rparr>) s = Inl Undefined_Behaviour"
      using eserver_sock.peer_handler_empty_file [where ins = "[wire32 2]" and k = "ucast n", OF _ assms(11,12),
          where st = "st\<lparr>pr_fs := ct_dir ?w\<rparr>"] assms(10) got True by simp
    with w True show ?thesis by (intro exI [of _ ?w]) simp
  next
    case False
    have ok: "servable_text (Some (take k body))" using False assms(7) by (simp add: servable_text_def)
    have "eserver_conn cr key iv pre s (identity_blocks h p @ [wire32 1, wire16 (ucast n), wire32 2] @ []) []"
      using assms(10) by simp
    from eserver_sock.peer_handler_download [OF this assms(11,12), of "st\<lparr>pr_fs := ct_dir ?w\<rparr>" g g]
      got ok assms(13)
    have "\<exists>st' s'. peer_handler (eserver_ops cr g) g (st\<lparr>pr_fs := ct_dir ?w\<rparr>) s = Inr (True, st', s') \<and>
        eserver_conn cr key iv pre s' [] [wire32 (ulen v), v]" by auto
    with w False show ?thesis by (intro exI [of _ ?w]) simp
  qed
qed


theorem half_stored_text_served_witness:
  "\<exists>w st' s'. dir_reachable (pr_fs (demo_files [])) w \<and>
    peer_handler (eserver_ops demo_crypto (\<lambda>_. 9)) (\<lambda>_. 9) ((demo_files [])\<lparr>pr_fs := ct_dir w\<rparr>)
      (demo_peer (identity_blocks ''b'' 2 @ [wire32 1, wire16 (ucast (7 :: u32)), wire32 2])) = Inr (True, st', s') \<and>
    eserver_conn demo_crypto (replicate 32 7) (replicate 12 5) [] s' []
      [wire32 (ulen (get_wire (\<lambda>_. 9) (Some (take 2 ''text'')))), get_wire (\<lambda>_. 9) (Some (take 2 ''text''))]"
proof -
  have f: "fs_node (pr_fs (demo_files [])) = Directory []" "fs_readable (pr_fs (demo_files []))"
      "1 < fs_fds (pr_fs (demo_files []))"
    by (simp_all add: demo_files_def)
  have b: "nul \<notin> set ''text''" "eof_char \<notin> set ''text''" "length ''text'' + 9 < 2 ^ 31"
      "0 < sint (7 :: u32)" "sint (7 :: u32) < 2 ^ 15"
    by (simp_all add: nul_def eof_char_def)
  have h: "nul \<notin> set ''b''" "length ''b'' + 1 < 2 ^ 31" by (simp_all add: nul_def)
  have "take 2 ''text'' \<noteq> []" by simp
  with half_stored_text_served [OF f demo_fopen b demo_peer_conn h refl, where g = "\<lambda>_. 9" and k = 2 and st = "demo_files []"]
  show ?thesis by meson
qed

end
