(* ===== verification/Listener_Threads.thy ===== *)
theory Listener_Threads
  imports Listener
begin

text \<open>
  The threads of a listener (\<open>src/encrypted_server_socket_listener.cpp\<close>; the plain listener is the
  same): the listening thread starts a handler for each connection and appends its keeper to
  \<open>client_threads\<close>; the cleanup thread walks over this vector again and again and erases the keepers
  whose handlers have set their flag; the handlers run beside them.  No mutex is held anywhere.

  A step is one access to the vector, the start of a handler, the setting of its flag, or its return.  Two
  accesses of different threads are thus never at the same time, which favours the program; even so, an
  iterator of the cleanup thread can be left behind by an append, and its next use is undefined.  The
  model says nothing about what comes after that: \<open>broken\<close> is set and no further step is taken.
\<close>

section \<open>The shared state\<close>

text \<open>
  Handlers are known by numbers.  \<open>starting\<close> is a handler that runs already but whose keeper is not
  yet in the vector; \<open>flagged\<close> are those whose \<open>*is_finished\<close> is true, \<open>live\<close> those that have not
  returned, \<open>released\<close> those whose socket the cleanup thread has deleted; \<open>cursor\<close> is the iterator of a
  pass, as an index, and \<open>None\<close> while the cleanup thread sleeps; \<open>joining\<close> is the handler whose flag it
  has found set and for whose thread it waits in \<open>join\<close>.
\<close>

record listener_world =
  keepers :: "nat list"
  capacity :: nat
  starting :: "nat option"
  born :: "nat set"
  live :: "nat set"
  flagged :: "nat set"
  released :: "nat set"
  cursor :: "nat option"
  cursor_valid :: bool
  joining :: "nat option"
  broken :: bool  \<comment> \<open>an invalid iterator has been used\<close>

definition listener_started :: listener_world where
  "listener_started =
     \<lparr>keepers = [], capacity = 0, starting = None, born = {}, live = {}, flagged = {}, released = {},
      cursor = None, cursor_valid = False, joining = None, broken = False\<rparr>"

text \<open>
  \<open>push_back\<close>: if the vector is full it is moved to a larger block, and all iterators are invalid;
  otherwise the one past the end is.
\<close>

definition push_keeper :: "nat \<Rightarrow> nat \<Rightarrow> listener_world \<Rightarrow> listener_world" where
  "push_keeper grown i w =
     (let w' = w\<lparr>keepers := keepers w @ [i], starting := None\<rparr>
      in if length (keepers w) < capacity w
         then w'\<lparr>cursor_valid := cursor_valid w \<and> cursor w \<noteq> Some (length (keepers w))\<rparr>
         else w'\<lparr>capacity := grown, cursor_valid := False\<rparr>)"

definition erase_at :: "nat \<Rightarrow> 'a list \<Rightarrow> 'a list" where
  "erase_at k xs = take k xs @ drop (Suc k) xs"

text \<open>
  The cleanup thread: the start of a pass, one round of \<open>for (it = begin(); it != end(); )\<close>, or the end of
  the pass.  A round that finds the flag set goes on to \<open>it->thread->join()\<close> and stays there until the
  handler has returned; then the socket is deleted and the keeper erased, all of it through \<open>it\<close>.
\<close>

definition cleanup_step :: "listener_world \<Rightarrow> listener_world" where
  "cleanup_step w =
     (case cursor w of
        None \<Rightarrow> w\<lparr>cursor := Some 0, cursor_valid := True\<rparr>
      | Some k \<Rightarrow>
          (case joining w of
             None \<Rightarrow>
               if \<not> cursor_valid w then w\<lparr>broken := True\<rparr>
               else if k = length (keepers w) then w\<lparr>cursor := None\<rparr>
               else if keepers w ! k \<in> flagged w then w\<lparr>joining := Some (keepers w ! k)\<rparr>
               else w\<lparr>cursor := Some (k + 1)\<rparr>
           | Some i \<Rightarrow>
               if i \<in> live w then w
               else if \<not> cursor_valid w then w\<lparr>broken := True\<rparr>
               else w\<lparr>keepers := erase_at k (keepers w), released := insert (keepers w ! k) (released w), joining := None\<rparr>))"

text \<open>The last two statements of a handler: it sets its flag, and it returns.  Some return without the flag.\<close>

inductive listener_step :: "listener_world \<Rightarrow> listener_world \<Rightarrow> bool" where
  accept: "\<not> broken w \<Longrightarrow> starting w = None \<Longrightarrow> i \<notin> born w \<Longrightarrow>
    listener_step w (w\<lparr>starting := Some i, born := insert i (born w), live := insert i (live w)\<rparr>)"
| keep: "\<not> broken w \<Longrightarrow> starting w = Some i \<Longrightarrow> length (keepers w) < grown \<Longrightarrow>
    listener_step w (push_keeper grown i w)"
| flag: "\<not> broken w \<Longrightarrow> i \<in> live w \<Longrightarrow> listener_step w (w\<lparr>flagged := insert i (flagged w)\<rparr>)"
| return: "\<not> broken w \<Longrightarrow> i \<in> live w \<Longrightarrow> listener_step w (w\<lparr>live := live w - {i}\<rparr>)"
| cleanup: "\<not> broken w \<Longrightarrow> listener_step w (cleanup_step w)"

inductive_cases listener_stepE: "listener_step w w'"

definition listener_reachable :: "listener_world \<Rightarrow> bool" where
  "listener_reachable w \<longleftrightarrow> listener_step\<^sup>*\<^sup>* listener_started w"

lemma listener_reachable_induct [consumes 1, case_names start step]:
  assumes "listener_reachable w" "P listener_started"
    and "\<And>u v. listener_reachable u \<Longrightarrow> P u \<Longrightarrow> listener_step u v \<Longrightarrow> P v"
  shows "P w"
  using assms(1) unfolding listener_reachable_def
proof (induction rule: rtranclp_induct)
  case base
  show ?case by (rule assms(2))
next
  case (step y z)
  then show ?case using assms(3) [of y z] by (simp add: listener_reachable_def)
qed

section \<open>What every interleaving keeps\<close>

lemma set_erase_at: "distinct xs \<Longrightarrow> k < length xs \<Longrightarrow> set (erase_at k xs) = set xs - {xs ! k}"
proof -
  assume d: "distinct xs" and k: "k < length xs"
  have "xs = take k xs @ xs ! k # drop (Suc k) xs" using k by (simp add: id_take_nth_drop)
  then have "set xs = set (erase_at k xs) \<union> {xs ! k}" "xs ! k \<notin> set (erase_at k xs)"
    using d unfolding erase_at_def
    by (metis Un_insert_right list.simps(15) set_append sup_bot_right, metis Un_iff distinct.simps(2) distinct_append
        disjoint_iff list.set_intros(1) set_append)
  then show ?thesis by auto
qed

lemma distinct_erase_at: "distinct xs \<Longrightarrow> distinct (erase_at k xs)"
proof -
  assume "distinct xs"
  moreover have "set (take k xs) \<inter> set (drop (Suc k) xs) \<subseteq> set (take k xs) \<inter> set (drop k xs)"
    using set_drop_subset_set_drop [of k "Suc k" xs] by auto
  ultimately show ?thesis
    using set_take_disj_set_drop_if_distinct [of xs k k] by (auto simp: erase_at_def)
qed

lemma length_erase_at: "k < length xs \<Longrightarrow> length (erase_at k xs) = length xs - 1"
  by (simp add: erase_at_def)

text \<open>Where the keeper of a handler is.\<close>

definition keepers_inv :: "listener_world \<Rightarrow> bool" where
  "keepers_inv w \<longleftrightarrow>
     distinct (keepers w) \<and> born w = set (keepers w) \<union> released w \<union> set_option (starting w) \<and>
     set (keepers w) \<inter> released w = {} \<and> set_option (starting w) \<inter> (set (keepers w) \<union> released w) = {} \<and>
     released w \<subseteq> flagged w \<and> released w \<inter> live w = {} \<and> live w \<union> flagged w \<subseteq> born w \<and>
     (\<forall>k. cursor w = Some k \<longrightarrow> cursor_valid w \<longrightarrow> k \<le> length (keepers w)) \<and>
     (\<forall>i. joining w = Some i \<longrightarrow> i \<in> flagged w \<and>
       (\<exists>k. cursor w = Some k \<and> (cursor_valid w \<longrightarrow> k < length (keepers w) \<and> keepers w ! k = i))) \<and>
     (broken w \<longrightarrow> cursor w \<noteq> None \<and> \<not> cursor_valid w)"

text \<open>The two ways a step of the cleanup thread can change the keepers or the iterator.\<close>

lemma cleanup_step_cases:
  obtains "cursor w = None" "cleanup_step w = w\<lparr>cursor := Some 0, cursor_valid := True\<rparr>"
  | k where "cursor w = Some k" "cleanup_step w = w \<and> joining w \<noteq> None \<or> cleanup_step w = w\<lparr>broken := True\<rparr> \<and> \<not> cursor_valid w"
  | "cursor w = Some (length (keepers w))" "cursor_valid w" "joining w = None" "cleanup_step w = w\<lparr>cursor := None\<rparr>"
  | k where "cursor w = Some k" "cursor_valid w" "joining w = None" "k \<noteq> length (keepers w)" "keepers w ! k \<in> flagged w"
      "cleanup_step w = w\<lparr>joining := Some (keepers w ! k)\<rparr>"
  | k where "cursor w = Some k" "cursor_valid w" "joining w = None" "k \<noteq> length (keepers w)" "keepers w ! k \<notin> flagged w"
      "cleanup_step w = w\<lparr>cursor := Some (k + 1)\<rparr>"
  | k i where "cursor w = Some k" "cursor_valid w" "joining w = Some i" "i \<notin> live w"
      "cleanup_step w = w\<lparr>keepers := erase_at k (keepers w), released := insert (keepers w ! k) (released w), joining := None\<rparr>"
proof (cases "cursor w")
  case None
  then show ?thesis using that(1) by (simp add: cleanup_step_def)
next
  case (Some k)
  note eq = cleanup_step_def [of w, unfolded Some option.case]
  show ?thesis
  proof (cases "joining w")
    case None
    note eq = eq [unfolded None option.case]
    show ?thesis
      using that(2) [OF Some] that(3) [OF _ _ None] that(4,5) [OF Some _ None] eq Some by (metis (full_types))
  next
    case (Some i)
    note eq = eq [unfolded Some option.case]
    show ?thesis
      using that(2) [OF \<open>cursor w = Some k\<close>] that(6) [OF \<open>cursor w = Some k\<close> _ Some] eq Some by (metis (full_types) option.distinct(1))
  qed
qed

lemma keepers_inv_cleanup:
  assumes "keepers_inv w"
  shows "keepers_inv (cleanup_step w)"
proof (cases rule: cleanup_step_cases [of w])
  case (6 k i)
  then have k: "k < length (keepers w)" "keepers w ! k = i" "i \<in> flagged w" using assms by (auto simp: keepers_inv_def)
  have d: "distinct (keepers w)" using assms by (simp add: keepers_inv_def)
  have "i \<in> set (keepers w)" using k by auto
  then show ?thesis
    using assms 6 k set_erase_at [OF d k(1)] distinct_erase_at [OF d, of k] length_erase_at [OF k(1)]
    by (auto simp: keepers_inv_def)
qed (use assms in \<open>auto simp: keepers_inv_def\<close>)

lemma keepers_inv_step: "listener_step w w' \<Longrightarrow> keepers_inv w \<Longrightarrow> keepers_inv w'"
proof (induction rule: listener_step.induct)
  case (accept w i)
  then show ?case by (auto simp: keepers_inv_def)
next
  case (keep w i grown)
  then show ?case by (auto simp: keepers_inv_def push_keeper_def Let_def nth_append)
next
  case (flag w i)
  then show ?case by (auto simp: keepers_inv_def)
next
  case (return w i)
  then show ?case by (auto simp: keepers_inv_def)
next
  case (cleanup w)
  then show ?case by (simp add: keepers_inv_cleanup)
qed

lemma reachable_keepers_inv: "listener_reachable w \<Longrightarrow> keepers_inv w"
proof (induction rule: listener_reachable_induct)
  case start
  show ?case by (simp add: keepers_inv_def listener_started_def)
next
  case (step u v)
  then show ?case by (blast intro: keepers_inv_step)
qed

section \<open>A pass with other threads in between\<close>

definition in_pass :: "listener_world \<Rightarrow> listener_world \<Rightarrow> bool" where
  "in_pass u v \<longleftrightarrow> listener_step u v \<and> cursor v \<noteq> None"

text \<open>A finished handler whose keeper the pass has not yet come to.\<close>

definition ahead :: "nat \<Rightarrow> listener_world \<Rightarrow> bool" where
  "ahead i w \<longleftrightarrow>
     i \<in> flagged w \<and> i \<in> set (keepers w) \<union> released w \<and>
     (\<forall>k. cursor w = Some k \<longrightarrow> cursor_valid w \<longrightarrow> i \<notin> set (take k (keepers w)))"

lemma take_erase_at: "k < length xs \<Longrightarrow> take k (erase_at k xs) = take k xs"
  by (simp add: erase_at_def)

lemma ahead_cleanup:
  assumes "ahead i w" "keepers_inv w" "cursor w \<noteq> None"
  shows "ahead i (cleanup_step w)"
proof (cases rule: cleanup_step_cases [of w])
  case (5 k)
  then have "k < length (keepers w)" using assms(2) by (auto simp: keepers_inv_def)
  with 5 assms(1) show ?thesis by (auto simp: ahead_def take_Suc_conv_app_nth)
next
  case (6 k j)
  then have k: "k < length (keepers w)" using assms(2) by (auto simp: keepers_inv_def)
  have d: "distinct (keepers w)" using assms(2) by (simp add: keepers_inv_def)
  from 6 assms(1) k set_erase_at [OF d k] show ?thesis by (auto simp: ahead_def take_erase_at [OF k])
qed (use assms in \<open>auto simp: ahead_def\<close>)

lemma ahead_step:
  assumes "listener_step w w'" "ahead i w" "keepers_inv w" "cursor w \<noteq> None"
  shows "ahead i w'"
  using assms
proof (induction rule: listener_step.induct)
  case (accept w i)
  then show ?case by (auto simp: ahead_def)
next
  case (keep w j grown)
  then have "\<And>k. cursor w = Some k \<Longrightarrow> cursor_valid w \<Longrightarrow> k \<le> length (keepers w)"
    by (simp add: keepers_inv_def)
  with keep show ?case by (auto simp: ahead_def push_keeper_def Let_def)
next
  case (flag w i)
  then show ?case by (auto simp: ahead_def)
next
  case (return w i)
  then show ?case by (auto simp: ahead_def)
next
  case (cleanup w)
  then show ?case using ahead_cleanup by blast
qed

lemma ahead_pass:
  assumes "in_pass\<^sup>*\<^sup>* u v" "ahead i u" "keepers_inv u" "cursor u \<noteq> None"
  shows "ahead i v \<and> keepers_inv v \<and> cursor v \<noteq> None"
  using assms
proof (induction rule: rtranclp_induct)
  case base
  then show ?case by simp
next
  case (step y z)
  then have y: "ahead i y" "keepers_inv y" "cursor y \<noteq> None" and z: "listener_step y z" "cursor z \<noteq> None"
    by (simp_all add: in_pass_def)
  show ?case using ahead_step [OF z(1) y] keepers_inv_step [OF z(1) y(2)] z(2) by simp
qed

text \<open>The only step that ends a pass is the cleanup thread at the end of the vector.\<close>

lemma pass_end:
  assumes "listener_step u v" "cursor u \<noteq> None" "cursor v = None"
  shows "cursor u = Some (length (keepers u)) \<and> cursor_valid u \<and> v = u\<lparr>cursor := None\<rparr>"
  using assms
proof (induction rule: listener_step.induct)
  case (keep w i grown)
  then show ?case by (simp add: push_keeper_def Let_def split: if_splits)
next
  case (cleanup w)
  then show ?case by (cases rule: cleanup_step_cases [of w]) auto
qed simp_all

section \<open>A pass that nothing interrupts\<close>

text \<open>The handler that is waited for returns; nothing else happens.\<close>

definition collect_step :: "listener_world \<Rightarrow> listener_world" where
  "collect_step w = cleanup_step (w\<lparr>live := live w - set_option (joining w)\<rparr>)"

lemma collect_step_runs:
  assumes "\<not> broken w"
  shows "listener_step\<^sup>*\<^sup>* w (collect_step w)"
proof -
  let ?w = "w\<lparr>live := live w - set_option (joining w)\<rparr>"
  have "listener_step\<^sup>*\<^sup>* w ?w"
  proof (cases "\<exists>i. joining w = Some i \<and> i \<in> live w")
    case True
    then show ?thesis using listener_step.return [OF assms] by auto
  next
    case False
    then have "live w - set_option (joining w) = live w" by (cases "joining w") auto
    then show ?thesis by simp
  qed
  moreover have "listener_step ?w (collect_step w)"
    using assms unfolding collect_step_def by (intro listener_step.cleanup) simp
  ultimately show ?thesis by (rule rtranclp.rtrancl_into_rtrancl)
qed

lemma collect_run_runs:
  "(\<And>j. j < n \<Longrightarrow> \<not> broken ((collect_step ^^ j) w)) \<Longrightarrow> listener_step\<^sup>*\<^sup>* w ((collect_step ^^ n) w)"
proof (induction n)
  case (Suc n)
  then have "listener_step\<^sup>*\<^sup>* w ((collect_step ^^ n) w)" "\<not> broken ((collect_step ^^ n) w)" by simp_all
  then show ?case using collect_step_runs [of "(collect_step ^^ n) w"] by simp
qed simp

text \<open>One round for each keeper, one more for each that is erased, and one to end the pass.\<close>

definition pass_rounds :: "listener_world \<Rightarrow> nat \<Rightarrow> nat" where
  "pass_rounds w k = length (drop k (keepers w)) + length (filter (\<lambda>i. i \<in> flagged w) (drop k (keepers w))) + 1"

definition after_pass :: "listener_world \<Rightarrow> nat \<Rightarrow> listener_world" where
  "after_pass w k =
     w\<lparr>keepers := take k (keepers w) @ filter (\<lambda>i. i \<notin> flagged w) (drop k (keepers w)),
       released := released w \<union> (set (drop k (keepers w)) \<inter> flagged w),
       live := live w - (set (drop k (keepers w)) \<inter> flagged w), cursor := None\<rparr>"

lemma collect_skip:
  assumes "cursor w = Some k" "cursor_valid w" "joining w = None" "k < length (keepers w)" "keepers w ! k \<notin> flagged w"
  shows "collect_step w = w\<lparr>cursor := Some (Suc k)\<rparr>"
  using assms by (simp add: collect_step_def cleanup_step_def)

lemma collect_erase:
  assumes "cursor w = Some k" "cursor_valid w" "joining w = None" "k < length (keepers w)" "keepers w ! k \<in> flagged w"
  shows "collect_step w = w\<lparr>joining := Some (keepers w ! k)\<rparr>"
    and "collect_step (collect_step w) = w\<lparr>keepers := erase_at k (keepers w),
      released := insert (keepers w ! k) (released w), live := live w - {keepers w ! k}\<rparr>"
  using assms by (simp_all add: collect_step_def cleanup_step_def)

lemma collect_alone:
  assumes "cursor w = Some k" "cursor_valid w" "joining w = None" "k \<le> length (keepers w)" "\<not> broken w"
  shows "(collect_step ^^ pass_rounds w k) w = after_pass w k \<and> listener_step\<^sup>*\<^sup>* w (after_pass w k)"
  using assms
proof (induction "length (keepers w) - k" arbitrary: w k)
  case 0
  then have "pass_rounds w k = 1" "collect_step w = after_pass w k"
    by (simp_all add: pass_rounds_def after_pass_def collect_step_def cleanup_step_def)
  then show ?case using collect_step_runs [OF "0.prems"(5)] by simp
next
  case (Suc m)
  then have k: "k < length (keepers w)" by simp
  have drop: "drop k (keepers w) = keepers w ! k # drop (Suc k) (keepers w)"
    using k by (simp add: Cons_nth_drop_Suc)
  show ?case
  proof (cases "keepers w ! k \<in> flagged w")
    case True
    note e = collect_erase [OF Suc.prems(1-3) k True]
    define v where "v = w\<lparr>keepers := erase_at k (keepers w),
      released := insert (keepers w ! k) (released w), live := live w - {keepers w ! k}\<rparr>"
    have keep: "take k (keepers v) = take k (keepers w)" "drop k (keepers v) = drop (Suc k) (keepers w)"
        "length (keepers v) = length (keepers w) - 1"
      using k by (simp_all add: v_def erase_at_def)
    have v: "cursor v = Some k" "cursor_valid v" "joining v = None" "\<not> broken v" "flagged v = flagged w"
      using Suc.prems by (simp_all add: v_def)
    have "m = length (keepers v) - k" "k \<le> length (keepers v)" using keep(3) Suc.hyps(2) k by simp_all
    from Suc.hyps(1) [OF this(1) v(1-3) this(2) v(4)]
    have IH: "(collect_step ^^ pass_rounds v k) v = after_pass v k" "listener_step\<^sup>*\<^sup>* v (after_pass v k)" by simp_all
    have minus: "live w - {x} - A = live w - insert x A" for x and A :: "nat set" by blast
    have same: "after_pass v k = after_pass w k"
      unfolding after_pass_def keep v(5) drop using True minus by (simp add: v_def)
    have rounds: "pass_rounds w k = Suc (Suc (pass_rounds v k))"
      using True by (simp add: pass_rounds_def drop keep(2) v(5))
    have "listener_step\<^sup>*\<^sup>* w v"
      using collect_step_runs [OF Suc.prems(5)] collect_step_runs [of "collect_step w"] e Suc.prems(5)
      by (simp flip: v_def)
    with IH show ?thesis
      using rtranclp_trans [of listener_step w v] by (simp add: rounds same funpow_swap1 e(2) flip: v_def)
  next
    case False
    define v where "v = w\<lparr>cursor := Some (Suc k)\<rparr>"
    have e: "collect_step w = v" using collect_skip [OF Suc.prems(1-3) k False] by (simp add: v_def)
    have "m = length (keepers v) - Suc k" "cursor v = Some (Suc k)" "cursor_valid v" "joining v = None"
        "Suc k \<le> length (keepers v)" "\<not> broken v"
      using Suc.prems Suc.hyps(2) k by (simp_all add: v_def)
    from Suc.hyps(1) [OF this]
    have IH: "(collect_step ^^ pass_rounds v (Suc k)) v = after_pass v (Suc k)" "listener_step\<^sup>*\<^sup>* v (after_pass v (Suc k))"
      by simp_all
    have same: "after_pass v (Suc k) = after_pass w k"
      using False k by (simp add: after_pass_def v_def drop take_Suc_conv_app_nth)
    have rounds: "pass_rounds w k = Suc (pass_rounds v (Suc k))"
      using False by (simp add: pass_rounds_def drop v_def)
    have "listener_step\<^sup>*\<^sup>* w v" using collect_step_runs [OF Suc.prems(5)] e by simp
    with IH show ?thesis
      using rtranclp_trans [of listener_step w v] by (simp add: rounds same funpow_swap1 e)
  qed
qed

text \<open>This is the pass of \<open>cleanup_pass\<close>, on keepers that know their handlers by number.\<close>

definition keeper_of :: "listener_world \<Rightarrow> (nat \<Rightarrow> 's) \<Rightarrow> nat \<Rightarrow> 's ThreadKeeper" where
  "keeper_of w sock i = \<lparr>tk_sock = sock i, tk_finished = i \<in> flagged w\<rparr>"

lemma cleanup_pass_flags:
  "cleanup_pass (map (keeper_of w sock) is) = map (keeper_of w sock) (filter (\<lambda>i. i \<notin> flagged w) is)"
  by (induction "is") (auto simp: keeper_of_def)

section \<open>An iterator that is left behind\<close>

text \<open>If the vector were only appended to while no pass runs, as a mutex would ensure, no iterator would be.\<close>

definition locked_step :: "listener_world \<Rightarrow> listener_world \<Rightarrow> bool" where
  "locked_step u v \<longleftrightarrow> listener_step u v \<and> (cursor u \<noteq> None \<longrightarrow> length (keepers v) \<le> length (keepers u))"

lemma locked_never_broken:
  assumes "locked_step\<^sup>*\<^sup>* listener_started w"
  shows "\<not> broken w"
proof -
  have "\<not> broken w \<and> (cursor w \<noteq> None \<longrightarrow> cursor_valid w)"
    using assms
  proof (induction rule: rtranclp_induct)
    case base
    show ?case by (simp add: listener_started_def)
  next
    case (step y z)
    from step.hyps(2) have "listener_step y z" by (simp add: locked_step_def)
    then show ?case
      using step.IH step.hyps(2)
      by (auto elim!: listener_stepE
          simp: locked_step_def push_keeper_def cleanup_step_def Let_def split: if_splits option.splits)
  qed
  then show ?thesis by simp
qed

section \<open>Runs for the witnesses\<close>

definition one_client :: listener_world where
  "one_client = push_keeper 1 0 (listener_started\<lparr>starting := Some 0, born := {0}, live := {0}\<rparr>)"

definition one_finished :: listener_world where
  "one_finished = one_client\<lparr>flagged := {0}\<rparr>"

lemma listener_reachable_step: "listener_reachable u \<Longrightarrow> listener_step u v \<Longrightarrow> listener_reachable v"
  unfolding listener_reachable_def by (rule rtranclp.rtrancl_into_rtrancl)

lemma one_client_reachable: "listener_reachable one_client"
proof -
  have 0: "listener_reachable listener_started" by (simp add: listener_reachable_def)
  have "listener_step listener_started (listener_started\<lparr>starting := Some 0, born := {0}, live := {0}\<rparr>)"
    using listener_step.accept [of listener_started 0] by (simp add: listener_started_def)
  from listener_reachable_step [OF 0 this]
  show ?thesis unfolding one_client_def
    by (rule listener_reachable_step) (rule listener_step.keep, simp_all add: listener_started_def)
qed

lemma one_finished_reachable: "listener_reachable one_finished"
proof -
  have "listener_step one_client one_finished"
    using listener_step.flag [of one_client 0]
    by (simp add: one_finished_def one_client_def push_keeper_def listener_started_def)
  then show ?thesis by (rule listener_reachable_step [OF one_client_reachable])
qed

lemmas one_simps = one_finished_def one_client_def push_keeper_def listener_started_def

section \<open>Properties\<close>

text \<open>
  C20. The cleanup thread never takes a socket from under its handler.  In every state that the threads can
  reach in any order, as long as no invalid iterator has been used and up to the step that uses one
  (C22): a socket that is deleted belongs to a handler that has set its flag and has returned, since
  the flag alone is not enough and \<open>join\<close> waits for the return; no keeper is erased twice; and the keeper
  of every handler that has not returned is in the vector or about to be appended.
\<close>

theorem running_handler_keeps_socket:
  assumes "listener_reachable w"
  shows "released w \<inter> live w = {} \<and> released w \<subseteq> flagged w \<and> distinct (keepers w) \<and>
    set (keepers w) \<inter> released w = {} \<and> (\<forall>i \<in> live w. i \<in> set (keepers w) \<or> starting w = Some i)"
proof -
  have inv: "keepers_inv w" using reachable_keepers_inv [OF assms] .
  have "i \<in> set (keepers w) \<or> starting w = Some i" if "i \<in> live w" for i
  proof -
    have "i \<in> set (keepers w) \<union> released w \<union> set_option (starting w)" "i \<notin> released w"
      using inv that by (auto simp: keepers_inv_def)
    then show ?thesis by auto
  qed
  with inv show ?thesis by (auto simp: keepers_inv_def)
qed

theorem running_handler_keeps_socket_witness:
  "released one_client \<inter> live one_client = {} \<and> live one_client = {0} \<and> keepers one_client = [0]"
  using running_handler_keeps_socket [OF one_client_reachable] by (simp add: one_simps)

text \<open>
  C21. A finished handler is collected by the next complete pass: if its flag is set and its keeper is
  in the vector when a pass of the cleanup thread begins, then after this pass its socket is
  deleted and its keeper gone, whatever the other threads do in between.  A pass that nothing
  interrupts, other than the return of the handlers it waits for, does end: after one round for each
  keeper, one more for each finished handler and one to end.  It erases exactly the keepers
  of the handlers with a flag, as \<open>cleanup_pass\<close> does, and all these have returned.
\<close>

theorem finished_handler_collected:
  assumes "listener_reachable w" "cursor w = None"
  shows "(i \<in> flagged w \<longrightarrow> i \<in> set (keepers w) \<longrightarrow> in_pass\<^sup>*\<^sup>* (cleanup_step w) w1 \<longrightarrow> listener_step w1 w2 \<longrightarrow>
      cursor w2 = None \<longrightarrow> i \<in> released w2 \<and> i \<notin> set (keepers w2)) \<and>
    (let n = length (keepers w) + length (filter (\<lambda>i. i \<in> flagged w) (keepers w)) + 1;
         end = (collect_step ^^ n) (cleanup_step w)
     in listener_step\<^sup>*\<^sup>* w end \<and>
        end = w\<lparr>keepers := filter (\<lambda>i. i \<notin> flagged w) (keepers w),
          released := released w \<union> (set (keepers w) \<inter> flagged w),
          live := live w - (set (keepers w) \<inter> flagged w), cursor := None, cursor_valid := True\<rparr> \<and>
        map (keeper_of w sock) (keepers end) = cleanup_pass (map (keeper_of w sock) (keepers w)))"
proof -
  let ?w0 = "cleanup_step w"
  have w0: "?w0 = w\<lparr>cursor := Some 0, cursor_valid := True\<rparr>" using assms(2) by (simp add: cleanup_step_def)
  have inv: "keepers_inv w" using reachable_keepers_inv [OF assms(1)] .
  then have inv0: "keepers_inv ?w0" by (rule keepers_inv_cleanup)
  have idle: "joining w = None" "\<not> broken w" using inv assms(2) by (auto simp: keepers_inv_def)
  then have "(collect_step ^^ pass_rounds ?w0 0) ?w0 = after_pass ?w0 0" "listener_step\<^sup>*\<^sup>* ?w0 (after_pass ?w0 0)"
    using collect_alone [of ?w0 0] by (simp_all add: w0)
  moreover have "listener_step w ?w0" using idle(2) by (rule listener_step.cleanup)
  ultimately have alone: "(collect_step ^^ pass_rounds ?w0 0) ?w0 = after_pass ?w0 0" "listener_step\<^sup>*\<^sup>* w (after_pass ?w0 0)"
    by (auto intro: converse_rtranclp_into_rtranclp)
  have "i \<in> released w2 \<and> i \<notin> set (keepers w2)"
    if i: "i \<in> flagged w" "i \<in> set (keepers w)" and run: "in_pass\<^sup>*\<^sup>* ?w0 w1" and last: "listener_step w1 w2" "cursor w2 = None"
  proof -
    have "ahead i ?w0" using i by (simp add: ahead_def w0)
    from ahead_pass [OF run this inv0] have w1: "ahead i w1" "keepers_inv w1" "cursor w1 \<noteq> None"
      by (simp_all add: w0)
    from pass_end [OF last(1) w1(3) last(2)]
    have e: "cursor w1 = Some (length (keepers w1))" "cursor_valid w1" "w2 = w1\<lparr>cursor := None\<rparr>" by simp_all
    then have "i \<notin> set (keepers w1)" "i \<in> set (keepers w1) \<union> released w1" using w1(1) by (auto simp: ahead_def)
    then show ?thesis using e(3) by simp
  qed
  moreover have "pass_rounds ?w0 0 = length (keepers w) + length (filter (\<lambda>i. i \<in> flagged w) (keepers w)) + 1"
    by (simp add: pass_rounds_def w0)
  ultimately show ?thesis
    using alone by (auto simp: Let_def after_pass_def w0 cleanup_pass_flags)
qed

theorem finished_handler_collected_witness:
  "0 \<in> released ((collect_step ^^ 3) (cleanup_step one_finished)) \<and> 0 \<notin> live ((collect_step ^^ 3) (cleanup_step one_finished)) \<and>
   live one_finished = {0} \<and> listener_step\<^sup>*\<^sup>* one_finished ((collect_step ^^ 3) (cleanup_step one_finished))"
proof -
  define w where "w = one_finished"
  define e where "e = (collect_step ^^ 3) (cleanup_step w)"
  have w: "cursor w = None" "keepers w = [0]" "flagged w = {0}" "live w = {0}"
    by (simp_all add: w_def one_simps)
  have n: "length (keepers w) + length (filter (\<lambda>i. i \<in> flagged w) (keepers w)) + 1 = 3" by (simp add: w)
  note c = conjunct2 [OF finished_handler_collected [OF one_finished_reachable [folded w_def] w(1), where sock = "\<lambda>i. i"],
      unfolded Let_def n, folded e_def]
  from conjunct1 [OF conjunct2 [OF c]] have "released e = insert 0 (released w)" "live e = {}" by (simp_all add: w)
  with conjunct1 [OF c] w(4) show ?thesis by (simp flip: w_def e_def)
qed

text \<open>
  C22. Without a lock, an append can leave the cleanup thread with an invalid iterator: two clients and
  one pass of the cleanup thread are enough to reach a state where it uses one, even if no two
  accesses to the vector ever happen at the same time.
\<close>

theorem append_invalidates_cleanup: "\<exists>w. listener_reachable w \<and> broken w \<and> born w = {0, 1}"
proof -
  let ?w1 = "cleanup_step one_client"
  let ?w2 = "?w1\<lparr>starting := Some 1, born := insert 1 (born ?w1), live := insert 1 (live ?w1)\<rparr>"
  let ?w3 = "push_keeper 2 1 ?w2"
  have w1: "\<not> broken one_client" "\<not> broken ?w1" "starting ?w1 = None" "1 \<notin> born ?w1"
    by (simp_all add: one_simps cleanup_step_def)
  have w2: "\<not> broken ?w2" "starting ?w2 = Some 1" "length (keepers ?w2) < 2" "\<not> broken ?w3"
    by (simp_all add: one_simps cleanup_step_def)
  note listener_reachable_step [OF one_client_reachable listener_step.cleanup [OF w1(1)]]
  from listener_reachable_step [OF this listener_step.accept [OF w1(2-4)]]
  have "listener_reachable ?w2" .
  from listener_reachable_step [OF this listener_step.keep [OF w2(1-3)]]
  have "listener_reachable ?w3" .
  from listener_reachable_step [OF this listener_step.cleanup [OF w2(4)]]
  have "listener_reachable (cleanup_step ?w3)" .
  moreover have "broken (cleanup_step ?w3)" "born (cleanup_step ?w3) = {0, 1}"
    by (auto simp: one_simps cleanup_step_def)
  ultimately show ?thesis by blast
qed

end
