(* ===== verification/List_RFC_Message.thy ===== *)
theory List_RFC_Message
  imports Message_Codec
begin

text \<open>
  \<open>ListRFCMessage\<close> (\<open>src/list_rfc_msg.cpp\<close>): a host and a port.  The class is compiled into both
  programs but no handler sends it (a LIST request is the bare message code).  On the wire: the
  length of the host, the host, the port.
\<close>

section \<open>The class\<close>

record ListRFCMessage =
  lq_host :: string
  lq_port :: u32

definition ListRFCMessage_init :: ListRFCMessage where
  "ListRFCMessage_init = \<lparr>lq_host = [], lq_port = 0\<rparr>"

definition ListRFCMessage_new :: "string \<Rightarrow> u32 \<Rightarrow> ListRFCMessage" where
  "ListRFCMessage_new h p = \<lparr>lq_host = h, lq_port = p\<rparr>"

definition ListRFCMessage_get_host :: "ListRFCMessage \<Rightarrow> string" where
  "ListRFCMessage_get_host m = lq_host m"

definition ListRFCMessage_set_host :: "string \<Rightarrow> ListRFCMessage \<Rightarrow> ListRFCMessage" where
  "ListRFCMessage_set_host h m = m\<lparr>lq_host := h\<rparr>"

definition ListRFCMessage_get_port :: "ListRFCMessage \<Rightarrow> u32" where
  "ListRFCMessage_get_port m = lq_port m"

definition ListRFCMessage_set_port :: "u32 \<Rightarrow> ListRFCMessage \<Rightarrow> ListRFCMessage" where
  "ListRFCMessage_set_port p m = m\<lparr>lq_port := p\<rparr>"

definition ListRFCMessage_is_valid :: "ListRFCMessage \<Rightarrow> bool" where
  "ListRFCMessage_is_valid m =
     (if length (lq_host m) \<le> 0 \<or> sint (lq_port m) \<le> 0 then False else True)"

definition ListRFCMessage_message_size :: "ListRFCMessage \<Rightarrow> u32" where
  "ListRFCMessage_message_size m = 4 + ulen (lq_host m) + 4"

definition ListRFCMessage_from_bytes :: "byte list \<Rightarrow> ListRFCMessage \<Rightarrow> ListRFCMessage result" where
  "ListRFCMessage_from_bytes bytes m =
     (let pos = 0 in
      bnd (memcpy_from bytes pos 4) (\<lambda>b.
      let len_host = ntohl (load32 b); pos = pos + 4 in
      bnd (vla_unsigned (len_host + 1)) (\<lambda>_.
      bnd (memcpy_from bytes pos (unat len_host)) (\<lambda>cs.
      let m = m\<lparr>lq_host := c_string (bytes_string cs)\<rparr>; pos = pos + len_host in
      bnd (memcpy_from bytes pos 4) (\<lambda>b.
      let m = m\<lparr>lq_port := load32 b\<rparr> in
      Inr (m\<lparr>lq_port := ntohl (lq_port m)\<rparr>))))))"

definition ListRFCMessage_to_bytes :: "(nat \<Rightarrow> byte) \<Rightarrow> ListRFCMessage \<Rightarrow> bytes_ptr result" where
  "ListRFCMessage_to_bytes g m =
     (if \<not> ListRFCMessage_is_valid m then Inr Null
      else
        let buf = fresh_bytes g (unat (ListRFCMessage_message_size m));
            pos = 0;
            tmp = htonl (ulen (lq_host m))
        in bnd (memcpy_to buf pos (store32 tmp)) (\<lambda>buf.
           let pos = pos + 4 in
           bnd (memcpy_to buf pos (string_bytes (lq_host m))) (\<lambda>buf.
           let pos = pos + ulen (lq_host m); tmp = htonl (lq_port m) in
           bnd (memcpy_to buf pos (store32 tmp)) (\<lambda>buf.
           Inr (Bytes buf)))))"

section \<open>What the operations compute\<close>

definition ListRFCMessage_representable :: "ListRFCMessage \<Rightarrow> bool" where
  "ListRFCMessage_representable m \<longleftrightarrow>
     length (lq_host m) + 1 < 2 ^ 31 \<and> nul \<notin> set (lq_host m)"

lemma unat_ListRFCMessage_message_size:
  assumes "length (lq_host m) + 8 < 2 ^ 32"
  shows "unat (ListRFCMessage_message_size m) = length (lq_host m) + 8"
proof -
  have "ListRFCMessage_message_size m = of_nat (length (lq_host m) + 8)"
    by (simp add: ListRFCMessage_message_size_def ulen_def)
  then show ?thesis using assms by (simp only: unat32_of_nat)
qed

lemma ListRFCMessage_to_bytes_eq:
  assumes "ListRFCMessage_is_valid m" and "length (lq_host m) + 8 < 2 ^ 32"
  shows "ListRFCMessage_to_bytes g m =
    Inr (Bytes (wire32 (ulen (lq_host m)) @ string_bytes (lq_host m) @ wire32 (lq_port m)))"
proof -
  let ?h = "lq_host m" and ?L = "ulen (lq_host m)"
  let ?buf = "fresh_bytes g (length ?h + 8)"
  have p: "unat (4 + ?L) = 4 + length ?h"
    using unat_pos_add [of 4 "length ?h"] assms(2) by (simp add: ulen_def)
  have 1: "memcpy_to ?buf 0 (wire32 ?L) = Inr (wire32 ?L @ drop 4 ?buf)"
    using memcpy_to_at [of 0 "[]" "wire32 ?L" ?buf] by simp
  have 2: "memcpy_to (wire32 ?L @ drop 4 ?buf) 4 (string_bytes ?h) =
      Inr (wire32 ?L @ string_bytes ?h @ drop (length ?h + 4) ?buf)"
    using memcpy_to_at [of 4 "wire32 ?L" "string_bytes ?h" "drop 4 ?buf"]
    by simp
  have 3: "memcpy_to (wire32 ?L @ string_bytes ?h @ drop (length ?h + 4) ?buf) (4 + ?L)
      (wire32 (lq_port m)) = Inr (wire32 ?L @ string_bytes ?h @ wire32 (lq_port m))"
    using memcpy_to_at [of "4 + ?L" "wire32 ?L @ string_bytes ?h" "wire32 (lq_port m)"
        "drop (length ?h + 4) ?buf"] p
    by simp
  show ?thesis
    using assms 1 2 3
    by (simp add: ListRFCMessage_to_bytes_def unat_ListRFCMessage_message_size Let_def
        flip: wire32_def)
qed

lemma ListRFCMessage_from_bytes_eq:
  assumes "length h + 1 < 2 ^ 31"
  shows "ListRFCMessage_from_bytes (wire32 (ulen h) @ string_bytes h @ wire32 p @ rest) m =
    Inr (m\<lparr>lq_host := c_string h, lq_port := p\<rparr>)"
proof -
  let ?buf = "wire32 (ulen h) @ string_bytes h @ wire32 p @ rest"
  have pos: "unat (4 + ulen h) = 4 + length h"
    using unat_pos_add [of 4 "length h"] assms by (simp add: ulen_def)
  have 1: "memcpy_from ?buf 0 4 = Inr (wire32 (ulen h))"
    using memcpy_from_at [of 0 "[]" "wire32 (ulen h)" 4] by simp
  have 2: "memcpy_from ?buf 4 (length h) = Inr (string_bytes h)"
    using memcpy_from_at [of 4 "wire32 (ulen h)" "string_bytes h"] by simp
  have 3: "memcpy_from ?buf (4 + ulen h) 4 = Inr (wire32 p)"
    using memcpy_from_at [of "4 + ulen h" "wire32 (ulen h) @ string_bytes h" "wire32 p" 4] pos
    by simp
  show ?thesis
    using 1 2 3 length_steps [OF assms] by (simp add: ListRFCMessage_from_bytes_def Let_def)
qed

section \<open>The message contract\<close>

interpretation list_msg: message_codec ListRFCMessage_is_valid ListRFCMessage_message_size
    ListRFCMessage_from_bytes ListRFCMessage_to_bytes ListRFCMessage_init
    ListRFCMessage_representable
proof unfold_locales
  fix g m
  assume "\<not> ListRFCMessage_is_valid m"
  then show "ListRFCMessage_to_bytes g m = Inr Null" by (simp add: ListRFCMessage_to_bytes_def)
next
  fix g m
  assume v: "ListRFCMessage_is_valid m" and r: "ListRFCMessage_representable m"
  then show "\<exists>buf. ListRFCMessage_to_bytes g m = Inr (Bytes buf) \<and>
      length buf = unat (ListRFCMessage_message_size m) \<and>
      ListRFCMessage_from_bytes buf ListRFCMessage_init = Inr m"
    using ListRFCMessage_to_bytes_eq [of m g]
      ListRFCMessage_from_bytes_eq [of "lq_host m" "lq_port m" "[]"]
    by (simp add: ListRFCMessage_representable_def unat_ListRFCMessage_message_size
        ListRFCMessage_init_def c_string_id)
qed

section \<open>Properties\<close>

text \<open>
  A valid \<open>ListRFCMessage\<close> whose host has no NUL is encoded into exactly \<open>message_size\<close> bytes
  and decoding them into any object gives the message back.
\<close>

lemma ListRFCMessage_roundtrip:
  assumes "lq_host m \<noteq> []" "0 < sint (lq_port m)" "nul \<notin> set (lq_host m)"
    and "length (lq_host m) + 1 < 2 ^ 31"
  shows "\<exists>buf. ListRFCMessage_to_bytes g m = Inr (Bytes buf) \<and>
    length buf = unat (ListRFCMessage_message_size m) \<and> ListRFCMessage_from_bytes buf m0 = Inr m"
  using ListRFCMessage_to_bytes_eq [of m g]
    ListRFCMessage_from_bytes_eq [of "lq_host m" "lq_port m" "[]" m0]
    unat_ListRFCMessage_message_size [of m] assms
  by (simp add: ListRFCMessage_is_valid_def c_string_id)

lemma ListRFCMessage_roundtrip_witness:
  "\<exists>buf. ListRFCMessage_to_bytes (\<lambda>_. 7) (ListRFCMessage_new ''10.0.0.1'' 9000) = Inr (Bytes buf) \<and>
     length buf = unat (ListRFCMessage_message_size (ListRFCMessage_new ''10.0.0.1'' 9000)) \<and>
     ListRFCMessage_from_bytes buf ListRFCMessage_init = Inr (ListRFCMessage_new ''10.0.0.1'' 9000)"
  by (rule ListRFCMessage_roundtrip) (simp_all add: ListRFCMessage_new_def nul_def)

end
