(* ===== verification/Spec2Isabelle.thy ===== *)
theory Spec2Isabelle
  imports Users_At_Once Failed_Calls Tampering Shared_Directory Listener_Threads List_RFC_Message
begin

text \<open>
  A peer-to-peer system that distributes RFCs, written in C++.

  The program.  A central index (\<open>src/server.cpp\<close>) keeps two sorted lists, the connected clients and
  which client holds which RFC (\<open>src/central_index.cpp\<close>).  A client (\<open>src/client.cpp\<close>) keeps its RFCs
  as files of one directory (\<open>src/rfc_manager.cpp\<close>), connects to the index, sends protocol version,
  host and upload port, offers every file it has, and then follows the commands of its user: list
  the index, list the directory, look an RFC up and download it from the first holder.  A second
  thread of the client serves other clients.  All of them exchange binary messages
  (\<open>src/*_msg.cpp\<close>, \<open>src/*_res.cpp\<close>) over sockets (\<open>src/client_socket.cpp\<close>,
  \<open>src/server_socket.cpp\<close>), which are encrypted (\<open>src/encrypted_*_socket.cpp\<close>) after a handshake
  (\<open>src/crypto_common.cpp\<close>); listeners accept connections and run one handler thread for each
  (\<open>src/*_socket_listener.cpp\<close>).

  How a computation ends.  A C++ function that can fail is a value of \<open>'a result\<close>
  (\<open>P2P_Prelude\<close>): \<open>Inr x\<close> is a normal return, \<open>Inl (Throws e)\<close> an exception of the source,
  \<open>Inl Undefined_Behaviour\<close> the undefined behaviour of the language (an access outside a buffer, \<open>nullptr\<close>
  passed on, a negative array bound), \<open>Inl Diverges\<close> a loop that does not end, \<open>Inl Killed_by_SIGPIPE\<close> the
  signal that ends a process which sends on a closed connection and handles no signals.  The program has a few
  loops that can run for ever.  They are \<open>partial_function (option)\<close>, where \<open>None\<close> is
  that they do not return; theorems on what they return say first that they do.  No definition uses fuel.

  The theories, in the order they build on each other:

    \<^item> \<open>P2P_Prelude\<close>, \<open>Std_Library\<close>, \<open>Bytes\<close>: results and their collections of rules; list sort with a
      comparator, strings and number output of the C++ library; bytes, byte order, buffers with
      checked accesses and uninitialised memory.
    \<^item> \<open>Common_Types\<close>: the structures and enumerations of \<open>include/common.hpp\<close>.
    \<^item> \<open>Message_Codec\<close> (the contract of \<open>AbstMessage\<close> as a locale), \<open>Messages_Fixed\<close>,
      \<open>Get_RFC_Response\<close>, \<open>List_RFC_Message\<close>, \<open>List_RFC_Response\<close>, \<open>Lookup_RFC_Response\<close>: the eight
      messages.  Each class is a record; \<open>to_bytes\<close> fills a buffer at a moving 32-bit position as the source does,
      and every class is an interpretation of the contract.  Shown: round trips, exact sizes, the wire format,
      what an invalid message or another code gives.
    \<^item> \<open>Central_Index\<close>, \<open>Central_Index_Steps\<close>, \<open>Index_Locks\<close>: the static lists and their operations; an
      invariant (sorted, no duplicates, every holder connected) and a refinement to a set of clients
      and a relation between numbers and clients; sessions interleaved at the critical sections as a step
      relation; the lock operations of every call, and that no interleaving of them is a deadlock.
    \<^item> \<open>Sockets\<close>, \<open>Socket_Interface\<close>: the plain sockets, with counts in 64-bit words so that a
      system call that answers -1 wraps as in the source.  The kernel is an input: the lists of its
      answers, and what the other side does after its last byte.  \<open>AbstSocket\<close> is a record of operations (\<open>sock_ops\<close>);
      locales state what a connection that works (\<open>frame_socket\<close>), one that the other side has ended but still
      reads (\<open>eof_socket\<close>, for the server's side) and one that it has closed (\<open>closed_socket\<close>) promise to
      the handlers; plain and encrypted sockets interpret them.  The connections to peers are a function \<open>dial\<close>
      that may answer each command of a session differently.
    \<^item> \<open>Crypto_Handshake\<close>, \<open>Encrypted_Sockets\<close>, \<open>Secure_Channel\<close>, \<open>Failed_Calls\<close>: the handshake over any socket, the
      encrypted sockets with the block a tag is received into, agreement and exact delivery, and what one key
      and one IV for all blocks gives an observer; what one system call that fails does to the connection.
    \<^item> \<open>Handler_Common\<close>, \<open>Server\<close>, \<open>Server_Sessions\<close>, \<open>Server_Safety\<close>, \<open>Vanished_Clients\<close>,
      \<open>Server_Properties\<close>: the handler of a connection to the index.  An abstract session (\<open>request\<close>,
      \<open>answers\<close>, \<open>session_log\<close>) says what is answered, what becomes of the index and what is printed; the handler
      is shown to do this in the contract of sockets, hence over plain and encrypted connections alike.
      \<open>Server_Safety\<close> needs no contract: whatever arrives, the index stays well-formed.
    \<^item> \<open>Server_Threads\<close>, \<open>Server_Runs\<close>, \<open>Server_Isolation\<close>: any number of these handlers interleaved at
      their accesses to the index.  They refine the session steps of \<open>Central_Index_Steps\<close>; whole sessions
      served at the same time all end, after a number of steps that is known; and what each client is
      answered depends on the others only through what they hold.
    \<^item> \<open>Closed_Clients\<close>, \<open>Closed_Downloads\<close>: clients that close their connection without DISCONNECT end the
      process of the index server, and that of a peer; the client of this program does so itself when it is
      answered 404.
    \<^item> \<open>Tampering\<close>: the handlers over a connection on which no tag verifies meet the same contract of
      sockets, so whoever alters the wire decides what they do.
    \<^item> \<open>RFC_Manager\<close>: the directory over a file system with a table of descriptors; in \<open>Shared_Directory\<close>
      storing a text call by call, interleaved with the threads that serve the files.
    \<^item> \<open>Peer_Handler\<close>, \<open>Client\<close>, \<open>Client_Sessions\<close>, \<open>Client_Properties\<close>: the client, its handler for peers
      and its exchanges.
    \<^item> \<open>Listener\<close>, \<open>Listener_Threads\<close>: the two listeners, generic in the socket class, and the server's \<open>main\<close>;
      then the listening thread, the cleanup thread and the handlers interleaved at their accesses to the
      vector of keepers: what every interleaving keeps, that finished handlers are collected, and where the
      missing lock is fatal.
    \<^item> \<open>Client_Main\<close>, \<open>System_Sessions\<close>, \<open>Client_Failures\<close>: the client's \<open>main\<close>; connections from the
      bytes of the kernel through connect, handshake and session; what a connection does that is refused, or
      ended without an answer.
    \<^item> \<open>Network\<close>: any number of clients that join, download from each other and leave; the programs refine
      its steps, and published texts (below 2^15) arrive unchanged through any chain of clients.
    \<^item> \<open>User_Sessions\<close>: an abstract session of the client's user (commands, what is on the screen, the texts of the
      own directory), and that the command loop follows it, for every list of these commands and whatever others do
      to the index in between; \<open>Users_At_Once\<close> joins this with the handlers that are interleaved.
    \<^item> This theory: the properties that join client and server, and client and peer, up to the run of a
      whole system.

  What is assumed.  Crypto++ is not part of the sources: it is the record \<open>crypto\<close> of functions, and
  \<open>crypto_ok\<close>, \<open>key_block_ok\<close> name what is used of it (decryption inverts encryption, the lengths
  of ciphertexts, tags and keys; the agreement of the two sides is a hypothesis of the theorem on
  handshakes); \<open>demo_crypto\<close> meets them.  \<open>stream_cipher\<close> says
  in addition that ciphertexts are the xor with a key stream, which is the documented behaviour of
  ChaCha20, and \<open>opens_unverified\<close> that the decrypted text is written before the tag is compared.  Memory that the program
  does not initialise is a function \<open>g\<close> that nothing is known about; it is the same for every variable and every
  round of a loop (in \<open>Server_Threads\<close> one for each handler), where the real contents may differ from round to round.
  The host is little-endian with 32-bit \<open>int\<close>, 16-bit \<open>short\<close> and 64-bit \<open>size_t\<close>.

  Bounds.  Round trips of messages need what the code needs: that the size fits the 32-bit unsigned
  position, and the lengths of hosts the \<open>int\<close> they are sent as; strings come back up to their first NUL, as
  they are read by a constructor from \<open>char*\<close>.  Transfers need a length below 2^64, the range of
  \<open>size_t\<close>, or 2^31, where a size travels as an \<open>int\<close>.

  Numbers beyond a \<open>short\<close>.  A client asks a peer for \<open>asked n\<close>, the number cut to 16 bits, while it looks up,
  stores and registers \<open>n\<close>.  Commands, networks and the properties of downloads are about all \<open>n\<close> for which
  \<open>asked n\<close> is positive, with the text for \<open>asked n\<close> where the program transfers this one; the behaviour for the
  others is undefined (\<open>large_number_get_undefined\<close>).  So what a client downloads for a number from 2^15 on is
  stored and registered under this number, but is the text of another RFC.

  Threads.  The handlers of the server, the threads of a listener and those of a client are step relations
  whose steps end at the accesses to what the threads share; between them a thread uses only its own
  socket and variables.  Every such access is a step of its own and never at the same time as another.  In
  \<open>Listener_Threads\<close> the setting of a flag, the return of a handler, and the round that waits for it in \<open>join\<close>
  are steps of their own; after the use of an invalid iterator there is no further step.

  Not modelled: signals other than SIGPIPE, a connection that is reset while its data are still to be read (the
  kernel of the model says that the other side is gone after its last byte was read), what is written to the error stream, the order of the characters several threads print at
  once, the destructors that only free memory, and two accesses to a listener's vector at the very same
  time (\<open>Listener_Threads\<close> takes them one after the other, which favours the program).

  System calls that fail are in the kernel's answers everywhere; theorems say what becomes of the block and the other end
  after one failed \<open>::send\<close> or \<open>::recv\<close> (\<open>Failed_Calls\<close>), and of whole sessions over refused and ended connections
  (\<open>Client_Failures\<close>, \<open>Vanished_Clients\<close>) and closed ones (\<open>Closed_Clients\<close>, \<open>Closed_Downloads\<close>).
  What a handler does after several failures in one session has no theorem of its own beyond \<open>Server_Safety\<close>,
  which holds however transfers fail.
\<close>

section \<open>Properties that join the components\<close>

text \<open>
  C1. The whole system, from the bytes the kernels deliver to the exit code.  The client program is
  started with its arguments on a directory with the texts of \<open>v\<close>, the index accepts its connection, and the
  client's user types a list of commands (\<open>list\<close>, \<open>listl\<close>, \<open>help\<close>, lines that are no command, and \<open>get\<close> with
  any number that is 0 or still positive as the \<open>short\<close> \<open>asked n\<close> that a peer is asked for) and then \<open>quit\<close>.
  Each download goes to the first holder the index knows, which accepts the connection and has a text for
  \<open>asked n\<close> or not.  If on each connection the ends agree on a secret, and each kernel delivers what the other end
  is to send, then: the program exits with 0; what its user has seen, and the texts it has at the end, are those of
  the abstract session \<open>lone_session\<close>; the constructor of the server-side socket and the handler of the index
  return, and the index has printed one line for each step of the session; the handler of each peer that had the
  text returns and has sent, byte for byte, what the client was delivered, and each peer without it, whose client
  closes the connection when it is told 404, ends with SIGPIPE; what client and index have put on the wire is, byte
  for byte, what the kernel of the other end delivered; the index held for the client exactly the numbers it had at
  the end; and after the session it is again as it was before.
\<close>

theorem system_run:
  assumes "library_ok cr" "link_ok cr rS (rnd ''127.0.0.1'' 8080) sh" "accepts env ''127.0.0.1'' 8080 kc"
    and "length argv = 4" "argv ! 2 = h" "stoi (argv ! 3) = Inr p" "nul \<notin> set h" "length h + 1 < 2 ^ 31"
    and "viewed \<lparr>pr_fs = fs, pr_log = [''Server started'', ''Connected to index'']\<rparr> v"
    and "index_typed (sv_index sst)" "c = \<lparr>host = h, port = p\<rparr>" "c \<notin> set (clients (sv_index sst))"
    and "list_all well_typed cs" "ci = snd (add_client h p (sv_index sst))" "adds = map Ask_add (own_numbers v)"
    and "lone_session h p g' offer cs (snd (answers g' h p adds ci)) v = (rs, ds, v')"
    and "all_sendable g' h p (adds @ rs) ci" "during = snd (answers g' h p (adds @ rs) ci)"
    and "kern_conn kc (to_client cr rS sh (wire32 PROTOCOL_VERSION # fst (answers g' h p (adds @ rs) ci))) []"
    and "kern_conn ks (to_server cr rS (rnd ''127.0.0.1'' 8080) sh (session_blocks h p (adds @ rs) @ [wire32 4])) []"
    and "\<forall>(k, n, d) \<in> set ds. peer_ready cr g' h p n d (offer d (asked n)) (links k)"
  shows "\<exists>cst' sc' l ss sst' ss'.
    client_main (eclient_ops cr g env) (client_dial cr g env rnd) (eclient_ops cr g env) (peer_dial cr g links) g
        lenv argv (map command_line cs @ [''quit'']) fs = Inr (0, cst', Some (sc', l)) \<and> viewed cst' v' \<and>
    EncryptedServerSocket_new cr g' rS ks = Inr ss \<and>
    server_client_handler (eserver_ops cr g') g' sst ss = Inr (True, sst', ss') \<and>
    sv_log sst' = sv_log sst @ session_log h p (adds @ rs) \<and>
    sent (cs_kern (ec_base sc')) = rx_bytes (rx ks) \<and> sent (ss_kern (es_base ss')) = rx_bytes (rx kc) \<and>
    (\<forall>(k, n, d) \<in> set ds. if offer d (asked n) = None then peer_killed cr g' (links k) else peer_served cr g' (links k)) \<and>
    holds (abs_index during) = holds (abs_index (sv_index sst)) \<union> (\<lambda>n. (n, c)) ` dom (texts v') \<and>
    abs_index (sv_index sst') = abs_index (sv_index sst)"
proof -
  let ?st = "\<lparr>pr_fs = fs, pr_log = [''Server started'', ''Connected to index'']\<rparr>"
  let ?lines = "map command_line cs @ [''quit'']"
  obtain sc where sc: "client_dial cr g env rnd ''127.0.0.1'' 8080 = Inr sc" "eclient_conn cr (session_key cr sh)
      (drawn_iv rS) (client_hello cr rS (rnd ''127.0.0.1'' 8080) sh) sc
      (wire32 PROTOCOL_VERSION # fst (answers g' h p (adds @ rs) ci)) []"
    using opened_connection [where rnd = rnd and addr = "''127.0.0.1''" and prt = 8080, OF assms(1,2,19,3)] by blast
  obtain ss where ss: "EncryptedServerSocket_new cr g' rS ks = Inr ss" "eserver_conn cr (session_key cr sh)
      (drawn_iv rS) (server_hello cr rS sh) ss (session_blocks h p (adds @ rs) @ [wire32 4]) []"
    using accepted_connection [OF assms(1,2,20)] by blast
  note peers = peers_ready [OF assms(1) lone_user_session [OF assms(16)] assms(13,21,7,8)]
  from user_session_end_to_end [where dial = "peer_dial cr g links", OF assms(9-12,7,8,13-17) sc(2) ss(2) peers(1) assms(18), of env]
  obtain cst' sc' sst' ss' where r:
    "client_session (eclient_ops cr g env) (eclient_ops cr g env) (peer_dial cr g links) g h p ?lines (?st, sc) =
      Inr (0, cst', EncryptedClientSocket_disconnect env sc')" "viewed cst' v'"
    "eclient_conn cr (session_key cr sh) (drawn_iv rS) (client_hello cr rS (rnd ''127.0.0.1'' 8080) sh) sc' []
        (session_blocks h p (adds @ rs) @ [wire32 4])"
    "server_client_handler (eserver_ops cr g') g' sst ss = Inr (True, sst', EncryptedServerSocket_close ss')"
    "eserver_conn cr (session_key cr sh) (drawn_iv rS) (server_hello cr rS sh) ss' []
        (wire32 PROTOCOL_VERSION # fst (answers g' h p (adds @ rs) ci))"
    "sv_log sst' = sv_log sst @ session_log h p (adds @ rs)"
    "holds (abs_index during) = holds (abs_index (sv_index sst)) \<union> (\<lambda>n. (n, c)) ` dom (texts v')"
    "abs_index (sv_index sst') = abs_index (sv_index sst)" by blast
  obtain es where "fs_node fs = Directory es"
    using assms(9) by (auto simp: viewed_def get_rfcs_def split: node.splits)
  from client_main_session [where connect = "client_dial cr g env rnd", OF assms(4,6) this sc(1), of "eclient_ops cr g env"
      "eclient_ops cr g env" "peer_dial cr g links" g ?lines 0 cst' "EncryptedClientSocket_disconnect env sc'" lenv]
  obtain l where "client_main (eclient_ops cr g env) (client_dial cr g env rnd) (eclient_ops cr g env)
      (peer_dial cr g links) g lenv argv ?lines fs = Inr (0, cst', Some (EncryptedClientSocket_disconnect env sc', l))"
    using r(1) assms(5) by auto
  moreover have "sent (cs_kern (ec_base (EncryptedClientSocket_disconnect env sc'))) = rx_bytes (rx ks)"
    using eclient_conn_sent [OF r(3)] assms(20) by (simp add: sent_disconnect kern_link_def)
  moreover have "sent (ss_kern (es_base (EncryptedServerSocket_close ss'))) = rx_bytes (rx kc)"
    using eserver_conn_sent [OF r(5)] assms(19) by (simp add: sent_close kern_link_def)
  ultimately show ?thesis using r(2,4,6-8) ss(1) peers(2) by blast
qed

text \<open>
  A small system: client \<open>c\<close> has RFC 1.  Its user gets RFC 791 from \<open>b\<close>, the only holder in \<open>demo_index\<close>, lists the
  index, asks for a number nobody has, and mistypes a line.
\<close>

definition demo_commands :: "command list" where
  "demo_commands = [Get 791, Show_index, Get 793, Typo ''hello'']"

definition demo_offer :: "Client \<Rightarrow> u32 \<Rightarrow> string option" where
  "demo_offer d n = (if n = 791 then Some ''ip'' else None)"

definition demo_view :: user_view where
  "demo_view = \<lparr>texts = [1 \<mapsto> ''ip''], screen = [''Server started'', ''Connected to index'']\<rparr>"

definition demo_requests :: "request list" where
  "demo_requests = [Ask_lookup 791, Ask_add 791, Ask_list, Ask_lookup 793]"

abbreviation demo_registered :: CentralIndex where
  "demo_registered \<equiv> snd (answers (\<lambda>_. 9) ''c'' 3 [Ask_add 1] (snd (add_client ''c'' 3 demo_index)))"

definition demo_view_end :: user_view where
  "demo_view_end = snd (snd (lone_session ''c'' 3 (\<lambda>_. 9) demo_offer demo_commands demo_registered demo_view))"

lemma demo_lone_session:
  "lone_session ''c'' 3 (\<lambda>_. 9) demo_offer demo_commands demo_registered demo_view =
     (demo_requests, [(4, 791, \<lparr>host = ''b'', port = 2\<rparr>)], demo_view_end)"
  "texts demo_view_end = [1 \<mapsto> ''ip'', 791 \<mapsto> ''ip'']"
  by (simp_all add: demo_view_end_def demo_commands_def demo_offer_def demo_view_def demo_requests_def demo_index_def
      looked_up_def downloaded_def dialed_def find_rfcs_def demo_session_simps)

definition demo_network :: "byte list \<Rightarrow> conn_env" where
  "demo_network bs =
     \<lparr>ce_socket = 3, ce_pton = (\<lambda>_. 1), ce_connect = (\<lambda>_ _. (0, kern_with bs)), ce_close = 0\<rparr>"

definition demo_ports :: listen_env where
  "demo_ports = \<lparr>le_socket = 4, le_setsockopt = 0, le_bind = 0, le_listen = 0\<rparr>"

definition from_index :: "byte list" where
  "from_index = to_client demo_crypto (demo_draws 3) [7] (wire32 PROTOCOL_VERSION #
     fst (answers (\<lambda>_. 9) ''c'' 3 ([Ask_add 1] @ demo_requests) (snd (add_client ''c'' 3 demo_index))))"

definition demo_text :: "byte list" where
  "demo_text = get_wire (\<lambda>_. 9) (Some ''ip'')"

definition from_peer :: "byte list" where
  "from_peer = to_client demo_crypto (demo_draws 3) [7] [wire32 (ulen demo_text), demo_text]"

definition to_peer :: "byte list" where
  "to_peer = to_server demo_crypto (demo_draws 3) (demo_draws 4) [7]
     (identity_blocks ''c'' 3 @ [wire32 1, wire16 (ucast (791 :: u32)), wire32 2])"

definition demo_links :: "nat \<Rightarrow> peer_link" where
  "demo_links k =
     \<lparr>pl_env = demo_network from_peer, pl_client_draws = demo_draws 4, pl_peer_draws = demo_draws 3, pl_secret = [7],
      pl_to_client = kern_with from_peer, pl_to_peer = kern_with to_peer,
      pl_peer = demo_files [(rfc_filename 791, RegFile ''ip'')]\<rparr>"

lemma demo_library: "library_ok demo_crypto"
  using crypto_ok_demo key_block_ok_demo by (simp add: library_ok_def demo_crypto_def MAC_LEN_def le_max_iff_disj)

lemma demo_link: "link_ok demo_crypto (demo_draws 3) (demo_draws 4) [7]"
  using draws_ok_demo by (simp add: link_ok_def demo_crypto_def demo_draws_def)

lemma demo_accepts: "accepts (demo_network bs) a q (kern_with bs)"
  by (simp add: accepts_def demo_network_def)

lemma demo_peer_ready: "peer_ready demo_crypto (\<lambda>_. 9) ''c'' 3 791 \<lparr>host = ''b'', port = 2\<rparr> (Some ''ip'') (demo_links k)"
  using demo_link demo_accepts kern_conn_kern_with [of from_peer] kern_conn_kern_with [of to_peer] demo_files_791(2)
  by (simp add: peer_ready_def demo_links_def plain_text_def nul_def eof_char_def)
    (simp add: from_peer_def to_peer_def demo_text_def)

lemma demo_viewed: "viewed \<lparr>pr_fs = pr_fs (demo_files [(rfc_filename 1, RegFile ''ip'')]),
    pr_log = [''Server started'', ''Connected to index'']\<rparr> demo_view"
  using demo_files_one(1) [where n = 1]
  by (simp add: viewed_def demo_view_def own_numbers_def stores_def demo_files_def)

theorem system_run_witness:
  "\<exists>cst' sc' l ss sst' ss'.
    client_main (eclient_ops demo_crypto (\<lambda>_. 0) (demo_network from_index))
        (client_dial demo_crypto (\<lambda>_. 0) (demo_network from_index) (\<lambda>_ _. demo_draws 4))
        (eclient_ops demo_crypto (\<lambda>_. 0) (demo_network from_index)) (peer_dial demo_crypto (\<lambda>_. 0) demo_links) (\<lambda>_. 0)
        demo_ports [''client'', ''rfcs'', ''c'', dec_nat 3] (map command_line demo_commands @ [''quit''])
        (pr_fs (demo_files [(rfc_filename 1, RegFile ''ip'')])) = Inr (0, cst', Some (sc', l)) \<and>
    viewed cst' demo_view_end \<and> texts demo_view_end 791 = Some ''ip'' \<and>
    server_client_handler (eserver_ops demo_crypto (\<lambda>_. 9)) (\<lambda>_. 9) \<lparr>sv_index = demo_index, sv_log = []\<rparr> ss =
      Inr (True, sst', ss') \<and>
    abs_index (sv_index sst') = abs_index demo_index"
proof -
  let ?sst = "\<lparr>sv_index = demo_index, sv_log = []\<rparr>" and ?rnd = "\<lambda>_ _. demo_draws 4"
  let ?ks = "kern_with (to_server demo_crypto (demo_draws 3) (?rnd ''127.0.0.1'' 8080) [7]
      (session_blocks ''c'' 3 ([Ask_add 1] @ demo_requests) @ [wire32 4]))"
  have argv: "length [''client'', ''rfcs'', ''c'', dec_nat 3] = 4" "[''client'', ''rfcs'', ''c'', dec_nat 3] ! 2 = ''c''"
      "stoi ([''client'', ''rfcs'', ''c'', dec_nat 3] ! 3) = Inr 3"
    using stoi_dec_nat [of 3] by simp_all
  have h: "nul \<notin> set ''c''" "length ''c'' + 1 < 2 ^ 31" by (simp_all add: nul_def)
  have typed: "index_typed (sv_index ?sst)" "list_all well_typed demo_commands"
    using index_wf_demo
    by (simp_all add: index_typed_def demo_index_def nul_def demo_commands_def idle_line_def get_match_def c_string_id)
  have new: "\<lparr>host = ''c'', port = 3\<rparr> \<notin> set (clients (sv_index ?sst))" by (simp add: demo_index_def)
  have adds: "[Ask_add 1] = map Ask_add (own_numbers demo_view)" by (simp add: own_numbers_def demo_view_def)
  have ci: "snd (add_client ''c'' 3 demo_index) = snd (add_client ''c'' 3 (sv_index ?sst))" by simp
  have ok: "all_sendable (\<lambda>_. 9) ''c'' 3 ([Ask_add 1] @ demo_requests) (snd (add_client ''c'' 3 demo_index))"
    by (simp add: demo_session_simps demo_index_def demo_requests_def)
  have k: "kern_conn (kern_with from_index) (to_client demo_crypto (demo_draws 3) [7] (wire32 PROTOCOL_VERSION #
        fst (answers (\<lambda>_. 9) ''c'' 3 ([Ask_add 1] @ demo_requests) (snd (add_client ''c'' 3 demo_index))))) []"
    using kern_conn_kern_with [of from_index] by (simp only: from_index_def)
  have peers: "\<forall>(k, n, d) \<in> set [(4, 791, \<lparr>host = ''b'', port = 2\<rparr>)].
      peer_ready demo_crypto (\<lambda>_. 9) ''c'' 3 n d (demo_offer d (asked n)) (demo_links k)"
    using demo_peer_ready by (simp add: demo_offer_def)
  from system_run [where rnd = ?rnd and g = "\<lambda>_. 0" and lenv = demo_ports and env = "demo_network from_index",
      OF demo_library demo_link demo_accepts argv h demo_viewed typed(1) refl new typed(2) ci adds demo_lone_session(1) ok refl
        k kern_conn_kern_with peers]
  show ?thesis using demo_lone_session(2) by fastforce
qed

text \<open>
  A session without commands.  The client program (started, registering the numbers of its
  files, then told to quit) and the handler of its connection run over the two ends of one encrypted
  connection.  If the client is new to the index and its numbers are positive and distinct, both
  return, each has received exactly what the other sent, every number was accepted, before the
  disconnect the index held exactly the old entries and this client's, and after it the index is the
  old one again.
\<close>

lemma session_end_to_end:
  assumes "eclient_conn cr key iv pre sc (wire32 PROTOCOL_VERSION # map (\<lambda>_. wire32 200) ns) []"
    and "eserver_conn cr key iv pre' ss (session_blocks h p (map Ask_add ns) @ [wire32 4]) []"
    and "index_wf (sv_index sst)" "c = \<lparr>host = h, port = p\<rparr>" "c \<notin> set (clients (sv_index sst))"
    and "fst (get_rfcs (pr_fs cst)) = Inr ns" "\<forall>n \<in> set ns. 0 < sint n" "distinct ns"
    and "nul \<notin> set h" "length h + 1 < 2 ^ 31"
    and "during = snd (answers g' h p (map Ask_add ns) (snd (add_client h p (sv_index sst))))"
  shows "\<exists>cst' sc' sst' ss'.
    client_session (eclient_ops cr g env) pops dial g h p (''quit'' # lines) (cst, sc) =
      Inr (0, cst', EncryptedClientSocket_disconnect env sc') \<and>
    eclient_conn cr key iv pre sc' [] (session_blocks h p (map Ask_add ns) @ [wire32 4]) \<and>
    server_client_handler (eserver_ops cr g') g' sst ss = Inr (True, sst', EncryptedServerSocket_close ss') \<and>
    eserver_conn cr key iv pre' ss' [] (wire32 PROTOCOL_VERSION # map (\<lambda>_. wire32 200) ns) \<and>
    holds (abs_index during) = holds (abs_index (sv_index sst)) \<union> (\<lambda>n. (n, c)) ` set ns \<and>
    abs_index (sv_index sst') = abs_index (sv_index sst)"
proof -
  have c: "c \<notin> connected (abs_index (sv_index sst))" using assms(5) by (simp add: abs_index_def)
  note r = register_and_leave [OF assms(3,4) c assms(8,11)]
  have "list_all proper (map Ask_add ns)" by (simp add: list_all_iff)
  from server_session_correct_aux [where g = g' and st = sst, OF assms(2,9,10) this all_sendable_adds]
  obtain sst' ss' where s: "server_client_handler (eserver_ops cr g') g' sst ss =
        Inr (True, sst', EncryptedServerSocket_close ss')"
      "sv_index sst' = snd (remove_client h p during)"
      "eserver_conn cr key iv pre' ss' [] (wire32 PROTOCOL_VERSION # map (\<lambda>_. wire32 200) ns)"
    using r(1) assms(11) by auto
  from eclient_sock.client_session_conn [OF assms(1,10,6,7), of g env pops dial g p lines]
  obtain cst' sc' where cl: "client_session (eclient_ops cr g env) pops dial g h p (''quit'' # lines) (cst, sc) =
        Inr (0, cst', EncryptedClientSocket_disconnect env sc')"
      "eclient_conn cr key iv pre sc' [] (session_blocks h p (map Ask_add ns) @ [wire32 4])"
    by (auto simp: eclient_ops_def)
  show ?thesis using s cl r(2,3) by metis
qed

lemma session_end_to_end_witness:
  "\<exists>cst' sc' sst' ss'.
    client_session demo_ops demo_ops (\<lambda>_ _ _. Inr (demo_end [])) (\<lambda>_. 0) ''a'' 1 [''quit'']
        (demo_files [(rfc_filename 791, RegFile ''ip'')],
         demo_end (wire32 PROTOCOL_VERSION # map (\<lambda>_. wire32 200) [791 :: u32])) =
      Inr (0, cst', EncryptedClientSocket_disconnect (demo_env no_kern) sc') \<and>
    server_client_handler (eserver_ops demo_crypto (\<lambda>_. 9)) (\<lambda>_. 9) demo_state
        (demo_peer (session_blocks ''a'' 1 (map Ask_add [791]) @ [wire32 4])) =
      Inr (True, sst', EncryptedServerSocket_close ss') \<and>
    abs_index (sv_index sst') = abs_index (sv_index demo_state)"
proof -
  have wf: "index_wf (sv_index demo_state)" by (simp add: demo_state_def index_wf_empty)
  have new: "\<lparr>host = ''a'', port = 1\<rparr> \<notin> set (clients (sv_index demo_state))"
    by (simp add: demo_state_def CentralIndex_empty_def)
  have pos: "\<forall>n \<in> set [791 :: u32]. 0 < sint n" "distinct [791 :: u32]" by simp_all
  have h: "nul \<notin> set ''a''" "length ''a'' + 1 < 2 ^ 31" by (simp_all add: nul_def)
  from session_end_to_end [OF demo_end_conn demo_peer_conn wf refl new demo_files_791(1) pos h refl,
      where g' = "\<lambda>_. 9" and g = "\<lambda>_. 0" and env = "demo_env no_kern" and pops = demo_ops
        and dial = "\<lambda>_ _ _. Inr (demo_end [])" and lines = "[]"]
  show ?thesis by blast
qed

text \<open>
  C31. A number that comes twice ends the registration.  The names \<open>rfc791.txt\<close> and \<open>rfc0791.txt\<close> stand
  for one number, so a directory can list it twice.  The index answers the second ADD with 400, the
  client sends no further ADD, and all its numbers after that one stay unknown to the index, while the
  session goes on as if nothing had happened.
\<close>

theorem duplicate_ends_registration:
  assumes "fst (get_rfcs (pr_fs cst)) = Inr (ns @ n # ms)" "\<forall>m \<in> set (ns @ n # ms). 0 < sint m" "distinct ns" "n \<in> set ns"
    and "index_wf (sv_index sst)" "c = \<lparr>host = h, port = p\<rparr>" "c \<notin> set (clients (sv_index sst))"
    and "nul \<notin> set h" "length h + 1 < 2 ^ 31"
    and "rs = map Ask_add (ns @ [n])" "during = snd (answers g' h p rs (snd (add_client h p (sv_index sst))))"
    and "eclient_conn cr key iv pre sc (wire32 PROTOCOL_VERSION # map (\<lambda>_. wire32 200) ns @ [wire32 400]) []"
    and "eserver_conn cr key iv pre' ss (session_blocks h p rs @ [wire32 4]) []"
  shows "\<exists>cst' sc' sst' ss'.
    client_session (eclient_ops cr g env) pops dial g h p (''quit'' # lines) (cst, sc) =
      Inr (0, cst', EncryptedClientSocket_disconnect env sc') \<and>
    eclient_conn cr key iv pre sc' [] (session_blocks h p rs @ [wire32 4]) \<and>
    server_client_handler (eserver_ops cr g') g' sst ss = Inr (True, sst', EncryptedServerSocket_close ss') \<and>
    eserver_conn cr key iv pre' ss' [] (wire32 PROTOCOL_VERSION # map (\<lambda>_. wire32 200) ns @ [wire32 400]) \<and>
    holds (abs_index during) = holds (abs_index (sv_index sst)) \<union> (\<lambda>m. (m, c)) ` set ns \<and>
    abs_index (sv_index sst') = abs_index (sv_index sst)"
proof -
  have c: "c \<notin> connected (abs_index (sv_index sst))" using assms(7) by (simp add: abs_index_def)
  note r = register_twice [OF assms(5,6) c assms(3,4,10,11)]
  have "list_all proper rs" "all_sendable g' h p rs (snd (add_client h p (sv_index sst)))"
    using assms(10) all_sendable_adds [of g' h p "ns @ [n]"] by (simp_all add: list_all_iff)
  from server_session_correct_aux [where g = g' and st = sst, OF assms(13,8,9) this]
  obtain sst' ss' where s: "server_client_handler (eserver_ops cr g') g' sst ss =
        Inr (True, sst', EncryptedServerSocket_close ss')" "sv_index sst' = snd (remove_client h p during)"
      "eserver_conn cr key iv pre' ss' [] (wire32 PROTOCOL_VERSION # map (\<lambda>_. wire32 200) ns @ [wire32 400])"
    using r(1) assms(11) by auto
  have pos: "\<forall>m \<in> set (ns @ [n]). 0 < sint m" using assms(2) by simp
  from eclient_sock.client_session_refused [OF assms(12,9,1) pos, of g env pops dial g p lines]
  obtain cst' sc' where cl: "client_session (eclient_ops cr g env) pops dial g h p (''quit'' # lines) (cst, sc) =
        Inr (0, cst', EncryptedClientSocket_disconnect env sc')"
      "eclient_conn cr key iv pre sc' [] (session_blocks h p rs @ [wire32 4])"
    using assms(10) by (auto simp: eclient_ops_def)
  show ?thesis using s cl r(2,3) by metis
qed


definition demo_twice :: peer_state where
  "demo_twice = demo_files [(''rfc900.txt'', RegFile ''c''), (''rfc791.txt'', RegFile ''a''), (''rfc0791.txt'', RegFile ''b'')]"

theorem duplicate_ends_registration_witness:
  "\<exists>cst' sc' sst' ss'.
    client_session demo_ops demo_ops (\<lambda>_ _ _. Inr (demo_end [])) (\<lambda>_. 0) ''a'' 1 [''quit'']
        (demo_twice, demo_end (wire32 PROTOCOL_VERSION # map (\<lambda>_. wire32 200) [791 :: u32] @ [wire32 400])) =
      Inr (0, cst', EncryptedClientSocket_disconnect (demo_env no_kern) sc') \<and>
    server_client_handler (eserver_ops demo_crypto (\<lambda>_. 9)) (\<lambda>_. 9) demo_state
        (demo_peer (session_blocks ''a'' 1 (map Ask_add ([791] @ [791])) @ [wire32 4])) =
      Inr (True, sst', EncryptedServerSocket_close ss') \<and>
    holds (abs_index (snd (answers (\<lambda>_. 9) ''a'' 1 (map Ask_add ([791] @ [791])) (snd (add_client ''a'' 1 (sv_index demo_state)))))) =
      holds (abs_index (sv_index demo_state)) \<union> (\<lambda>m. (m, \<lparr>host = ''a'', port = 1\<rparr>)) ` set [791]"
proof -
  have "parse_filename ''rfc791.txt'' = Inr 791" "parse_filename ''rfc0791.txt'' = Inr 791"
      "parse_filename ''rfc900.txt'' = Inr 900"
    using parse_match [of "''791''" "CHR ''.''"] parse_match [of "''0791''" "CHR ''.''"] parse_match [of "''900''" "CHR ''.''"]
    by (simp_all add: any_char_def nul_def is_digit_def digits_val_def digit_val_def)
  then have dir: "fst (get_rfcs (pr_fs demo_twice)) = Inr ([791] @ 791 # [900])"
    by (simp add: demo_twice_def demo_files_def get_rfcs_def int_less_def)
  have pos: "\<forall>m \<in> set ([791 :: u32] @ 791 # [900]). 0 < sint m" "distinct [791 :: u32]" "(791 :: u32) \<in> set [791]"
    by simp_all
  have wf: "index_wf (sv_index demo_state)" by (simp add: demo_state_def index_wf_empty)
  have new: "\<lparr>host = ''a'', port = 1\<rparr> \<notin> set (clients (sv_index demo_state))"
    by (simp add: demo_state_def CentralIndex_empty_def)
  have h: "nul \<notin> set ''a''" "length ''a'' + 1 < 2 ^ 31" by (simp_all add: nul_def)
  from duplicate_ends_registration [OF dir pos wf refl new h refl refl demo_end_conn demo_peer_conn,
      where g' = "\<lambda>_. 9" and g = "\<lambda>_. 0" and env = "demo_env no_kern" and pops = demo_ops
        and dial = "\<lambda>_ _ _. Inr (demo_end [])" and lines = "[]"]
  show ?thesis by blast
qed

text \<open>
  A peer that asks for a file with an empty text ends the client that serves it: status 200 with
  no text is not a valid response, so \<open>to_bytes\<close> gives \<open>nullptr\<close> and eight bytes of it are sent.
\<close>

lemma empty_file_ends_peer:
  assumes "eserver_conn cr key iv pre s (identity_blocks h p @ [wire32 1, wire16 k] @ ins) []"
    and "nul \<notin> set h" "length h + 1 < 2 ^ 31"
    and "fs_node (pr_fs st) = Directory es" "fs_readable (pr_fs st)" "0 < fs_fds (pr_fs st)"
    and "map_of es (rfc_filename (scast k)) = Some (RegFile [])"
  shows "peer_handler (eserver_ops cr g) g st s = Inl Undefined_Behaviour"
proof -
  have "stored_text (scast k) (pr_fs st) = Some []"
    using assms(4-7) by (simp add: stored_text_def get_content_def)
  from eserver_sock.peer_handler_empty_file [OF assms(1-3) this] show ?thesis .
qed

lemma empty_file_ends_peer_witness:
  "peer_handler (eserver_ops demo_crypto (\<lambda>_. 9)) (\<lambda>_. 9) (demo_files [(rfc_filename (scast (5 :: u16)), RegFile [])])
     (demo_peer (identity_blocks ''b'' 2 @ [wire32 1, wire16 5] @ [])) = Inl Undefined_Behaviour"
  by (rule empty_file_ends_peer [OF demo_peer_conn, where es = "[(rfc_filename (scast (5 :: u16)), RegFile [])]"])
    (simp_all add: demo_files_def nul_def)

end
